(* ===== verification/Prelude.thy ===== *)
theory Prelude
  imports Main "HOL-Library.Word" "HOL-Library.Sublist"
begin

text \<open>
  Shared vocabulary of the development: machine integers, Go error values, computations over a
  state that can fail (Go's \<open>(T, error)\<close> results with side effects), the triples used to reason
  about them, and the generic list lemmas the component theories share.

  A Go string is a sequence of bytes and a HOL \<open>char\<close> is one byte, so Go strings and byte slices
  are both \<open>string\<close>.  An error built by \<open>fmt.Errorf\<close> is kept as its format string and its
  arguments, and \<open>%w\<close> as the wrapped error, so every error site of the code stays distinct;
  \<open>Wrapv\<close> also prints a second error with \<open>%v\<close>.
\<close>

section \<open>Machine integers and error values\<close>

type_synonym u32 = "32 word"
type_synonym u64 = "64 word"

datatype errno =
    ENOENT | ENOTDIR | EISDIR | EACCES | ELOOP | EEXIST | ENOTEMPTY | EPERM | EINVAL | EBUSY

datatype error =
    Sys errno string
  | Errorf string "string list"
  | Wrapf string "string list" error
  | Wrapv string "string list" error error
  | Extern string

text \<open>The system error at the bottom of a chain of wrapped errors, as \<open>errors.Is\<close> finds it.\<close>

fun root_cause :: "error \<Rightarrow> error" where
  "root_cause (Wrapf f as e) = root_cause e"
| "root_cause (Wrapv f as e e') = root_cause e"
| "root_cause e = e"

text \<open>A reader: the bytes it delivers and the error it ends with (\<open>None\<close> for \<open>io.EOF\<close>).\<close>

type_synonym stream = "string \<times> error option"

section \<open>Computations with state and errors\<close>

type_synonym ('s, 'a) io = "'s \<Rightarrow> (error + 'a) \<times> 's"

definition io_return :: "'a \<Rightarrow> ('s, 'a) io" where
  "io_return x = (\<lambda>s. (Inr x, s))"

definition io_throw :: "error \<Rightarrow> ('s, 'a) io" where
  "io_throw e = (\<lambda>s. (Inl e, s))"

definition io_lift :: "error + 'a \<Rightarrow> ('s, 'a) io" where
  "io_lift r = (\<lambda>s. (r, s))"

text \<open>\<open>x, err := m; if err != nil { return err }; f(x)\<close>\<close>

definition io_bind :: "('s, 'a) io \<Rightarrow> ('a \<Rightarrow> ('s, 'b) io) \<Rightarrow> ('s, 'b) io" where
  "io_bind m f = (\<lambda>s. case m s of (Inl e, s') \<Rightarrow> (Inl e, s') | (Inr x, s') \<Rightarrow> f x s')"

text \<open>\<open>if err := m; err != nil { return w(err) }\<close>\<close>

definition io_wrap :: "(error \<Rightarrow> error) \<Rightarrow> ('s, 'a) io \<Rightarrow> ('s, 'a) io" where
  "io_wrap w m = (\<lambda>s. case m s of (Inl e, s') \<Rightarrow> (Inl (w e), s') | (Inr x, s') \<Rightarrow> (Inr x, s'))"

text \<open>\<open>x, err := m\<close>, with the code inspecting \<open>err\<close> itself.\<close>

definition io_try :: "('s, 'a) io \<Rightarrow> ('s, error + 'a) io" where
  "io_try m = (\<lambda>s. case m s of (r, s') \<Rightarrow> (Inr r, s'))"

text \<open>\<open>_ = m\<close>: the error is dropped.\<close>

definition io_ignore :: "('s, 'a) io \<Rightarrow> ('s, unit) io" where
  "io_ignore m = (\<lambda>s. (Inr (), snd (m s)))"

text \<open>\<open>if err := m; err != nil { h; return err }\<close>, whatever the clean-up returns.\<close>

definition io_cleanup :: "('s, 'b) io \<Rightarrow> ('s, 'a) io \<Rightarrow> ('s, 'a) io" where
  "io_cleanup h m = (\<lambda>s. case m s of (Inl e, s') \<Rightarrow> (Inl e, snd (h s')) | (Inr x, s') \<Rightarrow> (Inr x, s'))"

text \<open>Running a computation on a component of a larger state.\<close>

definition io_zoom :: "('t \<Rightarrow> 's) \<Rightarrow> ('s \<Rightarrow> 't \<Rightarrow> 't) \<Rightarrow> ('s, 'a) io \<Rightarrow> ('t, 'a) io" where
  "io_zoom get put m = (\<lambda>t. case m (get t) of (r, s') \<Rightarrow> (r, put s' t))"

text \<open>\<open>for _, x := range xs { if err := f(x); err != nil { return err } }\<close>\<close>

fun io_each :: "('a \<Rightarrow> ('s, unit) io) \<Rightarrow> 'a list \<Rightarrow> ('s, unit) io" where
  "io_each f [] = io_return ()"
| "io_each f (x # xs) = io_bind (f x) (\<lambda>_. io_each f xs)"

named_theorems io_defs
named_theorems io_run

lemmas [io_defs] =
  io_return_def io_throw_def io_lift_def io_bind_def io_wrap_def io_try_def io_ignore_def
  io_zoom_def io_cleanup_def

lemma io_return_run [io_run]: "io_return x s = (Inr x, s)"
  by (simp add: io_defs)

lemma io_throw_run [io_run]: "io_throw e s = (Inl e, s)"
  by (simp add: io_defs)

lemma io_lift_run [io_run]: "io_lift r s = (r, s)"
  by (simp add: io_defs)

lemma io_bind_return [simp]: "io_bind (io_return x) f = f x"
  by (simp add: io_defs)

lemma io_bind_throw [simp]: "io_bind (io_throw e) f = io_throw e"
  by (simp add: io_defs)

lemma io_bind_lift [simp]: "io_bind (io_lift (Inr x)) f = f x"
  by (simp add: io_bind_def io_lift_def)

lemma io_bind_assoc: "io_bind (io_bind m f) g = io_bind m (\<lambda>x. io_bind (f x) g)"
  by (rule ext) (simp add: io_defs split: prod.splits sum.splits)

lemma io_bind_ok [io_run]: "m s = (Inr x, s') \<Longrightarrow> io_bind m f s = f x s'"
  by (simp add: io_defs)

lemma io_bind_err [io_run]: "m s = (Inl e, s') \<Longrightarrow> io_bind m f s = (Inl e, s')"
  by (simp add: io_defs)

lemma io_wrap_ok: "m s = (Inr x, s') \<Longrightarrow> io_wrap w m s = (Inr x, s')"
  by (simp add: io_defs)

lemma io_wrap_err: "m s = (Inl e, s') \<Longrightarrow> io_wrap w m s = (Inl (w e), s')"
  by (simp add: io_defs)

lemma io_wrap_lift: "io_wrap w (io_lift (Inr x)) = io_lift (Inr x)"
  by (simp add: io_wrap_def io_lift_def)

lemma io_bind_InrE:
  assumes "io_bind m f s = (Inr y, s'')"
  obtains x s' where "m s = (Inr x, s')" and "f x s' = (Inr y, s'')"
  using assms by (auto simp: io_defs split: prod.splits sum.splits)

lemma io_wrap_InrD: "io_wrap w m s = (Inr x, s') \<Longrightarrow> m s = (Inr x, s')"
  by (auto simp: io_defs split: prod.splits sum.splits)

lemma io_each_append: "io_each f (xs @ ys) = io_bind (io_each f xs) (\<lambda>_. io_each f ys)"
  by (induction xs) (simp_all add: io_bind_assoc)

section \<open>Triples\<close>

text \<open>
  \<open>triple P m Q E\<close>: from a state with \<open>P\<close>, a success ends in \<open>Q\<close> of the value and the state, and
  a failure in \<open>E\<close> of the error and the state.  Total by construction: every computation of the
  model returns.
\<close>

definition triple ::
  "('s \<Rightarrow> bool) \<Rightarrow> ('s, 'a) io \<Rightarrow> ('a \<Rightarrow> 's \<Rightarrow> bool) \<Rightarrow> (error \<Rightarrow> 's \<Rightarrow> bool) \<Rightarrow> bool" where
  "triple P m Q E \<longleftrightarrow>
     (\<forall>s. P s \<longrightarrow> (case m s of (Inl e, s') \<Rightarrow> E e s' | (Inr x, s') \<Rightarrow> Q x s'))"

text \<open>An invariant is kept whether the computation succeeds or fails.\<close>

abbreviation keeps :: "('s \<Rightarrow> bool) \<Rightarrow> ('s, 'a) io \<Rightarrow> bool" where
  "keeps I m \<equiv> triple I m (\<lambda>_. I) (\<lambda>_. I)"

named_theorems triple_intros

lemma triple_iff:
  "triple P m Q E \<longleftrightarrow>
     (\<forall>s. P s \<longrightarrow> (\<forall>e s'. m s = (Inl e, s') \<longrightarrow> E e s') \<and> (\<forall>x s'. m s = (Inr x, s') \<longrightarrow> Q x s'))"
  by (auto simp: triple_def split: prod.splits sum.splits)

lemma tripleD: "triple P m Q E \<Longrightarrow> P s \<Longrightarrow> case m s of (Inl e, s') \<Rightarrow> E e s' | (Inr x, s') \<Rightarrow> Q x s'"
  by (simp add: triple_def)

lemma triple_snd:
  assumes "triple P m (\<lambda>_. J) (\<lambda>_. J)" and "P s"
  shows "J (snd (m s))"
proof -
  from assms have "case m s of (Inl e, s') \<Rightarrow> J s' | (Inr x, s') \<Rightarrow> J s'"
    by (simp add: triple_def)
  then show ?thesis by (simp split: prod.splits sum.splits)
qed

lemmas keepsD = triple_snd [where P = I and J = I for I]

lemma keepsI:
  assumes "\<And>s. I s \<Longrightarrow> I (snd (m s))"
  shows "keeps I m"
  unfolding triple_def
proof (intro allI impI)
  fix s assume "I s"
  with assms have "I (snd (m s))" .
  then show "case m s of (Inl e, s') \<Rightarrow> I s' | (Inr x, s') \<Rightarrow> I s'"
    by (auto split: prod.splits sum.splits)
qed

lemma triple_return [triple_intros]: "(\<And>s. P s \<Longrightarrow> Q x s) \<Longrightarrow> triple P (io_return x) Q E"
  by (simp add: triple_def io_run)

lemma triple_throw [triple_intros]: "(\<And>s. P s \<Longrightarrow> E e s) \<Longrightarrow> triple P (io_throw e) Q E"
  by (simp add: triple_def io_run)

lemma triple_lift [triple_intros]:
  "(\<And>s x. P s \<Longrightarrow> r = Inr x \<Longrightarrow> Q x s) \<Longrightarrow> (\<And>s e. P s \<Longrightarrow> r = Inl e \<Longrightarrow> E e s) \<Longrightarrow>
   triple P (io_lift r) Q E"
  by (auto simp: triple_def io_run split: sum.splits)

lemma triple_bind:
  "triple P m R E \<Longrightarrow> (\<And>x. triple (R x) (f x) Q E) \<Longrightarrow> triple P (io_bind m f) Q E"
  by (fastforce simp: triple_def io_bind_def split: prod.splits sum.splits)

lemma keeps_bind [triple_intros]:
  "keeps I m \<Longrightarrow> (\<And>x. keeps I (f x)) \<Longrightarrow> keeps I (io_bind m f)"
  by (rule triple_bind)

lemma triple_wrap: "triple P m Q (\<lambda>e. E (w e)) \<Longrightarrow> triple P (io_wrap w m) Q E"
  by (fastforce simp: triple_def io_wrap_def split: prod.splits sum.splits)

lemma keeps_wrap [triple_intros]: "keeps I m \<Longrightarrow> keeps I (io_wrap w m)"
  by (rule triple_wrap)

lemma keeps_try [triple_intros]: "keeps I m \<Longrightarrow> keeps I (io_try m)"
  by (fastforce simp: triple_def io_try_def split: prod.splits sum.splits)

lemma triple_try:
  "triple P m Q E \<Longrightarrow>
   triple P (io_try m) (\<lambda>r s. case r of Inl e \<Rightarrow> E e s | Inr x \<Rightarrow> Q x s) F"
  by (fastforce simp: triple_def io_try_def split: prod.splits sum.splits)

lemma triple_handled:
  "triple P m Q (\<lambda>_ _. False) \<Longrightarrow> triple P (io_cleanup h (io_wrap w m)) Q (\<lambda>_ _. False)"
  by (auto simp: triple_iff io_cleanup_def io_wrap_def split: prod.splits sum.splits)

lemma triple_weaken:
  "triple P m Q E \<Longrightarrow> (\<And>s. P' s \<Longrightarrow> P s) \<Longrightarrow> (\<And>x s. Q x s \<Longrightarrow> Q' x s) \<Longrightarrow>
   (\<And>e s. E e s \<Longrightarrow> E' e s) \<Longrightarrow> triple P' m Q' E'"
  by (fastforce simp: triple_def split: prod.splits sum.splits)

lemma triple_exists:
  "(\<And>x. R x \<Longrightarrow> triple (P x) m Q E) \<Longrightarrow> triple (\<lambda>s. \<exists>x. P x s \<and> R x) m Q E"
  by (fastforce simp: triple_def)

lemma keeps_ignore [triple_intros]: "keeps I m \<Longrightarrow> keeps I (io_ignore m)"
  by (rule keepsI) (simp add: io_ignore_def keepsD)

lemma keeps_each [triple_intros]:
  "(\<And>x. x \<in> set xs \<Longrightarrow> keeps I (f x)) \<Longrightarrow> keeps I (io_each f xs)"
  by (induction xs) (auto intro!: triple_intros)

section \<open>Generic list lemmas\<close>

lemma map_of_filter_neq:
  "map_of (filter (\<lambda>x. fst x \<noteq> p) xs) q = (if q = p then None else map_of xs q)"
  by (induction xs) auto

lemma prefix_butlastD: "xs \<noteq> [] \<Longrightarrow> prefix ys (butlast xs) \<Longrightarrow> prefix ys xs"
  by (metis append_butlast_last_id prefix_append prefix_order.order_trans prefixI)

lemma strict_prefix_butlast: "xs \<noteq> [] \<Longrightarrow> strict_prefix (butlast xs) xs"
  by (cases xs rule: rev_cases) (auto simp: strict_prefix_def)

lemma not_prefix_butlast: "xs \<noteq> [] \<Longrightarrow> \<not> prefix xs (butlast xs)"
  by (meson prefix_order.leD strict_prefix_butlast)

lemma prefix_of_butlast: "strict_prefix ys xs \<Longrightarrow> prefix ys (butlast xs)"
  by (cases xs rule: rev_cases) (auto simp: strict_prefix_def)

lemma strict_prefix_appendI: "ys \<noteq> [] \<Longrightarrow> strict_prefix xs (xs @ ys)"
  by (simp add: strict_prefix_def)

lemma strict_prefix_snoc: "strict_prefix ys (xs @ [x]) \<longleftrightarrow> prefix ys xs"
  by (auto simp: strict_prefix_def)

lemma strict_prefix_take: "k < length xs \<Longrightarrow> strict_prefix (take k xs) xs"
  by (metis append_take_drop_id drop_eq_Nil linorder_not_less strict_prefix_appendI)

lemma list_all_takes:
  "list_all (\<lambda>k. P (take k p)) [0 ..< Suc (length p)] \<longleftrightarrow> (\<forall>q. prefix q p \<longrightarrow> P q)"
proof
  assume a: "list_all (\<lambda>k. P (take k p)) [0 ..< Suc (length p)]"
  show "\<forall>q. prefix q p \<longrightarrow> P q"
  proof (intro allI impI)
    fix q assume q: "prefix q p"
    then have "take (length q) p = q" "length q \<in> set [0 ..< Suc (length p)]"
      by (auto simp: prefix_def simp del: upt_Suc)
    with a show "P q" unfolding list_all_iff by metis
  qed
qed (auto simp: list_all_iff take_is_prefix simp del: upt_Suc)

lemma list_all_butlast: "list_all P xs \<Longrightarrow> list_all P (butlast xs)"
  by (auto simp: list_all_iff dest: in_set_butlastD)

lemma prefix_snocD: "prefix ys (xs @ [x]) \<Longrightarrow> ys = xs @ [x] \<or> prefix ys xs"
  by simp

lemma find_SomeD: "List.find P xs = Some x \<Longrightarrow> x \<in> set xs \<and> P x"
  by (induction xs) (auto split: if_splits)

lemma find_NoneD: "List.find P xs = None \<Longrightarrow> x \<in> set xs \<Longrightarrow> \<not> P x"
  by (induction xs) (auto split: if_splits)

lemma find_filter: "List.find P xs = (case filter P xs of [] \<Rightarrow> None | x # _ \<Rightarrow> Some x)"
  by (induction xs) auto

end
