(* ===== verification/Go_Strings.thy ===== *)
theory Go_Strings
  imports Prelude
begin

text \<open>
  The functions of Go's \<open>strings\<close>, \<open>strconv\<close>, \<open>fmt\<close> and \<open>bufio\<close> packages the program calls, on
  byte strings.  Separators are one byte in all the calls (\<open>/\<close>, \<open>:\<close>, \<open>=\<close>, \<open>,\<close>), so splitting is
  written for one character.
\<close>

section \<open>Searching and cutting\<close>

definition has_prefix :: "string \<Rightarrow> string \<Rightarrow> bool" where
  "has_prefix s p = prefix p s"

definition trim_prefix :: "string \<Rightarrow> string \<Rightarrow> string" where
  "trim_prefix s p = (if has_prefix s p then drop (length p) s else s)"

definition cut_prefix :: "string \<Rightarrow> string \<Rightarrow> string option" where
  "cut_prefix s p = (if has_prefix s p then Some (drop (length p) s) else None)"

text \<open>\<open>strings.Cut\<close>: the text before and after the first separator, if there is one.\<close>

fun cut_chr :: "char \<Rightarrow> string \<Rightarrow> (string \<times> string) option" where
  "cut_chr c [] = None"
| "cut_chr c (x # xs) =
     (if x = c then Some ([], xs) else map_option (\<lambda>(l, r). (x # l, r)) (cut_chr c xs))"

text \<open>\<open>strings.IndexAny\<close>, and \<open>strings.Index\<close> for one character.\<close>

fun index_any :: "string \<Rightarrow> string \<Rightarrow> nat option" where
  "index_any [] cs = None"
| "index_any (x # xs) cs = (if x \<in> set cs then Some 0 else map_option Suc (index_any xs cs))"

definition contains_any :: "string \<Rightarrow> string \<Rightarrow> bool" where
  "contains_any s cs = (index_any s cs \<noteq> None)"

text \<open>\<open>strings.Index\<close> for a longer substring.\<close>

fun index_sub :: "string \<Rightarrow> string \<Rightarrow> nat option" where
  "index_sub [] p = (if p = [] then Some 0 else None)"
| "index_sub (x # xs) p =
     (if prefix p (x # xs) then Some 0 else map_option Suc (index_sub xs p))"

lemma cut_chr_None_iff: "cut_chr c s = None \<longleftrightarrow> c \<notin> set s"
  by (induction s) auto

lemma cut_chr_append [simp]: "c \<notin> set l \<Longrightarrow> cut_chr c (l @ c # r) = Some (l, r)"
  by (induction l) auto

lemma cut_chr_SomeD: "cut_chr c s = Some (l, r) \<Longrightarrow> s = l @ c # r \<and> c \<notin> set l"
  by (induction s arbitrary: l) (auto split: if_splits)

lemma cut_chr_Some_iff: "cut_chr c s = Some (l, r) \<longleftrightarrow> s = l @ c # r \<and> c \<notin> set l"
  using cut_chr_SomeD by auto

lemma index_any_None_iff: "index_any s cs = None \<longleftrightarrow> set s \<inter> set cs = {}"
  by (induction s) auto

lemma index_any_Some_take:
  "index_any s cs = Some i \<Longrightarrow>
     i < length s \<and> s ! i \<in> set cs \<and> set (take i s) \<inter> set cs = {}"
  by (induction s arbitrary: i) (auto split: if_splits)

lemma index_any_first: "set l \<inter> set cs = {} \<Longrightarrow> x \<in> set cs \<Longrightarrow>
  index_any (l @ x # r) cs = Some (length l)"
  by (induction l) auto

lemma has_prefix_append [simp]: "has_prefix (p @ s) p"
  by (simp add: has_prefix_def)

lemma cut_prefix_append [simp]: "cut_prefix (p @ s) p = Some s"
  by (simp add: cut_prefix_def)

lemma cut_prefix_SomeD: "cut_prefix s p = Some r \<Longrightarrow> s = p @ r"
  by (auto simp: cut_prefix_def has_prefix_def prefix_def split: if_splits)

section \<open>Splitting and joining\<close>

text \<open>\<open>strings.Split\<close> at every occurrence of a character.\<close>

fun split_chr :: "char \<Rightarrow> string \<Rightarrow> string list" where
  "split_chr c [] = [[]]"
| "split_chr c (x # xs) =
     (if x = c then [] # split_chr c xs
      else case split_chr c xs of [] \<Rightarrow> [[x]] | y # ys \<Rightarrow> (x # y) # ys)"

text \<open>\<open>strings.SplitN\<close> with a positive limit: at most \<open>n\<close> pieces, the last one unsplit.\<close>

fun splitn_chr :: "char \<Rightarrow> nat \<Rightarrow> string \<Rightarrow> string list" where
  "splitn_chr c 0 s = []"
| "splitn_chr c (Suc 0) s = [s]"
| "splitn_chr c (Suc (Suc n)) s =
     (case cut_chr c s of None \<Rightarrow> [s] | Some (l, r) \<Rightarrow> l # splitn_chr c (Suc n) r)"

fun join_str :: "string \<Rightarrow> string list \<Rightarrow> string" where
  "join_str sep [] = []"
| "join_str sep [x] = x"
| "join_str sep (x # y # zs) = x @ sep @ join_str sep (y # zs)"

lemma split_chr_nonempty [simp]: "split_chr c s \<noteq> []"
  by (induction s) (auto split: list.splits)

lemma split_chr_sep_free: "x \<in> set (split_chr c s) \<Longrightarrow> c \<notin> set x"
proof (induction s arbitrary: x)
  case (Cons y s)
  then show ?case
    by (cases "split_chr c s") (auto split: if_splits)
qed simp

lemma split_chr_free [simp]: "c \<notin> set s \<Longrightarrow> split_chr c s = [s]"
  by (induction s) auto

lemma split_chr_append [simp]: "c \<notin> set l \<Longrightarrow> split_chr c (l @ c # r) = l # split_chr c r"
  by (induction l) auto

lemma join_str_Cons:
  "join_str sep (x # xs) = (if xs = [] then x else x @ sep @ join_str sep xs)"
  by (cases xs) auto

lemma join_split_chr: "join_str [c] (split_chr c s) = s"
proof (induction s)
  case (Cons x s)
  then show ?case
    by (cases "split_chr c s") (auto simp: join_str_Cons split: if_splits)
qed simp

lemma split_join_chr:
  "xs \<noteq> [] \<Longrightarrow> (\<forall>x \<in> set xs. c \<notin> set x) \<Longrightarrow> split_chr c (join_str [c] xs) = xs"
  by (induction xs) (auto simp: join_str_Cons)

lemma splitn_chr_join: "0 < n \<Longrightarrow> join_str [c] (splitn_chr c n s) = s"
proof (induction c n s rule: splitn_chr.induct)
  case (3 c n s)
  then show ?case
    by (cases n) (auto simp: cut_chr_Some_iff join_str_Cons split: option.splits)
qed simp_all

lemma join_str_append:
  "xs \<noteq> [] \<Longrightarrow> ys \<noteq> [] \<Longrightarrow> join_str sep (xs @ ys) = join_str sep xs @ sep @ join_str sep ys"
  by (induction xs) (auto simp: join_str_Cons)

section \<open>Trimming\<close>

definition trim_left_chr :: "char \<Rightarrow> string \<Rightarrow> string" where
  "trim_left_chr c s = dropWhile (\<lambda>x. x = c) s"

definition trim_chr :: "char \<Rightarrow> string \<Rightarrow> string" where
  "trim_chr c s = rev (trim_left_chr c (rev (trim_left_chr c s)))"

text \<open>
  \<open>strings.TrimSpace\<close> removes the runes of \<open>unicode.IsSpace\<close> at both ends; here are their UTF-8
  encodings.
\<close>

definition bytes_of :: "nat list \<Rightarrow> string" where
  "bytes_of = map char_of"

definition space_runes :: "string list" where
  "space_runes = map bytes_of
     ([[9], [10], [11], [12], [13], [32], [0xC2, 0x85], [0xC2, 0xA0], [0xE1, 0x9A, 0x80]]
      @ map (\<lambda>i. [0xE2, 0x80, i]) ([0x80 ..< 0x8B] @ [0xA8, 0xA9, 0xAF])
      @ [[0xE2, 0x81, 0x9F], [0xE3, 0x80, 0x80]])"

fun strip_any :: "string list \<Rightarrow> nat \<Rightarrow> string \<Rightarrow> string" where
  "strip_any ws 0 s = s"
| "strip_any ws (Suc n) s =
     (case List.find (\<lambda>w. prefix w s) ws of None \<Rightarrow> s | Some w \<Rightarrow> strip_any ws n (drop (length w) s))"

definition trim_space :: "string \<Rightarrow> string" where
  "trim_space s =
     (let l = strip_any space_runes (length s) s
      in rev (strip_any (map rev space_runes) (length l) (rev l)))"

text \<open>Printable ASCII characters are not part of any space rune, so lines that begin and end with one
  are not trimmed.\<close>

definition graphic :: "char \<Rightarrow> bool" where
  "graphic c = (33 \<le> (of_char c :: nat) \<and> (of_char c :: nat) \<le> 126)"

lemma space_runes_ends: "list_all (\<lambda>w. w \<noteq> [] \<and> \<not> graphic (hd w) \<and> \<not> graphic (last w)) space_runes"
  by (simp add: space_runes_def bytes_of_def graphic_def upt_rec)

lemma strip_any_id:
  assumes "\<And>w. w \<in> set ws \<Longrightarrow> w \<noteq> [] \<and> hd w \<noteq> c"
  shows "strip_any ws n (c # s) = c # s"
proof -
  have "List.find (\<lambda>w. prefix w (c # s)) ws = None"
    using assms by (fastforce simp: find_None_iff prefix_Cons)
  then show ?thesis by (cases n) simp_all
qed

lemma trim_space_graphic:
  assumes "s \<noteq> []" and "graphic (hd s)" and "graphic (last s)"
  shows "trim_space s = s"
proof -
  obtain c r where s: "s = c # r" using assms(1) by (cases s) auto
  obtain d q where rs: "rev s = d # q" using assms(1) by (cases "rev s") auto
  have "d = last s" using hd_rev [of s] by (simp only: rs list.sel)
  then have ends: "graphic c" "graphic d" using assms(2,3) s by simp_all
  have "strip_any space_runes (length s) s = s"
    unfolding s using ends(1) space_runes_ends by (intro strip_any_id) (auto simp: list_all_iff)
  moreover have "strip_any (map rev space_runes) (length s) (rev s) = rev s"
    unfolding rs using ends(2) space_runes_ends by (intro strip_any_id) (auto simp: list_all_iff hd_rev)
  ultimately show ?thesis by (simp add: trim_space_def Let_def)
qed

lemma trim_left_chr_hd: "trim_left_chr c s = [] \<or> hd (trim_left_chr c s) \<noteq> c"
  by (induction s) (auto simp: trim_left_chr_def)

section \<open>Numbers\<close>

definition digit_char :: "nat \<Rightarrow> char" where
  "digit_char n = char_of (48 + n)"

definition is_digit :: "char \<Rightarrow> bool" where
  "is_digit c = (48 \<le> (of_char c :: nat) \<and> (of_char c :: nat) \<le> 57)"

definition digit_val :: "char \<Rightarrow> nat" where
  "digit_val c = of_char c - 48"

text \<open>\<open>%d\<close> of an unsigned value.\<close>

fun dec_of_nat :: "nat \<Rightarrow> string" where
  "dec_of_nat n = (if n < 10 then [digit_char n] else dec_of_nat (n div 10) @ [digit_char (n mod 10)])"

declare dec_of_nat.simps [simp del]

definition nat_of_dec :: "string \<Rightarrow> nat" where
  "nat_of_dec s = foldl (\<lambda>a c. 10 * a + digit_val c) 0 s"

text \<open>
  \<open>strconv.ParseUint(s, 10, 32)\<close>: a syntax error for an empty string or a byte that is not a
  digit, a range error from \<open>2^32\<close> on.  The program only asks whether there was an error.
\<close>

definition parse_uint32 :: "string \<Rightarrow> u32 option" where
  "parse_uint32 s =
     (if s = [] \<or> \<not> list_all is_digit s then None
      else if nat_of_dec s < 2 ^ 32 then Some (of_nat (nat_of_dec s)) else None)"

definition fmt_u32 :: "u32 \<Rightarrow> string" where
  "fmt_u32 w = dec_of_nat (unat w)"

lemma unat_u32: "unat (w :: u32) < 2 ^ 32"
  using unsigned_less [of w, where ?'a = nat] by simp

lemma of_char_digit: "n < 10 \<Longrightarrow> (of_char (digit_char n) :: nat) = 48 + n"
  by (simp add: digit_char_def)

lemma digit_val_char [simp]: "n < 10 \<Longrightarrow> digit_val (digit_char n) = n"
  by (simp add: digit_val_def of_char_digit)

lemma is_digit_char [simp]: "n < 10 \<Longrightarrow> is_digit (digit_char n)"
  by (simp add: is_digit_def of_char_digit)

lemma dec_of_nat_nonempty [simp]: "dec_of_nat n \<noteq> []"
  by (subst dec_of_nat.simps) simp

lemma dec_of_nat_digits: "list_all is_digit (dec_of_nat n)"
proof (induction n rule: dec_of_nat.induct)
  case (1 n)
  then show ?case by (subst dec_of_nat.simps) simp
qed

lemma nat_of_dec_snoc: "nat_of_dec (s @ [c]) = 10 * nat_of_dec s + digit_val c"
  by (simp add: nat_of_dec_def)

lemma nat_of_dec_of_nat [simp]: "nat_of_dec (dec_of_nat n) = n"
proof (induction n rule: dec_of_nat.induct)
  case (1 n)
  then show ?case
    by (subst dec_of_nat.simps) (simp add: nat_of_dec_snoc, simp add: nat_of_dec_def)
qed

lemma dec_of_nat_inject [simp]: "dec_of_nat m = dec_of_nat n \<longleftrightarrow> m = n"
  by (metis nat_of_dec_of_nat)

lemma parse_uint32_fmt [simp]: "parse_uint32 (fmt_u32 w) = Some w"
proof -
  have "unat w < 2 ^ 32" by (rule unat_u32)
  then show ?thesis
    by (simp add: parse_uint32_def fmt_u32_def dec_of_nat_digits)
qed

lemma digits_not_in: "list_all is_digit s \<Longrightarrow> \<not> is_digit c \<Longrightarrow> c \<notin> set s"
  by (auto simp: list_all_iff)

lemma dec_of_nat_char_free: "\<not> is_digit c \<Longrightarrow> c \<notin> set (dec_of_nat n)"
  by (rule digits_not_in [OF dec_of_nat_digits])

text \<open>\<open>%08x\<close> of a 32-bit value: exactly eight lower-case hexadecimal digits.\<close>

definition hex_char :: "nat \<Rightarrow> char" where
  "hex_char n = char_of (if n < 10 then 48 + n else 87 + n)"

definition hex_val :: "char \<Rightarrow> nat option" where
  "hex_val c =
     (let n = of_char c :: nat in
      if 48 \<le> n \<and> n \<le> 57 then Some (n - 48)
      else if 97 \<le> n \<and> n \<le> 102 then Some (n - 87)
      else if 65 \<le> n \<and> n \<le> 70 then Some (n - 55) else None)"

fun hex_digits :: "nat \<Rightarrow> nat \<Rightarrow> string" where
  "hex_digits 0 n = []"
| "hex_digits (Suc k) n = hex_digits k (n div 16) @ [hex_char (n mod 16)]"

definition fmt_08x :: "u32 \<Rightarrow> string" where
  "fmt_08x w = hex_digits 8 (unat w)"

definition nat_of_hex :: "string \<Rightarrow> nat option" where
  "nat_of_hex s =
     foldl (\<lambda>a c. case (a, hex_val c) of (Some n, Some d) \<Rightarrow> Some (16 * n + d) | _ \<Rightarrow> None) (Some 0) s"

lemma hex_val_char [simp]: "n < 16 \<Longrightarrow> hex_val (hex_char n) = Some n"
  by (simp add: hex_val_def hex_char_def)

lemma length_hex_digits [simp]: "length (hex_digits k n) = k"
  by (induction k arbitrary: n) auto

lemma length_fmt_08x [simp]: "length (fmt_08x w) = 8"
  by (simp add: fmt_08x_def)

lemma nat_of_hex_snoc:
  "nat_of_hex (s @ [c]) =
     (case (nat_of_hex s, hex_val c) of (Some n, Some d) \<Rightarrow> Some (16 * n + d) | _ \<Rightarrow> None)"
  by (simp add: nat_of_hex_def)

lemma nat_of_hex_digits: "nat_of_hex (hex_digits k n) = Some (n mod 16 ^ k)"
proof (induction k arbitrary: n)
  case 0
  then show ?case by (simp add: nat_of_hex_def)
next
  case (Suc k)
  have "16 * (n div 16 mod 16 ^ k) + n mod 16 = n mod 16 ^ Suc k"
    by (simp add: mod_mult2_eq)
  with Suc show ?case by (simp add: nat_of_hex_snoc)
qed

lemma nat_of_hex_fmt [simp]: "nat_of_hex (fmt_08x w) = Some (unat w)"
proof -
  have "unat w < 16 ^ 8" using unat_u32 [of w] by simp
  then show ?thesis by (simp add: fmt_08x_def nat_of_hex_digits)
qed

section \<open>Lines\<close>

text \<open>
  \<open>bufio.Scanner\<close> with \<open>ScanLines\<close>: the lines without their newline and without one trailing
  carriage return; a line of 65536 bytes or more does not fit the scanner's buffer and ends the
  scan with an error (the second component).
\<close>

definition max_token :: nat where
  "max_token = 65536"

definition drop_cr :: "string \<Rightarrow> string" where
  "drop_cr l = (if l \<noteq> [] \<and> last l = char_of (13::nat) then butlast l else l)"

definition raw_lines :: "string \<Rightarrow> string list" where
  "raw_lines s = (let ls = split_chr (char_of (10::nat)) s in if last ls = [] then butlast ls else ls)"

definition scan_lines :: "string \<Rightarrow> string list \<times> bool" where
  "scan_lines s =
     (let ls = raw_lines s
      in (map drop_cr (takeWhile (\<lambda>l. length l < max_token) ls),
          \<exists>l \<in> set ls. max_token \<le> length l))"

end
