(* ===== verification/Go_Path.thy ===== *)
theory Go_Path
  imports Go_Strings
begin

text \<open>
  Go's \<open>path/filepath\<close> on Unix: \<open>Clean\<close>, \<open>Join\<close>, \<open>Dir\<close> and \<open>Base\<close>.  \<open>Clean\<close> works on the
  list of path elements between slashes with a stack, as the documented rules say: empty and
  \<open>.\<close> elements go away, \<open>..\<close> removes the element before it, and \<open>..\<close> at the root is dropped.
  The lemmas describe cleaned paths by their elements: a cleaned absolute path is \<open>abs_path cs\<close>
  for a list \<open>cs\<close> of plain elements.
\<close>

abbreviation slash :: char where
  "slash \<equiv> CHR ''/''"

definition is_rooted :: "string \<Rightarrow> bool" where
  "is_rooted p = (p \<noteq> [] \<and> hd p = slash)"

fun clean_step :: "bool \<Rightarrow> string list \<Rightarrow> string \<Rightarrow> string list" where
  "clean_step rooted st c =
     (if c = [] \<or> c = ''.'' then st
      else if c = ''..'' then
        (case st of
           [] \<Rightarrow> if rooted then [] else [''..'']
         | t # ts \<Rightarrow> if t = ''..'' then ''..'' # st else ts)
      else c # st)"

declare clean_step.simps [simp del]

definition clean_comps :: "bool \<Rightarrow> string list \<Rightarrow> string list" where
  "clean_comps rooted cs = rev (foldl (clean_step rooted) [] cs)"

definition path_clean :: "string \<Rightarrow> string" where
  "path_clean p =
     (if p = [] then ''.''
      else let r = is_rooted p;
               body = join_str ''/'' (clean_comps r (split_chr slash p))
           in if r then slash # body else if body = [] then ''.'' else body)"

definition path_join :: "string list \<Rightarrow> string" where
  "path_join es =
     (let es' = dropWhile (\<lambda>e. e = []) es
      in if es' = [] then [] else path_clean (join_str ''/'' es'))"

text \<open>The text up to and including the last slash, and the text after it.\<close>

definition upto_last_slash :: "string \<Rightarrow> string" where
  "upto_last_slash p = rev (dropWhile (\<lambda>c. c \<noteq> slash) (rev p))"

definition after_last_slash :: "string \<Rightarrow> string" where
  "after_last_slash p = rev (takeWhile (\<lambda>c. c \<noteq> slash) (rev p))"

definition path_dir :: "string \<Rightarrow> string" where
  "path_dir p = path_clean (upto_last_slash p)"

definition path_base :: "string \<Rightarrow> string" where
  "path_base p =
     (if p = [] then ''.''
      else let q = after_last_slash (rev (dropWhile (\<lambda>c. c = slash) (rev p)))
           in if q = [] then ''/'' else q)"

section \<open>Plain elements and absolute paths\<close>

definition plain :: "string \<Rightarrow> bool" where
  "plain c \<longleftrightarrow> c \<noteq> [] \<and> c \<noteq> ''.'' \<and> c \<noteq> ''..'' \<and> slash \<notin> set c"

abbreviation plains :: "string list \<Rightarrow> bool" where
  "plains cs \<equiv> list_all plain cs"

definition abs_path :: "string list \<Rightarrow> string" where
  "abs_path cs = slash # join_str ''/'' cs"

named_theorems path_simps

lemma plain_step [path_simps]: "plain c \<Longrightarrow> clean_step r st c = c # st"
  by (simp add: plain_def clean_step.simps)

lemma skip_step [path_simps]: "clean_step r st [] = st" "clean_step r st ''.'' = st"
  by (simp_all add: clean_step.simps)

lemma dotdot_step [path_simps]: "clean_step r [] ''..'' = (if r then [] else [''..''])"
  by (simp add: clean_step.simps)

lemma foldl_plain: "plains cs \<Longrightarrow> foldl (clean_step r) st cs = rev cs @ st"
  by (induction cs arbitrary: st) (auto simp: path_simps)

lemma clean_comps_plain [path_simps]: "plains cs \<Longrightarrow> clean_comps r cs = cs"
  by (simp add: clean_comps_def foldl_plain)

lemma clean_comps_Nil [path_simps]: "clean_comps r ([] # cs) = clean_comps r cs"
  by (simp add: clean_comps_def path_simps)

lemma clean_comps_plain_append:
  "plains cs \<Longrightarrow> plains ds \<Longrightarrow> clean_comps r (cs @ ds) = cs @ ds"
  by (rule clean_comps_plain) simp

lemma plains_sep_free: "plains cs \<Longrightarrow> \<forall>c \<in> set cs. slash \<notin> set c"
  by (auto simp: list_all_iff plain_def)

lemma split_abs_path [path_simps]:
  assumes "plains cs"
  shows "split_chr slash (abs_path cs) = [] # (if cs = [] then [[]] else cs)"
proof (cases "cs = []")
  case False
  with assms have "split_chr slash (join_str ''/'' cs) = cs"
    by (intro split_join_chr plains_sep_free)
  with False show ?thesis by (simp add: abs_path_def)
qed (simp add: abs_path_def)

lemma is_rooted_abs [path_simps]: "is_rooted (abs_path cs)"
  by (simp add: is_rooted_def abs_path_def)

lemma abs_path_nonempty [simp]: "abs_path cs \<noteq> []"
  by (simp add: abs_path_def)

lemma path_clean_abs [path_simps]: "plains cs \<Longrightarrow> path_clean (abs_path cs) = abs_path cs"
  by (auto simp: path_clean_def path_simps Let_def) (auto simp: abs_path_def clean_comps_def path_simps)

lemma abs_path_inject:
  assumes "plains cs" and "plains ds"
  shows "abs_path cs = abs_path ds \<longleftrightarrow> cs = ds"
proof
  assume "abs_path cs = abs_path ds"
  then have "[] # (if cs = [] then [[]] else cs) = [] # (if ds = [] then [[]] else ds)"
    using split_abs_path [OF assms(1)] split_abs_path [OF assms(2)] by simp
  with assms show "cs = ds" by (auto simp: plain_def split: if_splits)
qed simp

section \<open>What \<open>Clean\<close> returns\<close>

text \<open>
  The stack of a cleaned path: plain elements on top of a block of \<open>..\<close>, which a rooted path
  does not have.
\<close>

definition clean_stack :: "bool \<Rightarrow> string list \<Rightarrow> bool" where
  "clean_stack rooted st \<longleftrightarrow>
     (\<exists>ps n. plains ps \<and> st = ps @ replicate n ''..'' \<and> (rooted \<longrightarrow> n = 0))"

lemma clean_stack_dots: "(r \<Longrightarrow> n = 0) \<Longrightarrow> clean_stack r (replicate n ''..'')"
  unfolding clean_stack_def by (rule exI [where x = "[]"], rule exI [where x = n]) simp

lemma clean_stack_step:
  assumes "clean_stack r st" and "slash \<notin> set c"
  shows "clean_stack r (clean_step r st c)"
proof -
  from assms(1) obtain ps n
    where st: "plains ps" "st = ps @ replicate n ''..''" "r \<longrightarrow> n = 0"
    by (auto simp: clean_stack_def)
  consider "c = [] \<or> c = ''.''" | "c = ''..''" | "plain c"
    using assms(2) by (auto simp: plain_def)
  then show ?thesis
  proof cases
    case 1
    with assms show ?thesis by (auto simp: clean_step.simps)
  next
    case 2
    show ?thesis
    proof (cases ps)
      case Nil
      with st 2 have "clean_step r st c = replicate (if r then 0 else Suc n) ''..''"
        by (cases n) (auto simp: clean_step.simps)
      then show ?thesis by (simp add: clean_stack_dots)
    next
      case (Cons p qs)
      with st 2 show ?thesis
        by (auto simp: clean_step.simps clean_stack_def plain_def)
    qed
  next
    case 3
    with st have "clean_step r st c = (c # ps) @ replicate n ''..''" and "plains (c # ps)"
      by (simp_all add: path_simps)
    with st(3) show ?thesis unfolding clean_stack_def by blast
  qed
qed

lemma clean_stack_foldl:
  "clean_stack r st \<Longrightarrow> (\<forall>c \<in> set cs. slash \<notin> set c) \<Longrightarrow> clean_stack r (foldl (clean_step r) st cs)"
  by (induction cs arbitrary: st) (auto simp: clean_stack_step)

lemma clean_comps_shape:
  assumes "\<forall>c \<in> set cs. slash \<notin> set c"
  obtains n ps where "clean_comps r cs = replicate n ''..'' @ ps" and "plains ps" and "r \<Longrightarrow> n = 0"
proof -
  have "clean_stack r []"
    by (auto simp: clean_stack_def)
  then have "clean_stack r (foldl (clean_step r) [] cs)"
    using assms by (rule clean_stack_foldl)
  then obtain ps n where "plains ps" "foldl (clean_step r) [] cs = ps @ replicate n ''..''"
      "r \<longrightarrow> n = 0"
    by (auto simp: clean_stack_def)
  then have "clean_comps r cs = replicate n ''..'' @ rev ps" "plains (rev ps)" "r \<Longrightarrow> n = 0"
    by (auto simp: clean_comps_def list_all_iff)
  then show ?thesis by (rule that)
qed

lemma path_clean_rooted:
  assumes "is_rooted p"
  obtains cs where "path_clean p = abs_path cs" and "plains cs"
    and "cs = clean_comps True (split_chr slash p)"
proof -
  have "\<forall>c \<in> set (split_chr slash p). slash \<notin> set c"
    by (auto dest: split_chr_sep_free)
  then obtain n ps where "clean_comps True (split_chr slash p) = replicate n ''..'' @ ps"
      "plains ps" "n = 0"
    by (rule clean_comps_shape [where r = True]) auto
  with assms show ?thesis
    by (intro that [of ps]) (auto simp: path_clean_def is_rooted_def abs_path_def Let_def)
qed

text \<open>
  A cleaned relative path that is neither \<open>..\<close> nor starts with \<open>../\<close> consists of plain elements
  only; it is \<open>.\<close> when there are none.
\<close>

definition rel_path :: "string list \<Rightarrow> string" where
  "rel_path cs = (if cs = [] then ''.'' else join_str ''/'' cs)"

lemma path_clean_parts:
  assumes "\<not> is_rooted p" and ps: "plains ps"
    and shape: "clean_comps False (split_chr slash p) = replicate n ''..'' @ ps"
  shows "path_clean p = rel_path (replicate n ''..'' @ ps)"
proof (cases "p = []")
  case True
  with shape have "replicate n ''..'' @ ps = []"
    by (simp add: clean_comps_def path_simps)
  with True show ?thesis by (simp add: path_clean_def rel_path_def)
next
  case False
  have "join_str ''/'' (replicate n ''..'' @ ps) = [] \<longleftrightarrow> replicate n ''..'' @ ps = []"
    using ps by (cases n; cases ps) (auto simp: join_str_Cons plain_def)
  with False assms(1) shape show ?thesis by (simp add: path_clean_def rel_path_def Let_def)
qed

lemma rel_path_climbs: "path = rel_path (replicate (Suc m) ''..'' @ ps) \<Longrightarrow>
  path = ''..'' \<or> has_prefix path ''../''"
  by (auto simp: rel_path_def join_str_Cons has_prefix_def)

lemma path_clean_relative:
  assumes "\<not> is_rooted p"
    and "path_clean p \<noteq> ''..''" and "\<not> has_prefix (path_clean p) ''../''"
  obtains cs where "path_clean p = rel_path cs" and "plains cs"
    and "cs = clean_comps False (split_chr slash p)"
proof -
  have "\<forall>c \<in> set (split_chr slash p). slash \<notin> set c"
    by (auto dest: split_chr_sep_free)
  then obtain n ps where shape: "clean_comps False (split_chr slash p) = replicate n ''..'' @ ps"
      and ps: "plains ps"
    by (rule clean_comps_shape [where r = False]) auto
  note body = path_clean_parts [OF assms(1) ps shape]
  have "n = 0"
    using assms(2,3) rel_path_climbs [of "path_clean p"] body by (cases n) auto
  with body shape ps show ?thesis
    by (intro that [of ps]) auto
qed

lemma rel_path_split:
  "plains cs \<Longrightarrow> split_chr slash (rel_path cs) = (if cs = [] then [''.''] else cs)"
  using split_join_chr [of cs slash] plains_sep_free [of cs] by (auto simp: rel_path_def)

lemma path_join_rel [path_simps]:
  assumes "plains ds" and "plains cs"
  shows "path_join [abs_path ds, rel_path cs] = abs_path (ds @ cs)"
proof -
  have "abs_path ds @ ''/'' @ rel_path cs = abs_path ds @ slash # rel_path cs" by simp
  have "split_chr slash (slash # join_str ''/'' ds @ slash # rel_path cs) =
      [] # (if ds = [] then [[]] else ds) @ (if cs = [] then [''.''] else cs)"
  proof (cases "ds = []")
    case True
    then show ?thesis using rel_path_split [OF assms(2)] by simp
  next
    case False
    have "join_str ''/'' ds @ slash # rel_path cs = join_str ''/'' (ds @ split_chr slash (rel_path cs))"
      using False by (simp add: join_str_append join_split_chr)
    moreover have "split_chr slash (join_str ''/'' (ds @ split_chr slash (rel_path cs))) =
        ds @ split_chr slash (rel_path cs)"
      using False plains_sep_free [OF assms(1)]
      by (intro split_join_chr) (auto dest: split_chr_sep_free)
    ultimately show ?thesis using False rel_path_split [OF assms(2)] by simp
  qed
  then have "clean_comps True (split_chr slash (slash # join_str ''/'' ds @ slash # rel_path cs)) = ds @ cs"
    using assms by (auto simp: clean_comps_def path_simps foldl_plain)
  then show ?thesis
    by (simp add: path_join_def path_clean_def is_rooted_def abs_path_def Let_def)
qed

lemma path_join_plain [path_simps]:
  "plains ds \<Longrightarrow> plain c \<Longrightarrow> path_join [abs_path ds, c] = abs_path (ds @ [c])"
  using path_join_rel [of ds "[c]"] by (simp add: rel_path_def)

lemma join_str_snoc: "xs \<noteq> [] \<Longrightarrow> join_str sep (xs @ [x]) = join_str sep xs @ sep @ x"
  by (simp add: join_str_append)

lemma upto_last_slash_append: "slash \<notin> set c \<Longrightarrow> upto_last_slash (p @ slash # c) = p @ [slash]"
  by (subgoal_tac "\<forall>x \<in> set (rev c). x \<noteq> slash")
    (simp_all add: upto_last_slash_def dropWhile_append3 dropWhile_eq_Nil_conv, blast)

lemma path_dir_abs [path_simps]:
  assumes "plains cs"
  shows "path_dir (abs_path cs) = abs_path (butlast cs)"
proof (cases cs rule: rev_cases)
  case Nil
  then show ?thesis
    by (simp add: path_dir_def abs_path_def upto_last_slash_def path_clean_def is_rooted_def
        clean_comps_def path_simps Let_def)
next
  case (snoc ds c)
  with assms have pl: "plains ds" "plain c" "slash \<notin> set c" by (auto simp: plain_def)
  have "upto_last_slash (abs_path cs) = (if ds = [] then [slash] else abs_path ds @ [slash])"
    using upto_last_slash_append [OF pl(3), of "[]"] upto_last_slash_append [OF pl(3), of "abs_path ds"]
    by (simp add: snoc abs_path_def join_str_snoc)
  moreover have "path_clean [slash] = abs_path []"
    by (simp add: abs_path_def path_clean_def is_rooted_def clean_comps_def path_simps Let_def)
  moreover have "ds \<noteq> [] \<Longrightarrow> path_clean (abs_path ds @ [slash]) = abs_path ds"
  proof -
    assume "ds \<noteq> []"
    then have "split_chr slash (abs_path ds @ [slash]) = [] # ds @ [[]]"
      using split_join_chr [of "[] # ds @ [[]]" slash] plains_sep_free [OF pl(1)]
      by (simp add: abs_path_def join_str_Cons join_str_snoc)
    then show ?thesis
      using pl(1) by (simp add: path_clean_def is_rooted_def clean_comps_def path_simps foldl_plain
          Let_def abs_path_def)
  qed
  ultimately show ?thesis
    by (simp add: path_dir_def snoc)
qed

lemma path_base_append:
  assumes "slash \<notin> set c" and "c \<noteq> []"
  shows "path_base (pre @ slash # c) = c"
proof -
  obtain x xs where c: "rev c = x # xs" "x \<noteq> slash"
    using assms by (metis list.exhaust list.set_intros(1) rev_is_Nil_conv set_rev)
  have "takeWhile (\<lambda>x. x \<noteq> slash) (rev c @ slash # rev pre) = rev c"
    using assms(1) by (intro takeWhile_tail [THEN trans]) (auto simp: takeWhile_append2)
  with c assms(2) show ?thesis
    by (simp add: path_base_def after_last_slash_def)
qed

lemma abs_path_snoc: "\<exists>pre. abs_path (ds @ [c]) = pre @ slash # c"
  by (cases "ds = []") (auto simp: abs_path_def join_str_snoc intro: exI [where x = "abs_path ds" for ds])

lemma path_base_abs [path_simps]: "plain c \<Longrightarrow> path_base (abs_path (ds @ [c])) = c"
  using abs_path_snoc [of ds c] path_base_append [of c] by (auto simp: plain_def)

lemma path_base_sep_free: "path_base p = ''/'' \<or> slash \<notin> set (path_base p)"
  by (auto simp: path_base_def after_last_slash_def Let_def dest: set_takeWhileD)

end
