(* ===== verification/Posix.thy ===== *)
theory Posix
  imports Go_Path "HOL-Library.Char_ord" "HOL-Library.List_Lexorder"
begin

unbundle bit_operations_syntax

text \<open>
  The file system under the program: a tree of directories, regular files and symbolic links with
  permission bits, and the calls of Go's \<open>os\<close> package the program makes.  A node is named by the
  list of its path elements from the root.  Regular files are inode numbers, so hard links share
  their contents and mode.  Path resolution follows symbolic links as the kernel does (in the
  middle of a path always, at its end when the call asks for it, at most 40 times).

  The process owns every node it sees; \<open>fs_super\<close> says whether it bypasses the permission bits, so
  only the owner's bits matter.  The file system does not run out of space, nobody else changes
  it during a call, and its clock stands still.
\<close>

section \<open>Nodes\<close>

type_synonym path = "string list"

datatype node = Dir u32 | File nat | Symlink string

record inode =
  i_data :: string
  i_mode :: u32
  i_mtime :: int

record fs =
  fs_nodes :: "(path \<times> node) list"
  fs_inodes :: "nat \<Rightarrow> inode"
  fs_next :: nat
  fs_cwd :: path
  fs_super :: bool
  fs_umask :: u32
  fs_now :: int

definition node_at :: "fs \<Rightarrow> path \<Rightarrow> node option" where
  "node_at s p = map_of (fs_nodes s) p"

definition del_node :: "path \<Rightarrow> fs \<Rightarrow> fs" where
  "del_node p s = s\<lparr>fs_nodes := filter (\<lambda>x. fst x \<noteq> p) (fs_nodes s)\<rparr>"

definition set_node :: "path \<Rightarrow> node \<Rightarrow> fs \<Rightarrow> fs" where
  "set_node p n s = s\<lparr>fs_nodes := (p, n) # filter (\<lambda>x. fst x \<noteq> p) (fs_nodes s)\<rparr>"

definition set_inode :: "nat \<Rightarrow> inode \<Rightarrow> fs \<Rightarrow> fs" where
  "set_inode i x s = s\<lparr>fs_inodes := (fs_inodes s)(i := x)\<rparr>"

definition has_child :: "fs \<Rightarrow> path \<Rightarrow> bool" where
  "has_child s p = list_ex (\<lambda>(q, _). q \<noteq> [] \<and> butlast q = p) (fs_nodes s)"

text \<open>The bytes of the regular file a name stands for (the name itself, links not followed).\<close>

definition content_at :: "fs \<Rightarrow> path \<Rightarrow> string option" where
  "content_at s p =
     (case node_at s p of Some (File i) \<Rightarrow> Some (i_data (fs_inodes s i)) | _ \<Rightarrow> None)"

definition mode_at :: "fs \<Rightarrow> path \<Rightarrow> u32 option" where
  "mode_at s p =
     (case node_at s p of Some (File i) \<Rightarrow> Some (i_mode (fs_inodes s i)) | Some (Dir m) \<Rightarrow> Some m
      | _ \<Rightarrow> None)"

definition is_dir_at :: "fs \<Rightarrow> path \<Rightarrow> bool" where
  "is_dir_at s p = (case node_at s p of Some (Dir _) \<Rightarrow> True | _ \<Rightarrow> False)"

definition r_bit :: u32 where "r_bit = 0x100"
definition w_bit :: u32 where "w_bit = 0x80"
definition x_bit :: u32 where "x_bit = 0x40"
definition perm_mask :: u32 where "perm_mask = 0x1FF"

definition allowed :: "fs \<Rightarrow> u32 \<Rightarrow> u32 \<Rightarrow> bool" where
  "allowed s want m = (fs_super s \<or> m AND want \<noteq> 0)"

definition may_edit :: "fs \<Rightarrow> path \<Rightarrow> bool" where
  "may_edit s p =
     (case node_at s (butlast p) of Some (Dir m) \<Rightarrow> allowed s w_bit m \<and> allowed s x_bit m | _ \<Rightarrow> False)"

definition created_mode :: "fs \<Rightarrow> u32 \<Rightarrow> u32" where
  "created_mode s m = (m AND perm_mask) AND NOT (fs_umask s)"

section \<open>Path resolution\<close>

datatype place = At path node | Absent path

definition max_links :: nat where
  "max_links = 40"

function resolve :: "fs \<Rightarrow> bool \<Rightarrow> nat \<Rightarrow> path \<Rightarrow> string list \<Rightarrow> errno + place" where
  "resolve s fl n cur [] =
     (case node_at s cur of None \<Rightarrow> Inl ENOENT | Some nd \<Rightarrow> Inr (At cur nd))"
| "resolve s fl n cur (c # cs) =
     (case node_at s cur of
        None \<Rightarrow> Inl ENOENT
      | Some (File _) \<Rightarrow> Inl ENOTDIR
      | Some (Symlink _) \<Rightarrow> Inl ENOTDIR
      | Some (Dir m) \<Rightarrow>
          if \<not> allowed s x_bit m then Inl EACCES
          else if c = [] \<or> c = ''.'' then resolve s fl n cur cs
          else if c = ''..'' then resolve s fl n (butlast cur) cs
          else (case node_at s (cur @ [c]) of
                  None \<Rightarrow> if cs = [] then Inr (Absent (cur @ [c])) else Inl ENOENT
                | Some (Symlink t) \<Rightarrow>
                    if cs = [] \<and> \<not> fl then Inr (At (cur @ [c]) (Symlink t))
                    else if n = 0 then Inl ELOOP
                    else resolve s fl (n - 1) (if is_rooted t then [] else cur) (split_chr slash t @ cs)
                | Some nd \<Rightarrow> resolve s fl n (cur @ [c]) cs))"
  by pat_completeness auto
termination
  by (relation "measures [\<lambda>(s, fl, n, cur, cs). n, \<lambda>(s, fl, n, cur, cs). length cs]") auto

definition walk :: "fs \<Rightarrow> bool \<Rightarrow> string \<Rightarrow> errno + place" where
  "walk s fl p =
     (if p = [] then Inl ENOENT
      else resolve s fl max_links (if is_rooted p then [] else fs_cwd s) (split_chr slash p))"

section \<open>The calls\<close>

definition os_stat :: "string \<Rightarrow> (fs, node) io" where
  "os_stat p = (\<lambda>s. case walk s True p of
       Inl e \<Rightarrow> (Inl (Sys e p), s)
     | Inr (Absent _) \<Rightarrow> (Inl (Sys ENOENT p), s)
     | Inr (At _ nd) \<Rightarrow> (Inr nd, s))"

definition os_lstat :: "string \<Rightarrow> (fs, node) io" where
  "os_lstat p = (\<lambda>s. case walk s False p of
       Inl e \<Rightarrow> (Inl (Sys e p), s)
     | Inr (Absent _) \<Rightarrow> (Inl (Sys ENOENT p), s)
     | Inr (At _ nd) \<Rightarrow> (Inr nd, s))"

definition os_read_file :: "string \<Rightarrow> (fs, string) io" where
  "os_read_file p = (\<lambda>s. case walk s True p of
       Inl e \<Rightarrow> (Inl (Sys e p), s)
     | Inr (Absent _) \<Rightarrow> (Inl (Sys ENOENT p), s)
     | Inr (At _ (File i)) \<Rightarrow>
         if allowed s r_bit (i_mode (fs_inodes s i)) then (Inr (i_data (fs_inodes s i)), s)
         else (Inl (Sys EACCES p), s)
     | Inr (At _ _) \<Rightarrow> (Inl (Sys EISDIR p), s))"

definition create_file :: "path \<Rightarrow> u32 \<Rightarrow> fs \<Rightarrow> fs" where
  "create_file q mode s =
     (set_node q (File (fs_next s))
       (set_inode (fs_next s) \<lparr>i_data = [], i_mode = created_mode s mode, i_mtime = fs_now s\<rparr> s))
     \<lparr>fs_next := Suc (fs_next s)\<rparr>"

definition truncate_file :: "nat \<Rightarrow> fs \<Rightarrow> fs" where
  "truncate_file i s = set_inode i ((fs_inodes s i)\<lparr>i_data := [], i_mtime := fs_now s\<rparr>) s"

text \<open>\<open>os.OpenFile(p, O_CREATE|O_WRONLY|O_TRUNC, mode)\<close>; the file handle is the inode number.\<close>

definition os_open_trunc :: "string \<Rightarrow> u32 \<Rightarrow> (fs, nat) io" where
  "os_open_trunc p mode = (\<lambda>s. case walk s True p of
       Inl e \<Rightarrow> (Inl (Sys e p), s)
     | Inr (Absent q) \<Rightarrow>
         if may_edit s q then (Inr (fs_next s), create_file q mode s) else (Inl (Sys EACCES p), s)
     | Inr (At _ (File i)) \<Rightarrow>
         if allowed s w_bit (i_mode (fs_inodes s i)) then (Inr i, truncate_file i s)
         else (Inl (Sys EACCES p), s)
     | Inr (At _ _) \<Rightarrow> (Inl (Sys EISDIR p), s))"

definition fd_write :: "nat \<Rightarrow> string \<Rightarrow> (fs, unit) io" where
  "fd_write i b = (\<lambda>s. (Inr (),
     set_inode i ((fs_inodes s i)\<lparr>i_data := i_data (fs_inodes s i) @ b, i_mtime := fs_now s\<rparr>) s))"

text \<open>\<open>io.Copy(f, r)\<close>: what the reader delivers is written, then its error surfaces.\<close>

definition io_copy :: "nat \<Rightarrow> stream \<Rightarrow> (fs, unit) io" where
  "io_copy i r = io_bind (fd_write i (fst r)) (\<lambda>_.
     case snd r of None \<Rightarrow> io_return () | Some e \<Rightarrow> io_throw e)"

definition os_write_file :: "string \<Rightarrow> string \<Rightarrow> u32 \<Rightarrow> (fs, unit) io" where
  "os_write_file p b mode = io_bind (os_open_trunc p mode) (\<lambda>i. fd_write i b)"

definition os_mkdir :: "string \<Rightarrow> u32 \<Rightarrow> (fs, unit) io" where
  "os_mkdir p mode = (\<lambda>s. case walk s False p of
       Inl e \<Rightarrow> (Inl (Sys e p), s)
     | Inr (At _ _) \<Rightarrow> (Inl (Sys EEXIST p), s)
     | Inr (Absent q) \<Rightarrow>
         if may_edit s q then (Inr (), set_node q (Dir (created_mode s mode)) s)
         else (Inl (Sys EACCES p), s))"

text \<open>
  \<open>os.MkdirAll\<close>: a directory already there is success; otherwise the parent first, then
  \<open>Mkdir\<close>, tolerating a directory that has appeared meanwhile.  The first argument says whether
  the path is absolute, the second is its elements, last one first.
\<close>

definition build_path :: "bool \<Rightarrow> string list \<Rightarrow> string" where
  "build_path rooted cs = (if rooted then abs_path cs else join_str ''/'' cs)"

fun mkdir_all_rev :: "bool \<Rightarrow> string list \<Rightarrow> u32 \<Rightarrow> (fs, unit) io" where
  "mkdir_all_rev rooted [] mode =
     (if rooted then io_bind (os_stat (build_path rooted [])) (\<lambda>_. io_return ()) else io_return ())"
| "mkdir_all_rev rooted (c # cs) mode =
     (let p = build_path rooted (rev (c # cs))
      in io_bind (io_try (os_stat p)) (\<lambda>r. case r of
           Inr (Dir _) \<Rightarrow> io_return ()
         | Inr _ \<Rightarrow> io_throw (Sys ENOTDIR p)
         | Inl _ \<Rightarrow>
             io_bind (mkdir_all_rev rooted cs mode) (\<lambda>_.
             io_bind (io_try (os_mkdir p mode)) (\<lambda>r. case r of
               Inr _ \<Rightarrow> io_return ()
             | Inl e \<Rightarrow>
                 io_bind (io_try (os_lstat p)) (\<lambda>l. case l of
                   Inr (Dir _) \<Rightarrow> io_return ()
                 | _ \<Rightarrow> io_throw e)))))"

definition os_mkdir_all :: "string \<Rightarrow> u32 \<Rightarrow> (fs, unit) io" where
  "os_mkdir_all p mode =
     (if p = [] then io_throw (Sys ENOENT p)
      else mkdir_all_rev (is_rooted p) (rev (filter (\<lambda>c. c \<noteq> []) (split_chr slash p))) mode)"

definition os_remove :: "string \<Rightarrow> (fs, unit) io" where
  "os_remove p = (\<lambda>s. case walk s False p of
       Inl e \<Rightarrow> (Inl (Sys e p), s)
     | Inr (Absent _) \<Rightarrow> (Inl (Sys ENOENT p), s)
     | Inr (At q nd) \<Rightarrow>
         if q = [] then (Inl (Sys EBUSY p), s)
         else if \<not> may_edit s q then (Inl (Sys EACCES p), s)
         else if has_child s q then (Inl (Sys ENOTEMPTY p), s)
         else (Inr (), del_node q s))"

text \<open>
  \<open>os.RemoveAll\<close>: everything at and under the name, deepest first, skipping what the permission
  bits protect (then the call reports an error).  A name that is not there is success.
\<close>

definition dir_open :: "fs \<Rightarrow> path \<Rightarrow> bool" where
  "dir_open s p =
     (case node_at s p of Some (Dir m) \<Rightarrow> allowed s r_bit m \<and> allowed s x_bit m | _ \<Rightarrow> False)"

definition removable :: "path \<Rightarrow> fs \<Rightarrow> path \<Rightarrow> bool" where
  "removable q s r =
     (r \<noteq> [] \<and> may_edit s r \<and> \<not> has_child s r
      \<and> list_all (\<lambda>k. dir_open s (take k r)) [length q ..< length r])"

definition victims :: "fs \<Rightarrow> path \<Rightarrow> path list" where
  "victims s q = rev (sort_key length (filter (prefix q) (map fst (fs_nodes s))))"

definition remove_tree :: "path \<Rightarrow> fs \<Rightarrow> fs" where
  "remove_tree q s =
     foldl (\<lambda>s r. if removable q s r then del_node r s else s) s (victims s q)"

definition os_remove_all :: "string \<Rightarrow> (fs, unit) io" where
  "os_remove_all p = (\<lambda>s.
     if p = [] then (Inr (), s)
     else if path_base p = ''.'' then (Inl (Sys EINVAL p), s)
     else case walk s False p of
       Inl ENOENT \<Rightarrow> (Inr (), s)
     | Inl e \<Rightarrow> (Inl (Sys e p), s)
     | Inr (Absent _) \<Rightarrow> (Inr (), s)
     | Inr (At q _) \<Rightarrow>
         (let s' = remove_tree q s
          in (if node_at s' q = None then Inr () else Inl (Sys EACCES p), s')))"

definition os_symlink :: "string \<Rightarrow> string \<Rightarrow> (fs, unit) io" where
  "os_symlink target p = (\<lambda>s. case walk s False p of
       Inl e \<Rightarrow> (Inl (Sys e p), s)
     | Inr (At _ _) \<Rightarrow> (Inl (Sys EEXIST p), s)
     | Inr (Absent q) \<Rightarrow>
         if target = [] then (Inl (Sys ENOENT p), s)
         else if may_edit s q then (Inr (), set_node q (Symlink target) s)
         else (Inl (Sys EACCES p), s))"

definition os_link :: "string \<Rightarrow> string \<Rightarrow> (fs, unit) io" where
  "os_link old p = (\<lambda>s. case walk s False old of
       Inl e \<Rightarrow> (Inl (Sys e old), s)
     | Inr (Absent _) \<Rightarrow> (Inl (Sys ENOENT old), s)
     | Inr (At _ (Dir _)) \<Rightarrow> (Inl (Sys EPERM old), s)
     | Inr (At _ nd) \<Rightarrow>
         (case walk s False p of
            Inl e \<Rightarrow> (Inl (Sys e p), s)
          | Inr (At _ _) \<Rightarrow> (Inl (Sys EEXIST p), s)
          | Inr (Absent q) \<Rightarrow>
              if may_edit s q then (Inr (), set_node q nd s) else (Inl (Sys EACCES p), s)))"

text \<open>
  \<open>os.Rename\<close> of a file: the new name is replaced in one step.  The program renames files only; a
  directory as source is refused here.
\<close>

definition same_file :: "node \<Rightarrow> node \<Rightarrow> bool" where
  "same_file a b = (case (a, b) of (File i, File j) \<Rightarrow> i = j | _ \<Rightarrow> False)"

definition os_rename :: "string \<Rightarrow> string \<Rightarrow> (fs, unit) io" where
  "os_rename old p = (\<lambda>s. case walk s False old of
       Inl e \<Rightarrow> (Inl (Sys e old), s)
     | Inr (Absent _) \<Rightarrow> (Inl (Sys ENOENT old), s)
     | Inr (At _ (Dir _)) \<Rightarrow> (Inl (Sys EINVAL old), s)
     | Inr (At q nd) \<Rightarrow>
         (case walk s False p of
            Inl e \<Rightarrow> (Inl (Sys e p), s)
          | Inr (Absent r) \<Rightarrow>
              if may_edit s q \<and> may_edit s r then (Inr (), set_node r nd (del_node q s))
              else (Inl (Sys EACCES p), s)
          | Inr (At _ (Dir _)) \<Rightarrow> (Inl (Sys EISDIR p), s)
          | Inr (At r nd') \<Rightarrow>
              if \<not> (may_edit s q \<and> may_edit s r) then (Inl (Sys EACCES p), s)
              else if q = r \<or> same_file nd nd' then (Inr (), s)
              else (Inr (), set_node r nd (del_node q s))))"

text \<open>\<open>os.ReadDir\<close>: the names in a directory, sorted.\<close>

definition os_read_dir :: "string \<Rightarrow> (fs, string list) io" where
  "os_read_dir p = (\<lambda>s. case walk s True p of
       Inl e \<Rightarrow> (Inl (Sys e p), s)
     | Inr (Absent _) \<Rightarrow> (Inl (Sys ENOENT p), s)
     | Inr (At q (Dir m)) \<Rightarrow>
         if allowed s r_bit m
         then (Inr (sort (map last (filter (\<lambda>r. r \<noteq> [] \<and> butlast r = q) (map fst (fs_nodes s))))), s)
         else (Inl (Sys EACCES p), s)
     | Inr (At _ _) \<Rightarrow> (Inl (Sys ENOTDIR p), s))"

definition os_chtimes :: "string \<Rightarrow> int \<Rightarrow> (fs, unit) io" where
  "os_chtimes p t = (\<lambda>s. case walk s True p of
       Inl e \<Rightarrow> (Inl (Sys e p), s)
     | Inr (Absent _) \<Rightarrow> (Inl (Sys ENOENT p), s)
     | Inr (At _ (File i)) \<Rightarrow> (Inr (), set_inode i ((fs_inodes s i)\<lparr>i_mtime := t\<rparr>) s)
     | Inr (At _ _) \<Rightarrow> (Inr (), s))"

definition is_permission :: "error \<Rightarrow> bool" where
  "is_permission e = (case e of Sys c _ \<Rightarrow> c = EACCES \<or> c = EPERM | _ \<Rightarrow> False)"

end
