(* ===== verification/Posix_Frame.thy ===== *)
theory Posix_Frame
  imports Posix
begin

text \<open>
  What a call can touch.  \<open>confined D L s0 s\<close> says that \<open>s\<close> differs from \<open>s0\<close> only strictly below
  the directory \<open>D\<close> (names, and contents of the files named outside), that no inode is shared
  between the inside and the outside, and that every symbolic link of \<open>s\<close> is in \<open>L\<close>.  A call on
  a path below \<open>D\<close> that does not pass through a link of \<open>L\<close> keeps it.
\<close>

section \<open>Nodes\<close>

named_theorems fs_simps

lemma node_at_del [fs_simps]: "node_at (del_node p s) q = (if q = p then None else node_at s q)"
  by (simp add: node_at_def del_node_def map_of_filter_neq)

lemma node_at_set [fs_simps]: "node_at (set_node p n s) q = (if q = p then Some n else node_at s q)"
  by (simp add: node_at_def set_node_def map_of_filter_neq)

lemma node_at_inode [fs_simps]: "node_at (set_inode i x s) q = node_at s q"
  by (simp add: node_at_def set_inode_def)

lemma node_at_next [fs_simps]: "node_at (s\<lparr>fs_next := k\<rparr>) q = node_at s q"
  by (simp add: node_at_def)

lemma inodes_simps [fs_simps]:
  "fs_inodes (del_node p s) = fs_inodes s"
  "fs_inodes (set_node p n s) = fs_inodes s"
  "fs_inodes (set_inode i x s) = (fs_inodes s)(i := x)"
  by (simp_all add: del_node_def set_node_def set_inode_def)

lemma next_simps [fs_simps]:
  "fs_next (del_node p s) = fs_next s"
  "fs_next (set_node p n s) = fs_next s"
  "fs_next (set_inode i x s) = fs_next s"
  by (simp_all add: del_node_def set_node_def set_inode_def)

lemma super_simps [fs_simps]:
  "fs_super (del_node p s) = fs_super s"
  "fs_super (set_node p n s) = fs_super s"
  "fs_super (set_inode i x s) = fs_super s"
  by (simp_all add: del_node_def set_node_def set_inode_def)

section \<open>Resolution that meets no link\<close>

definition links :: "fs \<Rightarrow> path set" where
  "links s = {q. \<exists>t. node_at s q = Some (Symlink t)}"

definition avoids :: "path set \<Rightarrow> bool \<Rightarrow> path \<Rightarrow> bool" where
  "avoids L fl p \<longleftrightarrow> (\<forall>q \<in> L. prefix q p \<longrightarrow> \<not> fl \<and> q = p)"

lemma avoids_mono: "avoids L fl p \<Longrightarrow> M \<subseteq> L \<Longrightarrow> avoids M fl p"
  by (auto simp: avoids_def)

lemma avoids_prefix: "avoids L fl p \<Longrightarrow> strict_prefix q p \<Longrightarrow> avoids L fl' q"
  unfolding avoids_def
  by (metis prefix_order.le_less_trans prefix_order.less_imp_le prefix_order.less_irrefl)

lemma avoids_insert:
  "avoids L fl r \<Longrightarrow> (prefix p r \<Longrightarrow> \<not> fl \<and> r = p) \<Longrightarrow> avoids (insert p L) fl r"
  by (auto simp: avoids_def)

lemma avoids_weaken: "avoids L True p \<Longrightarrow> avoids L fl p"
  by (auto simp: avoids_def)

lemma resolve_step:
  assumes "resolve s fl n cur (c # cs) = Inr pl"
  obtains m where "node_at s cur = Some (Dir m)"
  using assms by (auto split: option.splits node.splits)

lemma resolve_avoids:
  assumes "links s \<subseteq> L" and "avoids L fl (cur @ cs)" and "plains cs"
    and "resolve s fl n cur cs = Inr pl"
  shows "case pl of At q nd \<Rightarrow> q = cur @ cs \<and> node_at s q = Some nd
                  | Absent q \<Rightarrow> q = cur @ cs \<and> node_at s q = None"
  using assms
proof (induction cs arbitrary: cur)
  case Nil
  then show ?case by (auto split: option.splits)
next
  case (Cons c cs)
  have "plain c" and plain: "plains cs"
    using Cons.prems(3) by simp_all
  then have plain: "c \<noteq> []" "c \<noteq> ''.''" "c \<noteq> ''..''" "plains cs"
    by (simp_all add: plain_def)
  show ?case
  proof (cases "node_at s (cur @ [c])")
    case None
    with Cons.prems(4) plain show ?thesis
      by (auto split: option.splits node.splits if_splits)
  next
    case (Some nd)
    show ?thesis
    proof (cases nd)
      case (Symlink t)
      then have "cur @ [c] \<in> L"
        using Some Cons.prems(1) by (auto simp: links_def)
      then have "\<not> fl" "cs = []"
        using Cons.prems(2) by (auto simp: avoids_def)
      with Cons.prems(4) plain Some Symlink show ?thesis
        by (auto split: option.splits node.splits if_splits)
    next
      case (Dir m)
      with Cons.prems(4) plain Some have "resolve s fl n (cur @ [c]) cs = Inr pl"
        by (auto split: option.splits node.splits if_splits)
      then show ?thesis
        using Cons.IH [OF Cons.prems(1) _ plain(4), of "cur @ [c]"] Cons.prems(2)
        by (cases pl) simp_all
    next
      case (File i)
      with Cons.prems(4) plain Some have "resolve s fl n (cur @ [c]) cs = Inr pl"
        by (auto split: option.splits node.splits if_splits)
      then show ?thesis
        using Cons.IH [OF Cons.prems(1) _ plain(4), of "cur @ [c]"] Cons.prems(2)
        by (cases pl) simp_all
    qed
  qed
qed

lemma resolve_skip: "resolve s fl n cur ([] # cs) = Inr pl \<Longrightarrow> resolve s fl n cur cs = Inr pl"
  by (auto split: option.splits node.splits if_splits)

lemma walk_avoids:
  assumes "plains p" and "links s \<subseteq> L" and "avoids L fl p" and "walk s fl (abs_path p) = Inr pl"
  shows "case pl of At q nd \<Rightarrow> q = p \<and> node_at s p = Some nd | Absent q \<Rightarrow> q = p \<and> node_at s p = None"
proof -
  have "resolve s fl max_links [] ([] # (if p = [] then [[]] else p)) = Inr pl"
    using assms(4) by (simp add: walk_def path_simps assms(1))
  then have "resolve s fl max_links [] p = Inr pl"
    by (cases "p = []") (auto dest!: resolve_skip simp del: resolve.simps)
  then show ?thesis
    using resolve_avoids [of s L fl "[]" p max_links pl] assms by (auto split: place.splits)
qed

lemma walk_avoids_At:
  "plains p \<Longrightarrow> links s \<subseteq> L \<Longrightarrow> avoids L fl p \<Longrightarrow> walk s fl (abs_path p) = Inr (At q nd) \<Longrightarrow>
   q = p \<and> node_at s p = Some nd"
  using walk_avoids [of p s L fl "At q nd"] by simp

lemma walk_avoids_Absent:
  "plains p \<Longrightarrow> links s \<subseteq> L \<Longrightarrow> avoids L fl p \<Longrightarrow> walk s fl (abs_path p) = Inr (Absent q) \<Longrightarrow>
   q = p \<and> node_at s p = None"
  using walk_avoids [of p s L fl "Absent q"] by simp

section \<open>Confinement\<close>

definition same_outside :: "path \<Rightarrow> fs \<Rightarrow> fs \<Rightarrow> bool" where
  "same_outside D s s' \<longleftrightarrow>
     (\<forall>q. \<not> strict_prefix D q \<longrightarrow>
        node_at s' q = node_at s q \<and>
        (\<forall>i. node_at s q = Some (File i) \<longrightarrow> fs_inodes s' i = fs_inodes s i))"

definition sane :: "fs \<Rightarrow> bool" where
  "sane s \<longleftrightarrow>
     (\<forall>q i. node_at s q = Some (File i) \<longrightarrow> i < fs_next s) \<and> (\<forall>q. node_at s q \<noteq> None \<longrightarrow> plains q)"

definition owned :: "path \<Rightarrow> nat \<Rightarrow> fs \<Rightarrow> bool" where
  "owned D i s \<longleftrightarrow> (\<forall>q. \<not> strict_prefix D q \<longrightarrow> node_at s q \<noteq> Some (File i))"

definition unshared :: "path \<Rightarrow> fs \<Rightarrow> bool" where
  "unshared D s \<longleftrightarrow> (\<forall>p i. strict_prefix D p \<longrightarrow> node_at s p = Some (File i) \<longrightarrow> owned D i s)"

definition dirs_to :: "path \<Rightarrow> fs \<Rightarrow> bool" where
  "dirs_to D s \<longleftrightarrow> (\<forall>q. prefix q D \<longrightarrow> is_dir_at s q)"

definition confined :: "path \<Rightarrow> path set \<Rightarrow> fs \<Rightarrow> fs \<Rightarrow> bool" where
  "confined D L s0 s \<longleftrightarrow>
     same_outside D s0 s \<and> sane s \<and> unshared D s \<and> dirs_to D s \<and> links s \<subseteq> L"

lemmas confinement_defs = confined_def same_outside_def sane_def owned_def unshared_def links_def

lemma confined_start:
  "sane s \<Longrightarrow> unshared D s \<Longrightarrow> dirs_to D s \<Longrightarrow> links s \<subseteq> L \<Longrightarrow> confined D L s s"
  by (simp add: confined_def same_outside_def)

lemma is_dir_at_node: "is_dir_at s q \<longleftrightarrow> (\<exists>m. node_at s q = Some (Dir m))"
  by (auto simp: is_dir_at_def split: option.splits node.splits)

lemma dirs_to_node: "dirs_to D s \<Longrightarrow> prefix q D \<Longrightarrow> \<exists>m. node_at s q = Some (Dir m)"
  by (simp add: dirs_to_def is_dir_at_node)

lemma dirs_to_keep:
  "dirs_to D s \<Longrightarrow> (\<And>q. \<not> strict_prefix D q \<Longrightarrow> node_at s' q = node_at s q) \<Longrightarrow> dirs_to D s'"
  unfolding dirs_to_def is_dir_at_def
  by (metis prefix_order.leD)

lemma confined_change:
  assumes c: "confined D L s0 s"
    and nodes: "\<And>q. \<not> strict_prefix D q \<Longrightarrow> node_at s' q = node_at s q"
    and inodes: "\<And>i. \<not> owned D i s \<Longrightarrow> fs_inodes s' i = fs_inodes s i"
    and "sane s'" and "unshared D s'" and "links s' \<subseteq> L"
  shows "confined D L s0 s'"
proof -
  have "same_outside D s0 s'"
    unfolding same_outside_def
  proof (intro allI impI conjI)
    fix q assume q: "\<not> strict_prefix D q"
    with c nodes show "node_at s' q = node_at s0 q"
      by (simp add: confined_def same_outside_def)
    fix i assume i: "node_at s0 q = Some (File i)"
    with c q have "node_at s q = Some (File i)" "fs_inodes s i = fs_inodes s0 i"
      by (simp_all add: confined_def same_outside_def)
    with q inodes [of i] show "fs_inodes s' i = fs_inodes s0 i"
      by (auto simp: owned_def)
  qed
  moreover have "dirs_to D s'"
    using c nodes by (auto simp: confined_def intro: dirs_to_keep)
  ultimately show ?thesis using assms by (simp add: confined_def)
qed

lemma owned_below: "confined D L s0 s \<Longrightarrow> strict_prefix D p \<Longrightarrow> node_at s p = Some (File i) \<Longrightarrow> owned D i s"
  by (auto simp: confined_def unshared_def)

lemma owned_fresh: "sane s \<Longrightarrow> owned D (fs_next s) s"
  by (auto simp: owned_def sane_def)

lemma confinedD:
  assumes "confined D L s0 s"
  shows "same_outside D s0 s" "sane s" "unshared D s" "dirs_to D s" "links s \<subseteq> L"
  using assms by (simp_all add: confined_def)

lemma node_changes:
  "sane s \<Longrightarrow> sane (del_node p s)"
  "unshared D s \<Longrightarrow> unshared D (del_node p s)"
  "links (del_node p s) \<subseteq> links s"
  "sane s \<Longrightarrow> sane (set_inode i x s)"
  "unshared D (set_inode i x s) = unshared D s"
  "links (set_inode i x s) = links s"
  "links (set_node p nd s) \<subseteq> (case nd of Symlink _ \<Rightarrow> insert p (links s) | _ \<Rightarrow> links s)"
  by (auto simp: sane_def unshared_def owned_def links_def fs_simps split: node.splits)

lemma owned_node_changes:
  "owned D i (set_inode j x s) = owned D i s"
  "owned D i s \<Longrightarrow> owned D i (del_node p s)"
  "strict_prefix D p \<Longrightarrow> owned D i (set_node p nd s) = owned D i s"
  by (auto simp: owned_def fs_simps)

lemma confined_del:
  assumes c: "confined D L s0 s" and "strict_prefix D p"
  shows "confined D L s0 (del_node p s)"
  using c
proof (rule confined_change)
  show "sane (del_node p s)" "unshared D (del_node p s)"
    using confinedD [OF c] by (simp_all add: node_changes)
  show "links (del_node p s) \<subseteq> L"
    using node_changes(3) confinedD(5) [OF c] by (rule subset_trans)
qed (use assms in \<open>auto simp: fs_simps\<close>)

lemma confined_set:
  assumes c: "confined D L s0 s" and p: "strict_prefix D p" "plains p"
    and lnk: "\<And>t. nd = Symlink t \<Longrightarrow> p \<in> L"
    and own: "\<And>i. nd = File i \<Longrightarrow> owned D i s \<and> i < fs_next s"
  shows "confined D L s0 (set_node p nd s)"
  using c
proof (rule confined_change)
  show "unshared D (set_node p nd s)"
    using confinedD(3) [OF c] p(1) own
    by (auto simp: unshared_def owned_node_changes fs_simps)
  show "sane (set_node p nd s)"
    using confinedD(2) [OF c] p(2) own by (auto simp: sane_def fs_simps)
  show "links (set_node p nd s) \<subseteq> L"
    using node_changes(7) [of p nd s] confinedD(5) [OF c] lnk by (cases nd) auto
qed (use p in \<open>auto simp: fs_simps\<close>)

lemma confined_set_inode:
  assumes c: "confined D L s0 s" and "owned D i s"
  shows "confined D L s0 (set_inode i x s)"
  using c
proof (rule confined_change)
  show "sane (set_inode i x s)" "unshared D (set_inode i x s)" "links (set_inode i x s) \<subseteq> L"
    using confinedD [OF c] by (simp_all add: node_changes)
qed (use assms in \<open>auto simp: fs_simps\<close>)

lemma confined_next:
  assumes c: "confined D L s0 s" and "fs_next s \<le> k"
  shows "confined D L s0 (s\<lparr>fs_next := k\<rparr>)" and "owned D i (s\<lparr>fs_next := k\<rparr>) = owned D i s"
proof -
  have "i < k" if "node_at s q = Some (File i)" for q i
    using confinedD(2) [OF c] that assms(2) by (meson less_le_trans sane_def)
  then have "sane (s\<lparr>fs_next := k\<rparr>)" "unshared D (s\<lparr>fs_next := k\<rparr>)" "links (s\<lparr>fs_next := k\<rparr>) \<subseteq> L"
    using confinedD(2,3,5) [OF c]
    by (auto simp: sane_def unshared_def owned_def links_def fs_simps)
  then show "confined D L s0 (s\<lparr>fs_next := k\<rparr>)"
    by (intro confined_change [OF c]) (simp_all add: fs_simps)
qed (simp add: owned_def fs_simps)

lemma confined_create:
  assumes c: "confined D L s0 s" and p: "strict_prefix D p" "plains p"
  shows "confined D L s0 (create_file p mode s)" and "owned D (fs_next s) (create_file p mode s)"
proof -
  let ?x = "\<lparr>i_data = [], i_mode = created_mode s mode, i_mtime = fs_now s\<rparr>"
  let ?s1 = "set_inode (fs_next s) ?x s"
  let ?s2 = "?s1\<lparr>fs_next := Suc (fs_next s)\<rparr>"
  have o: "owned D (fs_next s) s"
    using confinedD(2) [OF c] by (rule owned_fresh)
  have c1: "confined D L s0 ?s1"
    using c o by (rule confined_set_inode)
  then have c2: "confined D L s0 ?s2" "owned D (fs_next s) ?s2"
    using o by (simp_all add: confined_next owned_node_changes fs_simps)
  have eq: "create_file p mode s = set_node p (File (fs_next s)) ?s2"
    by (simp add: create_file_def set_node_def set_inode_def)
  show "confined D L s0 (create_file p mode s)"
    unfolding eq using c2 p by (intro confined_set) simp_all
  show "owned D (fs_next s) (create_file p mode s)"
    unfolding eq using c2 p by (simp add: owned_node_changes)
qed

section \<open>Calls below the directory\<close>

text \<open>Calls that only look keep everything.\<close>

lemma reads_only:
  "snd (os_stat p s) = s" "snd (os_lstat p s) = s" "snd (os_read_file p s) = s"
  "snd (os_read_dir p s) = s"
  by (auto simp: os_stat_def os_lstat_def os_read_file_def os_read_dir_def
      split: sum.splits place.splits node.splits)

lemma keeps_read [triple_intros]:
  "keeps I (os_stat p)" "keeps I (os_lstat p)" "keeps I (os_read_file p)" "keeps I (os_read_dir p)"
  by (rule keepsI, simp add: reads_only)+

lemma confined_links: "confined D L s0 s \<Longrightarrow> links s \<subseteq> L"
  by (simp add: confined_def)

lemma confined_walk_cases:
  assumes "confined D L s0 s" and "plains p" and "avoids L fl p"
  obtains (fail) e where "walk s fl (abs_path p) = Inl e"
  | (at) nd where "walk s fl (abs_path p) = Inr (At p nd)" and "node_at s p = Some nd"
  | (absent) "walk s fl (abs_path p) = Inr (Absent p)" and "node_at s p = None"
proof (cases "walk s fl (abs_path p)")
  case (Inr pl)
  with walk_avoids [OF assms(2) confined_links [OF assms(1)] assms(3) Inr] show ?thesis
    by (cases pl) (auto intro: that)
qed (rule that)

lemma confined_above:
  assumes "confined D L s0 s" and "prefix p D"
  obtains m where "node_at s p = Some (Dir m)"
  using assms dirs_to_node [of D s p] by (auto simp: confined_def)

lemma confined_not_above:
  assumes "confined D L s0 s" and "prefix D p \<or> prefix p D" and "\<nexists>m. node_at s p = Some (Dir m)"
  shows "strict_prefix D p"
proof -
  have "\<not> prefix p D"
    using assms(3) confined_above [OF assms(1)] by blast
  with assms(2) show ?thesis by (auto simp: strict_prefix_def)
qed

lemma triple_open_trunc:
  assumes p: "plains p" "avoids L True p" and "prefix D p \<or> prefix p D"
  shows "triple (confined D L s0) (os_open_trunc (abs_path p) mode)
           (\<lambda>i s. confined D L s0 s \<and> owned D i s) (\<lambda>_. confined D L s0)"
  unfolding triple_def
proof (intro allI impI)
  fix s assume c: "confined D L s0 s"
  show "case os_open_trunc (abs_path p) mode s of
      (Inl e, s') \<Rightarrow> confined D L s0 s' | (Inr i, s') \<Rightarrow> confined D L s0 s' \<and> owned D i s'"
  proof (cases rule: confined_walk_cases [OF c p, case_names fail at absent])
    case (at nd)
    show ?thesis
    proof (cases nd)
      case (File i)
      with at have "strict_prefix D p"
        by (intro confined_not_above [OF c assms(3)]) simp
      with at File have "owned D i s" by (auto intro: owned_below [OF c])
      with c have "confined D L s0 (truncate_file i s)" "owned D i (truncate_file i s)"
        by (auto simp: truncate_file_def owned_def fs_simps intro: confined_set_inode)
      with at File c show ?thesis by (simp add: os_open_trunc_def)
    qed (use at c in \<open>simp_all add: os_open_trunc_def\<close>)
  next
    case absent
    then have "strict_prefix D p"
      by (intro confined_not_above [OF c assms(3)]) simp
    with absent c p show ?thesis by (simp add: os_open_trunc_def confined_create)
  qed (use c in \<open>simp add: os_open_trunc_def\<close>)
qed

lemma keeps_fd_write: "keeps (\<lambda>s. confined D L s0 s \<and> owned D i s) (fd_write i b)"
  by (rule keepsI) (auto simp: fd_write_def owned_def fs_simps intro!: confined_set_inode)

lemma keeps_io_copy: "keeps (\<lambda>s. confined D L s0 s \<and> owned D i s) (io_copy i r)"
  unfolding io_copy_def
  by (rule keeps_bind [OF keeps_fd_write]) (cases "snd r"; auto intro!: triple_intros)

lemma keeps_mkdir:
  assumes p: "plains p" "avoids L False p" and "prefix D p \<or> prefix p D"
  shows "keeps (confined D L s0) (os_mkdir (abs_path p) mode)"
proof (rule keepsI)
  fix s assume c: "confined D L s0 s"
  show "confined D L s0 (snd (os_mkdir (abs_path p) mode s))"
  proof (cases rule: confined_walk_cases [OF c p, case_names fail at absent])
    case absent
    then have "strict_prefix D p"
      by (intro confined_not_above [OF c assms(3)]) simp
    then have "confined D L s0 (set_node p (Dir (created_mode s mode)) s)"
      using c p by (intro confined_set) simp_all
    with absent c show ?thesis by (simp add: os_mkdir_def)
  qed (use c in \<open>simp_all add: os_mkdir_def\<close>)
qed

lemma triple_read_dir:
  "triple (confined D L s0) (os_read_dir p) (\<lambda>es s. confined D L s0 s \<and> plains es)
     (\<lambda>_. confined D L s0)"
proof (unfold triple_def, intro allI impI)
  fix s assume c: "confined D L s0 s"
  have "plain (last r)" if "r \<in> fst ` set (fs_nodes s)" "r \<noteq> []" for r
  proof -
    from that have "node_at s r \<noteq> None"
      by (simp add: node_at_def map_of_eq_None_iff)
    with c have "plains r" by (simp add: confined_def sane_def)
    with that(2) show ?thesis by (simp add: list_all_iff)
  qed
  then have names: "plains (sort (map last (filter (\<lambda>r. r \<noteq> [] \<and> butlast r = q) (map fst (fs_nodes s)))))" for q
    by (force simp: list_all_iff)
  show "case os_read_dir p s of
      (Inl e, s') \<Rightarrow> confined D L s0 s' | (Inr es, s') \<Rightarrow> confined D L s0 s' \<and> plains es"
    using c names by (auto simp: os_read_dir_def split: sum.splits place.splits node.splits)
qed

lemma keeps_remove:
  assumes p: "plains p" "avoids L False p" and "strict_prefix D p"
  shows "keeps (confined D L s0) (os_remove (abs_path p))"
proof (rule keepsI)
  fix s assume c: "confined D L s0 s"
  show "confined D L s0 (snd (os_remove (abs_path p) s))"
    by (cases rule: confined_walk_cases [OF c p, case_names fail at absent])
      (use c assms in \<open>simp_all add: os_remove_def confined_del\<close>)
qed

lemma confined_remove_list:
  "confined D L s0 s \<Longrightarrow> (\<And>r. r \<in> set rs \<Longrightarrow> strict_prefix D r) \<Longrightarrow>
   confined D L s0 (foldl (\<lambda>s r. if removable q s r then del_node r s else s) s rs)"
  by (induction rs arbitrary: s) (auto simp: confined_del)

lemma confined_remove_tree:
  assumes "confined D L s0 s" and "strict_prefix D q"
  shows "confined D L s0 (remove_tree q s)"
  unfolding remove_tree_def
  using assms(1)
proof (rule confined_remove_list)
  fix r assume "r \<in> set (victims s q)"
  then have "prefix q r" by (simp add: victims_def)
  with assms(2) show "strict_prefix D r"
    by (rule prefix_order.less_le_trans)
qed

lemma keeps_remove_all:
  assumes p: "plains p" "avoids L False p" and "strict_prefix D p"
  shows "keeps (confined D L s0) (os_remove_all (abs_path p))"
proof (rule keepsI)
  fix s assume c: "confined D L s0 s"
  show "confined D L s0 (snd (os_remove_all (abs_path p) s))"
  proof (cases rule: confined_walk_cases [OF c p, case_names fail at absent])
    case (fail e)
    with c show ?thesis by (cases e) (simp_all add: os_remove_all_def)
  qed (use c assms(3) in \<open>simp_all add: os_remove_all_def Let_def confined_remove_tree\<close>)
qed

lemma keeps_chtimes:
  assumes p: "plains p" "avoids L True p" and "prefix D p"
  shows "keeps (confined D L s0) (os_chtimes (abs_path p) t)"
proof (rule keepsI)
  fix s assume c: "confined D L s0 s"
  show "confined D L s0 (snd (os_chtimes (abs_path p) t s))"
  proof (cases rule: confined_walk_cases [OF c p, case_names fail at absent])
    case (at nd)
    show ?thesis
    proof (cases nd)
      case (File i)
      with at have "strict_prefix D p"
        using assms(3) by (intro confined_not_above [OF c]) simp_all
      with at File have "owned D i s" by (auto intro: owned_below [OF c])
      with at File c show ?thesis by (simp add: os_chtimes_def confined_set_inode)
    qed (use at c in \<open>simp_all add: os_chtimes_def\<close>)
  qed (use c in \<open>simp_all add: os_chtimes_def\<close>)
qed

lemma keeps_symlink:
  assumes p: "plains p" "avoids L False p" and "strict_prefix D p" and "p \<in> L"
  shows "keeps (confined D L s0) (os_symlink t (abs_path p))"
proof (rule keepsI)
  fix s assume c: "confined D L s0 s"
  have "confined D L s0 (set_node p (Symlink t) s)"
    using c assms by (intro confined_set) simp_all
  then show "confined D L s0 (snd (os_symlink t (abs_path p) s))"
    by (cases rule: confined_walk_cases [OF c p, case_names fail at absent])
      (use c in \<open>simp_all add: os_symlink_def\<close>)
qed

lemma keeps_link:
  assumes p: "plains p" "avoids L False p" "strict_prefix D p"
    and q: "plains q" "avoids L False q" "prefix D q" and pq: "q \<in> L \<Longrightarrow> p \<in> L"
  shows "keeps (confined D L s0) (os_link (abs_path q) (abs_path p))"
proof (rule keepsI)
  fix s assume c: "confined D L s0 s"
  show "confined D L s0 (snd (os_link (abs_path q) (abs_path p) s))"
  proof (cases rule: confined_walk_cases [OF c q(1,2), case_names fail at absent])
    case (at nd)
    have set: "confined D L s0 (set_node p nd s)" if "\<nexists>m. nd = Dir m"
    proof (rule confined_set [OF c p(3,1)])
      fix i assume "nd = File i"
      with at have "strict_prefix D q"
        using q(3) by (intro confined_not_above [OF c]) simp_all
      with at \<open>nd = File i\<close> c show "owned D i s \<and> i < fs_next s"
        using owned_below [OF c] by (auto simp: confined_def sane_def)
    next
      fix t assume "nd = Symlink t"
      with at c have "q \<in> L" by (auto simp: confined_def links_def)
      then show "p \<in> L" by (rule pq)
    qed
    show ?thesis
      by (cases rule: confined_walk_cases [OF c p(1,2), case_names fail2 at2 absent2]; cases nd)
        (use at c set in \<open>simp_all add: os_link_def\<close>)
  qed (use c in \<open>simp_all add: os_link_def\<close>)
qed

text \<open>\<open>MkdirAll\<close> on a path through \<open>D\<close>: its parents are on the way to \<open>D\<close> or below it.\<close>

lemma keeps_mkdir_all_rev:
  "plains (rev cs) \<Longrightarrow> prefix D (rev cs) \<or> prefix (rev cs) D \<Longrightarrow> avoids L False (rev cs) \<Longrightarrow>
   keeps (confined D L s0) (mkdir_all_rev True cs mode)"
proof (induction cs)
  case Nil
  then show ?case by (auto intro!: triple_intros)
next
  case (Cons c cs)
  have "strict_prefix (rev cs) (rev (c # cs))" by (simp add: strict_prefix_def)
  then have av: "avoids L False (rev cs)" "prefix D (rev cs) \<or> prefix (rev cs) D"
    using Cons.prems by (auto intro: avoids_prefix dest: prefix_snocD)
  with Cons have IH: "keeps (confined D L s0) (mkdir_all_rev True cs mode)" by simp
  have mk: "keeps (confined D L s0) (os_mkdir (build_path True (rev (c # cs))) mode)"
    unfolding build_path_def using Cons.prems by (auto intro!: keeps_mkdir)
  show ?case
    by (auto simp: Let_def simp del: rev.simps intro!: triple_intros IH mk split: sum.splits node.splits)
qed

lemma mkdir_all_abs:
  "plains p \<Longrightarrow> os_mkdir_all (abs_path p) mode = mkdir_all_rev True (rev p) mode"
  by (auto simp: os_mkdir_all_def path_simps list_all_iff plain_def filter_id_conv)

lemma keeps_mkdir_all:
  "plains p \<Longrightarrow> prefix D p \<or> prefix p D \<Longrightarrow> avoids L False p \<Longrightarrow>
   keeps (confined D L s0) (os_mkdir_all (abs_path p) mode)"
  using keeps_mkdir_all_rev [of "rev p"] by (simp add: mkdir_all_abs)

end
