(* ===== verification/Extract.thy ===== *)
theory Extract
  imports Posix_Frame
begin

text \<open>
  Layer extraction (\<open>extract.go\<close>): \<open>safeJoin\<close>, one tar entry, a tar stream, a gzipped layer.
  \<open>archive/tar\<close> and \<open>compress/gzip\<close> are parameters: the decoded stream is the list of headers with
  their bodies, ended by end-of-file or by an error item, and a body may end in a read error.
\<close>

section \<open>The decoded tar stream\<close>

datatype typeflag =
    TypeReg | TypeRegA | TypeLink | TypeSymlink | TypeChar | TypeBlock | TypeDir | TypeFifo
  | TypeOther char

record tar_header =
  hName :: string
  hLinkname :: string
  hMode :: int
  hTypeflag :: typeflag
  hModTime :: int

datatype tar_item = TarEntry tar_header stream | TarError error

section \<open>The code\<close>

definition safe_join :: "string \<Rightarrow> string \<Rightarrow> error + string" where
  "safe_join dest name =
     (let name = trim_left_chr slash name;
          clean = path_clean name
      in if clean = ''..'' \<or> has_prefix clean ''../''
         then Inl (Errorf ''tar entry escapes destination'' [])
         else Inr (path_join [dest, clean]))"

definition file_mode :: "int \<Rightarrow> u32" where
  "file_mode m = word_of_int m AND perm_mask"

text \<open>
  Opening the file of a regular entry, with the remove-and-recreate retry after a permission
  error.
\<close>

definition open_replacing :: "string \<Rightarrow> u32 \<Rightarrow> (fs, nat) io" where
  "open_replacing cleanName mode =
     io_bind (io_try (os_open_trunc cleanName mode)) (\<lambda>r. case r of
       Inr f \<Rightarrow> io_return f
     | Inl err \<Rightarrow>
         if is_permission err then
           io_bind (io_try (os_remove cleanName)) (\<lambda>rm. case rm of
             Inr _ \<Rightarrow> os_open_trunc cleanName mode
           | Inl _ \<Rightarrow> io_throw err)
         else io_throw err)"

definition apply_entry :: "stream \<Rightarrow> tar_header \<Rightarrow> string \<Rightarrow> (fs, unit) io" where
  "apply_entry tr hdr dest =
     (case safe_join dest (hName hdr) of
        Inl err \<Rightarrow> io_throw err
      | Inr cleanName \<Rightarrow>
         (let base = path_base (hName hdr) in
          if base = ''.wh..wh..opq'' then
            (let parent = path_dir cleanName in
             io_bind (io_try (os_read_dir parent)) (\<lambda>r. case r of
               Inl _ \<Rightarrow> io_return ()
             | Inr entries \<Rightarrow>
                 io_each (\<lambda>e. io_ignore (os_remove_all (path_join [parent, e]))) entries))
          else if has_prefix base ''.wh.'' then
            (let target = path_join [path_dir cleanName, trim_prefix base ''.wh.''] in
             io_ignore (os_remove_all target))
          else (case hTypeflag hdr of
            TypeDir \<Rightarrow> os_mkdir_all cleanName (file_mode (hMode hdr))
          | TypeReg \<Rightarrow>
              io_bind (os_mkdir_all (path_dir cleanName) 0x1ED) (\<lambda>_.
              io_bind (open_replacing cleanName (file_mode (hMode hdr))) (\<lambda>f.
              io_bind (io_copy f tr) (\<lambda>_.
              io_ignore (os_chtimes cleanName (hModTime hdr)))))
          | TypeRegA \<Rightarrow>
              io_bind (os_mkdir_all (path_dir cleanName) 0x1ED) (\<lambda>_.
              io_bind (open_replacing cleanName (file_mode (hMode hdr))) (\<lambda>f.
              io_bind (io_copy f tr) (\<lambda>_.
              io_ignore (os_chtimes cleanName (hModTime hdr)))))
          | TypeSymlink \<Rightarrow>
              io_bind (io_ignore (os_mkdir_all (path_dir cleanName) 0x1ED)) (\<lambda>_.
              io_bind (io_ignore (os_remove cleanName)) (\<lambda>_.
              os_symlink (hLinkname hdr) cleanName))
          | TypeLink \<Rightarrow>
              io_bind (io_ignore (os_mkdir_all (path_dir cleanName) 0x1ED)) (\<lambda>_.
              case safe_join dest (hLinkname hdr) of
                Inl err \<Rightarrow> io_throw err
              | Inr linkTarget \<Rightarrow>
                  io_bind (io_ignore (os_remove cleanName)) (\<lambda>_.
                  os_link linkTarget cleanName))
          | TypeChar \<Rightarrow> io_return ()
          | TypeBlock \<Rightarrow> io_return ()
          | TypeFifo \<Rightarrow> io_return ()
          | TypeOther _ \<Rightarrow> io_return ())))"

fun extract_tar :: "tar_item list \<Rightarrow> string \<Rightarrow> (fs, unit) io" where
  "extract_tar [] dest = io_return ()"
| "extract_tar (TarError err # items) dest = io_throw (Wrapf ''tar: %w'' [] err)"
| "extract_tar (TarEntry hdr tr # items) dest =
     io_bind (io_wrap (Wrapf ''entry %q: %w'' [hName hdr]) (apply_entry tr hdr dest))
       (\<lambda>_. extract_tar items dest)"

text \<open>The decoders the layer goes through: \<open>gzip.NewReader\<close> and the entries \<open>tar.Reader\<close> yields.\<close>

record decoders =
  gzip_reader :: "stream \<Rightarrow> error + stream"
  tar_entries :: "stream \<Rightarrow> tar_item list"

definition extract_layer :: "decoders \<Rightarrow> stream \<Rightarrow> string \<Rightarrow> (fs, unit) io" where
  "extract_layer dec r dest =
     (case gzip_reader dec r of
        Inl err \<Rightarrow> io_throw (Wrapf ''gzip open: %w'' [] err)
      | Inr gz \<Rightarrow> extract_tar (tar_entries dec gz) dest)"

section \<open>Where an entry lands\<close>

definition entry_comps :: "string \<Rightarrow> string list" where
  "entry_comps name = clean_comps False (split_chr slash (trim_left_chr slash name))"

lemma trim_left_not_rooted: "\<not> is_rooted (trim_left_chr c s) \<or> c \<noteq> slash"
  using trim_left_chr_hd [of c s] by (auto simp: is_rooted_def)

lemma safe_join_below:
  assumes "plains D" and "safe_join (abs_path D) name = Inr p"
  shows "p = abs_path (D @ entry_comps name)" and "plains (entry_comps name)"
proof -
  let ?n = "trim_left_chr slash name"
  have "\<not> is_rooted ?n" using trim_left_not_rooted by blast
  moreover have ok: "path_clean ?n \<noteq> ''..''" "\<not> has_prefix (path_clean ?n) ''../''"
      "p = path_join [abs_path D, path_clean ?n]"
    using assms(2) by (auto simp: safe_join_def Let_def split: if_splits)
  ultimately obtain cs where "path_clean ?n = rel_path cs" "plains cs" "cs = entry_comps name"
    unfolding entry_comps_def by (metis path_clean_relative)
  with ok assms(1) show "p = abs_path (D @ entry_comps name)" "plains (entry_comps name)"
    by (simp_all add: path_simps)
qed

text \<open>An entry whose cleaned name climbs out is refused, and nothing else is.\<close>

lemma safe_join_error_iff:
  "(\<exists>e. safe_join dest name = Inl e) \<longleftrightarrow>
     path_clean (trim_left_chr slash name) = ''..'' \<or>
     has_prefix (path_clean (trim_left_chr slash name)) ''../''"
  by (auto simp: safe_join_def Let_def)

section \<open>Entries that stay below the destination\<close>

text \<open>
  A check of the names alone.  \<open>L\<close> lists the places where a symbolic link may be.  An entry is
  safe when neither it nor, for a whiteout, its target goes through such a place, when a whiteout
  names a real element, and when a file or link entry is not the destination itself.
\<close>

definition entry_ok :: "path \<Rightarrow> path list \<Rightarrow> tar_header \<Rightarrow> bool" where
  "entry_ok D L hdr =
     (case safe_join (abs_path D) (hName hdr) of
        Inl _ \<Rightarrow> True
      | Inr _ \<Rightarrow>
         (let cs = entry_comps (hName hdr); p = D @ cs; base = path_base (hName hdr) in
          if base = ''.wh..wh..opq'' then cs \<noteq> [] \<and> avoids (set L) True (butlast p)
          else if has_prefix base ''.wh.'' then
            (let t = trim_prefix base ''.wh.''
             in cs \<noteq> [] \<and> plain t \<and> avoids (set L) False (butlast p @ [t]))
          else (case hTypeflag hdr of
            TypeDir \<Rightarrow> avoids (set L) False p
          | TypeReg \<Rightarrow> cs \<noteq> [] \<and> avoids (set L) True p
          | TypeRegA \<Rightarrow> cs \<noteq> [] \<and> avoids (set L) True p
          | TypeSymlink \<Rightarrow> cs \<noteq> [] \<and> avoids (set L) False p
          | TypeLink \<Rightarrow> cs \<noteq> [] \<and> avoids (set L) False p \<and>
              (case safe_join (abs_path D) (hLinkname hdr) of
                 Inl _ \<Rightarrow> True
               | Inr _ \<Rightarrow> (let q = D @ entry_comps (hLinkname hdr)
                          in avoids (set L) False q \<and> \<not> strict_prefix p q))
          | _ \<Rightarrow> True)))"

definition entry_links :: "path \<Rightarrow> path list \<Rightarrow> tar_header \<Rightarrow> path list" where
  "entry_links D L hdr =
     (case hTypeflag hdr of
        TypeSymlink \<Rightarrow> (D @ entry_comps (hName hdr)) # L
      | TypeLink \<Rightarrow>
          if D @ entry_comps (hLinkname hdr) \<in> set L then (D @ entry_comps (hName hdr)) # L else L
      | _ \<Rightarrow> L)"

fun stream_ok :: "path \<Rightarrow> path list \<Rightarrow> tar_item list \<Rightarrow> bool" where
  "stream_ok D L [] = True"
| "stream_ok D L (TarError _ # items) = True"
| "stream_ok D L (TarEntry hdr _ # items) =
     (entry_ok D L hdr \<and> stream_ok D (entry_links D L hdr) items)"

lemma entry_links_mono: "set L \<subseteq> set (entry_links D L hdr)"
  by (auto simp: entry_links_def split: typeflag.splits)

lemma entry_links_bound: "set (entry_links D L hdr) \<subseteq> insert (D @ entry_comps (hName hdr)) (set L)"
  by (auto simp: entry_links_def split: typeflag.splits)

lemma confined_mono: "confined D L s0 s \<Longrightarrow> L \<subseteq> M \<Longrightarrow> confined D M s0 s"
  by (auto simp: confined_def)

lemma triple_open_replacing:
  assumes p: "plains p" "avoids L True p" and below: "strict_prefix D p"
  shows "triple (confined D L s0) (open_replacing (abs_path p) mode)
           (\<lambda>i s. confined D L s0 s \<and> owned D i s) (\<lambda>_. confined D L s0)"
proof -
  have open_t: "triple (confined D L s0) (os_open_trunc (abs_path p) mode)
      (\<lambda>i s. confined D L s0 s \<and> owned D i s) (\<lambda>_. confined D L s0)"
    using triple_open_trunc [OF p] below by (simp add: strict_prefix_def)
  have rem: "keeps (confined D L s0) (os_remove (abs_path p))"
    using keeps_remove [OF p(1) avoids_weaken [OF p(2)] below] .
  show ?thesis
    unfolding open_replacing_def
  proof (rule triple_bind [OF triple_try [OF open_t]])
    fix r :: "error + nat"
    show "triple (\<lambda>s. case r of Inl e \<Rightarrow> confined D L s0 s | Inr i \<Rightarrow> confined D L s0 s \<and> owned D i s)
       (case r of
         Inr f \<Rightarrow> io_return f
       | Inl err \<Rightarrow>
           if is_permission err then
             io_bind (io_try (os_remove (abs_path p))) (\<lambda>rm. case rm of
               Inr _ \<Rightarrow> os_open_trunc (abs_path p) mode
             | Inl _ \<Rightarrow> io_throw err)
           else io_throw err)
       (\<lambda>i s. confined D L s0 s \<and> owned D i s) (\<lambda>_. confined D L s0)"
      by (cases r)
        (auto intro!: triple_return triple_throw triple_bind [OF keeps_try [OF rem]] open_t
          split: sum.splits)
  qed
qed

lemma keeps_write_regular:
  assumes p: "plains p" "avoids L True p" and below: "strict_prefix D p"
  shows "keeps (confined D L s0)
     (io_bind (os_mkdir_all (path_dir (abs_path p)) m) (\<lambda>_.
      io_bind (open_replacing (abs_path p) mode) (\<lambda>f.
      io_bind (io_copy f tr) (\<lambda>_.
      io_ignore (os_chtimes (abs_path p) t)))))"
proof -
  have dir: "path_dir (abs_path p) = abs_path (butlast p)" "plains (butlast p)"
    using p(1) by (auto simp: path_simps list_all_butlast)
  have "p \<noteq> []" using below by auto
  then have par: "prefix D (butlast p)" "avoids L False (butlast p)"
    using below p(2) strict_prefix_butlast [of p]
    by (auto intro: avoids_prefix prefix_of_butlast)
  have tail: "triple (\<lambda>s. confined D L s0 s \<and> owned D f s)
      (io_bind (io_copy f tr) (\<lambda>_. io_ignore (os_chtimes (abs_path p) t)))
      (\<lambda>_. confined D L s0) (\<lambda>_. confined D L s0)" for f
  proof (rule triple_bind)
    show "triple (\<lambda>s. confined D L s0 s \<and> owned D f s) (io_copy f tr)
        (\<lambda>_. confined D L s0) (\<lambda>_. confined D L s0)"
      by (rule triple_weaken [OF keeps_io_copy]) auto
    show "keeps (confined D L s0) (io_ignore (os_chtimes (abs_path p) t))"
      using p below by (intro keeps_ignore keeps_chtimes) (auto simp: strict_prefix_def)
  qed
  have mk: "keeps (confined D L s0) (os_mkdir_all (abs_path (butlast p)) m)"
    using dir par by (intro keeps_mkdir_all) auto
  show ?thesis
    unfolding dir
    by (rule keeps_bind [OF mk], rule triple_bind [OF triple_open_replacing [OF p below]], rule tail)
qed

lemma keeps_opaque:
  assumes par: "plains par" "prefix D par" and av: "avoids L True par"
  shows "keeps (confined D L s0)
     (io_bind (io_try (os_read_dir (abs_path par))) (\<lambda>r. case r of
        Inl _ \<Rightarrow> io_return ()
      | Inr entries \<Rightarrow>
          io_each (\<lambda>e. io_ignore (os_remove_all (path_join [abs_path par, e]))) entries))"
proof (rule triple_bind [OF triple_try [OF triple_read_dir]])
  fix r :: "error + string list"
  show "triple (\<lambda>s. case r of Inl e \<Rightarrow> confined D L s0 s | Inr es \<Rightarrow> confined D L s0 s \<and> plains es)
     (case r of
        Inl _ \<Rightarrow> io_return ()
      | Inr entries \<Rightarrow>
          io_each (\<lambda>e. io_ignore (os_remove_all (path_join [abs_path par, e]))) entries)
     (\<lambda>_. confined D L s0) (\<lambda>_. confined D L s0)"
  proof (cases r)
    case (Inl e)
    then show ?thesis by (auto intro!: triple_return)
  next
    case (Inr es)
    have "keeps (confined D L s0) (io_ignore (os_remove_all (path_join [abs_path par, e])))"
      if "plain e" for e
    proof -
      have "avoids L False (par @ [e])"
        using av by (auto simp: avoids_def)
      moreover have "strict_prefix D (par @ [e])"
        using par(2) by (auto simp: strict_prefix_def dest: prefix_length_le)
      ultimately show ?thesis
        using par that by (intro keeps_ignore) (simp add: path_simps keeps_remove_all)
    qed
    then have "plains es \<Longrightarrow> keeps (confined D L s0)
        (io_each (\<lambda>e. io_ignore (os_remove_all (path_join [abs_path par, e]))) es)"
      by (intro keeps_each) (auto simp: list_all_iff)
    with Inr show ?thesis by (auto simp: triple_def)
  qed
qed

lemma keeps_relink:
  assumes p: "plains p" "avoids L False p" and below: "strict_prefix D p"
    and k: "keeps (confined D L s0) m"
  shows "keeps (confined D L s0) (io_bind (io_ignore (os_remove (abs_path p))) (\<lambda>_. m))"
  using p below k by (intro keeps_bind keeps_ignore keeps_remove)

text \<open>Where an entry is, and what its checks say once its own place may be a link.\<close>

lemma entry_geometry:
  assumes D: "plains D" and C: "prefix C D" and name: "safe_join (abs_path D) (hName hdr) = Inr name"
    and p: "p = D @ entry_comps (hName hdr)"
  shows "name = abs_path p" and "plains p" and "plains (butlast p)" and "path_dir name = abs_path (butlast p)"
    and "prefix C p" and "entry_comps (hName hdr) \<noteq> [] \<Longrightarrow> p \<noteq> [] \<and> strict_prefix C p \<and> prefix C (butlast p)"
proof -
  note n = safe_join_below [OF D name]
  show "name = abs_path p" "plains p" "plains (butlast p)" "prefix C p"
    using n D C by (auto simp: p intro!: list_all_butlast)
  then show "path_dir name = abs_path (butlast p)" by (simp add: path_simps)
  show "p \<noteq> [] \<and> strict_prefix C p \<and> prefix C (butlast p)" if "entry_comps (hName hdr) \<noteq> []"
    using that prefix_order.le_less_trans [OF C strict_prefix_appendI [OF that]] prefix_prefix [OF C]
    by (auto simp: p butlast_append)
qed

lemma entry_avoids:
  assumes "avoids (set L) fl r"
    and "prefix (D @ entry_comps (hName hdr)) r \<Longrightarrow> \<not> fl \<and> r = D @ entry_comps (hName hdr)"
  shows "avoids (set (entry_links D L hdr)) fl r"
  by (rule avoids_mono [OF avoids_insert [OF assms] entry_links_bound])

text \<open>Each kind of entry.\<close>

lemma keeps_entry_opaque:
  assumes D: "plains D" and C: "prefix C D" and ok: "entry_ok D L hdr"
    and name: "safe_join (abs_path D) (hName hdr) = Inr name" and base: "path_base (hName hdr) = ''.wh..wh..opq''"
  shows "keeps (confined C (set (entry_links D L hdr)) s0) (apply_entry tr hdr (abs_path D))"
proof -
  define p where "p = D @ entry_comps (hName hdr)"
  note g = entry_geometry [OF D C name p_def]
  from ok name base have ne: "entry_comps (hName hdr) \<noteq> []" and av: "avoids (set L) True (butlast p)"
    by (simp_all add: entry_ok_def p_def Let_def)
  have "\<not> prefix p (butlast p)" using g(6) [OF ne] by (simp add: not_prefix_butlast)
  with entry_avoids [OF av] have "avoids (set (entry_links D L hdr)) True (butlast p)" by (auto simp: p_def)
  then show ?thesis
    using keeps_opaque [OF g(3)] g(6) [OF ne] by (simp add: apply_entry_def name g(4) base Let_def)
qed

lemma keeps_entry_whiteout:
  assumes D: "plains D" and C: "prefix C D" and ok: "entry_ok D L hdr"
    and name: "safe_join (abs_path D) (hName hdr) = Inr name"
    and base: "path_base (hName hdr) \<noteq> ''.wh..wh..opq''" "has_prefix (path_base (hName hdr)) ''.wh.''"
  shows "keeps (confined C (set (entry_links D L hdr)) s0) (apply_entry tr hdr (abs_path D))"
proof -
  define p t where "p = D @ entry_comps (hName hdr)" and "t = trim_prefix (path_base (hName hdr)) ''.wh.''"
  note g = entry_geometry [OF D C name p_def(1)]
  from ok name base have ne: "entry_comps (hName hdr) \<noteq> []" and t: "plain t"
    and av: "avoids (set L) False (butlast p @ [t])"
    by (simp_all add: entry_ok_def p_def t_def Let_def)
  have "prefix p (butlast p @ [t]) \<Longrightarrow> butlast p @ [t] = p"
    using prefix_snocD [of p "butlast p" t] not_prefix_butlast [of p] g(6) [OF ne] by auto
  with entry_avoids [OF av] have "avoids (set (entry_links D L hdr)) False (butlast p @ [t])"
    by (auto simp: p_def)
  moreover have "strict_prefix C (butlast p @ [t])" using g(6) [OF ne] by (simp add: strict_prefix_snoc)
  ultimately show ?thesis
    using base g(3) t by (simp add: apply_entry_def name g(4) flip: t_def)
      (intro keeps_ignore, simp add: path_simps keeps_remove_all)
qed

text \<open>The kinds that make something, with their name in no whiteout.\<close>

definition no_whiteout :: "tar_header \<Rightarrow> bool" where
  "no_whiteout hdr = (\<not> has_prefix (path_base (hName hdr)) ''.wh.'')"

lemma no_whiteoutD: "no_whiteout hdr \<Longrightarrow> path_base (hName hdr) \<noteq> ''.wh..wh..opq'' \<and> \<not> has_prefix (path_base (hName hdr)) ''.wh.''"
  by (auto simp: no_whiteout_def has_prefix_def)

lemma keeps_entry_regular:
  assumes D: "plains D" and C: "prefix C D" and ok: "entry_ok D L hdr"
    and name: "safe_join (abs_path D) (hName hdr) = Inr name" and n: "no_whiteout hdr"
    and k: "hTypeflag hdr = TypeReg \<or> hTypeflag hdr = TypeRegA"
  shows "keeps (confined C (set (entry_links D L hdr)) s0) (apply_entry tr hdr (abs_path D))"
proof -
  define p where "p = D @ entry_comps (hName hdr)"
  note g = entry_geometry [OF D C name p_def] and n = no_whiteoutD [OF n]
  from ok name n k have "entry_comps (hName hdr) \<noteq> []" and "avoids (set L) True p"
    by (auto simp: entry_ok_def p_def Let_def)
  moreover have "set (entry_links D L hdr) = set L" using k by (auto simp: entry_links_def)
  ultimately have "keeps (confined C (set (entry_links D L hdr)) s0)
      (io_bind (os_mkdir_all (path_dir name) 0x1ED) (\<lambda>_.
       io_bind (open_replacing name (file_mode (hMode hdr))) (\<lambda>f.
       io_bind (io_copy f tr) (\<lambda>_. io_ignore (os_chtimes name (hModTime hdr))))))"
    unfolding g(1) using g(2,6) by (simp add: keeps_write_regular)
  then show ?thesis using k n by (elim disjE) (simp_all add: apply_entry_def name)
qed

lemma keeps_entry_dir:
  assumes D: "plains D" and C: "prefix C D" and ok: "entry_ok D L hdr"
    and name: "safe_join (abs_path D) (hName hdr) = Inr name" and n: "no_whiteout hdr" and k: "hTypeflag hdr = TypeDir"
  shows "keeps (confined C (set (entry_links D L hdr)) s0) (apply_entry tr hdr (abs_path D))"
proof -
  define p where "p = D @ entry_comps (hName hdr)"
  note g = entry_geometry [OF D C name p_def] and n = no_whiteoutD [OF n]
  from ok name n k have "avoids (set L) False p" by (simp add: entry_ok_def p_def)
  moreover have "set (entry_links D L hdr) = set L" using k by (simp add: entry_links_def)
  ultimately show ?thesis using g n k by (simp add: apply_entry_def name keeps_mkdir_all)
qed

text \<open>A link of either kind: the directories above it, and the removal of what was there.\<close>

lemma keeps_link_place:
  assumes p: "plains p" "avoids L False p" and below: "strict_prefix C p" "prefix C (butlast p)" "p \<noteq> []"
    and k: "keeps (confined C L s0) m"
  shows "keeps (confined C L s0)
     (io_bind (io_ignore (os_mkdir_all (abs_path (butlast p)) mode)) (\<lambda>_. m))"
  using p below k avoids_prefix [OF p(2) strict_prefix_butlast [OF below(3)]]
  by (intro keeps_bind keeps_ignore keeps_mkdir_all) (auto intro!: list_all_butlast)

lemma keeps_entry_symlink:
  assumes D: "plains D" and C: "prefix C D" and ok: "entry_ok D L hdr"
    and name: "safe_join (abs_path D) (hName hdr) = Inr name" and n: "no_whiteout hdr" and k: "hTypeflag hdr = TypeSymlink"
  shows "keeps (confined C (set (entry_links D L hdr)) s0) (apply_entry tr hdr (abs_path D))"
proof -
  define p where "p = D @ entry_comps (hName hdr)"
  note g = entry_geometry [OF D C name p_def] and n = no_whiteoutD [OF n]
  from ok name n k have ne: "entry_comps (hName hdr) \<noteq> []" and av: "avoids (set L) False p"
    by (simp_all add: entry_ok_def p_def Let_def)
  have av: "avoids (set (entry_links D L hdr)) False p" by (rule entry_avoids [OF av]) (simp add: p_def)
  have "p \<in> set (entry_links D L hdr)" using k by (simp add: entry_links_def p_def)
  then have "keeps (confined C (set (entry_links D L hdr)) s0) (os_symlink (hLinkname hdr) (abs_path p))"
    using g(2) av g(6) [OF ne] by (intro keeps_symlink) simp_all
  from keeps_link_place [OF g(2) av _ _ _ keeps_relink [OF g(2) av _ this]] g(6) [OF ne]
  show ?thesis using n k by (simp add: apply_entry_def name g(4)) (simp add: g(1))
qed

lemma keeps_entry_link:
  assumes D: "plains D" and C: "prefix C D" and ok: "entry_ok D L hdr"
    and name: "safe_join (abs_path D) (hName hdr) = Inr name" and n: "no_whiteout hdr" and k: "hTypeflag hdr = TypeLink"
  shows "keeps (confined C (set (entry_links D L hdr)) s0) (apply_entry tr hdr (abs_path D))"
proof -
  let ?L = "set (entry_links D L hdr)"
  define p where "p = D @ entry_comps (hName hdr)"
  note g = entry_geometry [OF D C name p_def] and n = no_whiteoutD [OF n]
  note okd = ok [unfolded entry_ok_def name Let_def, simplified n k, simplified, folded p_def]
  from okd have ne: "entry_comps (hName hdr) \<noteq> []" and av: "avoids (set L) False p" by simp_all
  have av: "avoids ?L False p" by (rule entry_avoids [OF av]) (simp add: p_def)
  note b = g(6) [OF ne]
  have link: "keeps (confined C ?L s0) (os_link q (abs_path p))"
    if q: "safe_join (abs_path D) (hLinkname hdr) = Inr q" for q
  proof -
    define r where "r = D @ entry_comps (hLinkname hdr)"
    have q': "q = abs_path r" "plains r" "prefix C r"
      using safe_join_below [OF D q] D prefix_prefix [OF C] by (simp_all add: r_def)
    from okd q have "avoids (set L) False r" "\<not> strict_prefix p r" by (simp_all add: r_def)
    then have "avoids ?L False r"
      using entry_avoids [of L False r D hdr] by (auto simp: strict_prefix_def p_def)
    moreover have "r \<in> ?L \<Longrightarrow> p \<in> ?L"
      using k by (auto simp: entry_links_def p_def r_def split: if_splits)
    ultimately show ?thesis
      unfolding q'(1) using g(2) av b q'(2,3) by (intro keeps_link) auto
  qed
  have "keeps (confined C ?L s0)
      (case safe_join (abs_path D) (hLinkname hdr) of
         Inl err \<Rightarrow> io_throw err
       | Inr q \<Rightarrow> io_bind (io_ignore (os_remove (abs_path p))) (\<lambda>_. os_link q (abs_path p)))"
    using keeps_relink [OF g(2) av _ link] b by (auto intro!: triple_throw split: sum.splits)
  from keeps_link_place [OF g(2) av _ _ _ this, folded g(1)] b
  show ?thesis using n k by (simp add: apply_entry_def name g(4))
qed

lemma keeps_apply_entry:
  assumes D: "plains D" and C: "prefix C D" and ok: "entry_ok D L hdr"
  shows "keeps (confined C (set (entry_links D L hdr)) s0) (apply_entry tr hdr (abs_path D))"
proof (cases "safe_join (abs_path D) (hName hdr)")
  case (Inl e)
  then show ?thesis by (simp add: apply_entry_def triple_intros)
next
  case (Inr name)
  note step = D C ok Inr
  consider (opaque) "path_base (hName hdr) = ''.wh..wh..opq''"
    | (whiteout) "path_base (hName hdr) \<noteq> ''.wh..wh..opq''" "has_prefix (path_base (hName hdr)) ''.wh.''"
    | (other) "no_whiteout hdr" by (auto simp: no_whiteout_def)
  then show ?thesis
  proof cases
    case opaque
    then show ?thesis by (rule keeps_entry_opaque [OF step])
  next
    case whiteout
    then show ?thesis by (rule keeps_entry_whiteout [OF step])
  next
    case other
    show ?thesis
      using keeps_entry_regular [OF step other] keeps_entry_dir [OF step other] keeps_entry_symlink [OF step other]
        keeps_entry_link [OF step other] no_whiteoutD [OF other]
      by (cases "hTypeflag hdr") (simp_all add: apply_entry_def Inr triple_return)
  qed
qed

text \<open>
  The whole stream, with the places links may appear accumulated along the way: an error in the
  middle leaves what was extracted so far, still confined.  The directory nothing leaves may be any
  directory above the destination.
\<close>

fun stream_links :: "path \<Rightarrow> path list \<Rightarrow> tar_item list \<Rightarrow> path list" where
  "stream_links D L [] = L"
| "stream_links D L (TarError _ # items) = L"
| "stream_links D L (TarEntry hdr _ # items) = stream_links D (entry_links D L hdr) items"

lemma stream_links_mono: "set L \<subseteq> set (stream_links D L items)"
proof (induction items arbitrary: L)
  case (Cons item items)
  then show ?case using entry_links_mono by (cases item) fastforce+
qed simp

lemma confined_extract_tar:
  assumes D: "plains D" and C: "prefix C D"
  shows "stream_ok D L items \<Longrightarrow> confined C (set L) s0 s \<Longrightarrow>
    confined C (set (stream_links D L items)) s0 (snd (extract_tar items (abs_path D) s))"
proof (induction items arbitrary: L s)
  case Nil
  then show ?case by (auto simp: io_defs)
next
  case (Cons item items)
  show ?case
  proof (cases item)
    case (TarError e)
    with Cons.prems show ?thesis by (auto simp: io_defs)
  next
    case (TarEntry hdr tr)
    with Cons.prems have ok: "entry_ok D L hdr" "stream_ok D (entry_links D L hdr) items"
      by simp_all
    let ?m = "io_wrap (Wrapf ''entry %q: %w'' [hName hdr]) (apply_entry tr hdr (abs_path D))"
    have "confined C (set (entry_links D L hdr)) s0 s"
      using Cons.prems(2) entry_links_mono by (rule confined_mono)
    then have step: "confined C (set (entry_links D L hdr)) s0 (snd (?m s))"
      by (rule keepsD [OF keeps_wrap [OF keeps_apply_entry [OF D C ok(1)]]])
    show ?thesis
    proof (cases "?m s")
      case (Pair r s1)
      with step TarEntry Cons.IH [OF ok(2), of s1] show ?thesis
        by (cases r) (auto simp: io_bind_def intro: confined_mono [OF _ stream_links_mono])
    qed
  qed
qed

end
