(* ===== verification/Posix_Open.thy ===== *)
theory Posix_Open
  imports Posix_Frame
begin

text \<open>
  What the calls do when nothing stands in their way: a path whose directories exist and may be
  searched is resolved to the node it names, a write is read back, \<open>MkdirAll\<close> makes what is missing
  and \<open>RemoveAll\<close> removes exactly the subtree.
\<close>

section \<open>Open paths\<close>

definition searchable :: "fs \<Rightarrow> path \<Rightarrow> bool" where
  "searchable s p = (case node_at s p of Some (Dir m) \<Rightarrow> allowed s x_bit m | _ \<Rightarrow> False)"

definition path_open :: "fs \<Rightarrow> path \<Rightarrow> bool" where
  "path_open s p = list_all (\<lambda>k. searchable s (take k p)) [0 ..< length p]"

definition place_of :: "fs \<Rightarrow> path \<Rightarrow> place" where
  "place_of s p = (case node_at s p of None \<Rightarrow> Absent p | Some nd \<Rightarrow> At p nd)"

definition is_link_at :: "fs \<Rightarrow> path \<Rightarrow> bool" where
  "is_link_at s p = (case node_at s p of Some (Symlink _) \<Rightarrow> True | _ \<Rightarrow> False)"

lemma path_open_iff: "path_open s p \<longleftrightarrow> (\<forall>q. strict_prefix q p \<longrightarrow> searchable s q)"
proof
  assume o: "path_open s p"
  show "\<forall>q. strict_prefix q p \<longrightarrow> searchable s q"
  proof (intro allI impI)
    fix q assume "strict_prefix q p"
    then have "take (length q) p = q" "length q < length p"
      by (auto simp: prefix_def strict_prefix_def)
    with o show "searchable s q" by (force simp: path_open_def list_all_iff)
  qed
next
  assume o: "\<forall>q. strict_prefix q p \<longrightarrow> searchable s q"
  then show "path_open s p" by (simp add: path_open_def list_all_iff strict_prefix_take)
qed

lemma path_open_Nil [simp]: "path_open s []"
  by (simp add: path_open_def)

lemma path_open_snoc: "path_open s (p @ [c]) \<longleftrightarrow> path_open s p \<and> searchable s p"
  unfolding path_open_iff strict_prefix_snoc by (auto simp: strict_prefix_def)

lemma path_open_prefix: "path_open s p \<Longrightarrow> prefix q p \<Longrightarrow> path_open s q"
  by (auto simp: path_open_iff intro: prefix_order.less_le_trans)

lemma path_open_butlast: "path_open s p \<Longrightarrow> p \<noteq> [] \<Longrightarrow> searchable s (butlast p)"
  by (simp add: path_open_iff strict_prefix_butlast)

lemma searchable_node: "searchable s p \<Longrightarrow> \<exists>m. node_at s p = Some (Dir m) \<and> allowed s x_bit m"
  by (auto simp: searchable_def split: option.splits node.splits)

lemma searchable_super: "fs_super s \<Longrightarrow> searchable s p = is_dir_at s p"
  by (simp add: searchable_def is_dir_at_def allowed_def split: option.splits node.splits)

text \<open>Opening, creating and looking do not depend on anything but the nodes on the way.\<close>

lemma resolve_open:
  assumes "plains cs" and "\<And>q. prefix cur q \<Longrightarrow> strict_prefix q (cur @ cs) \<Longrightarrow> searchable s q"
    and "cs \<noteq> []" and "fl \<Longrightarrow> \<not> is_link_at s (cur @ cs)"
  shows "resolve s fl n cur cs = Inr (place_of s (cur @ cs))"
  using assms
proof (induction cs arbitrary: cur)
  case (Cons c cs)
  have "plain c" and pl: "plains cs" using Cons.prems(1) by simp_all
  then have c: "c \<noteq> []" "c \<noteq> ''.''" "c \<noteq> ''..''" by (simp_all add: plain_def)
  have "searchable s cur"
    using Cons.prems(2) by (simp add: strict_prefix_def)
  then obtain m where m: "node_at s cur = Some (Dir m)" "allowed s x_bit m"
    using searchable_node by blast
  show ?case
  proof (cases "cs = []")
    case True
    with m c Cons.prems(4) show ?thesis
      by (auto simp: is_link_at_def place_of_def split: option.splits node.splits)
  next
    case False
    then have "searchable s (cur @ [c])"
      by (intro Cons.prems(2)) (auto simp: strict_prefix_def)
    then obtain m' where m': "node_at s (cur @ [c]) = Some (Dir m')"
      using searchable_node by blast
    have "resolve s fl n (cur @ [c]) cs = Inr (place_of s ((cur @ [c]) @ cs))"
      using pl False Cons.prems(4)
      by (intro Cons.IH Cons.prems(2)) (auto dest: append_prefixD)
    with m m' c show ?thesis by simp
  qed
qed simp

lemma walk_open:
  assumes "plains p" and "path_open s p" and "p \<noteq> []" and "fl \<Longrightarrow> \<not> is_link_at s p"
  shows "walk s fl (abs_path p) = Inr (place_of s p)"
proof -
  have "searchable s []"
    using assms(2,3) by (simp add: path_open_iff strict_prefix_def)
  then obtain m where m: "node_at s [] = Some (Dir m)" "allowed s x_bit m"
    using searchable_node by blast
  have "resolve s fl max_links [] p = Inr (place_of s p)"
    using assms resolve_open [of p "[]" s fl max_links] by (simp add: path_open_iff)
  with m assms show ?thesis
    by (simp add: walk_def path_simps del: resolve.simps(1)) 
qed

lemma walk_open_Some:
  "plains p \<Longrightarrow> path_open s p \<Longrightarrow> p \<noteq> [] \<Longrightarrow> node_at s p = Some nd \<Longrightarrow> (fl \<Longrightarrow> \<nexists>t. nd = Symlink t) \<Longrightarrow>
   walk s fl (abs_path p) = Inr (At p nd)"
  by (subst walk_open) (auto simp: is_link_at_def place_of_def split: node.splits)

lemma walk_open_None:
  "plains p \<Longrightarrow> path_open s p \<Longrightarrow> p \<noteq> [] \<Longrightarrow> node_at s p = None \<Longrightarrow>
   walk s fl (abs_path p) = Inr (Absent p)"
  by (subst walk_open) (auto simp: is_link_at_def place_of_def)

section \<open>Files\<close>

text \<open>A path a file can be written at: its directories are open, and it is a writable file or a
  new name in a directory that may be edited.\<close>

definition writable_at :: "fs \<Rightarrow> path \<Rightarrow> bool" where
  "writable_at s p =
     (p \<noteq> [] \<and> plains p \<and> path_open s p \<and>
      (case node_at s p of
         None \<Rightarrow> may_edit s p
       | Some (File i) \<Rightarrow> allowed s w_bit (i_mode (fs_inodes s i))
       | Some _ \<Rightarrow> False))"

definition readable_at :: "fs \<Rightarrow> path \<Rightarrow> bool" where
  "readable_at s p =
     (p \<noteq> [] \<and> plains p \<and> path_open s p \<and>
      (case node_at s p of
         Some (File i) \<Rightarrow> allowed s r_bit (i_mode (fs_inodes s i)) | _ \<Rightarrow> False))"

lemma read_file_run:
  assumes "readable_at s p"
  shows "os_read_file (abs_path p) s = (Inr (the (content_at s p)), s)"
proof -
  from assms obtain i where "node_at s p = Some (File i)"
      "allowed s r_bit (i_mode (fs_inodes s i))" and p: "p \<noteq> []" "plains p" "path_open s p"
    by (auto simp: readable_at_def split: option.splits node.splits)
  then show ?thesis
    by (simp add: os_read_file_def walk_open_Some content_at_def)
qed

text \<open>The state after writing \<open>b\<close> at \<open>p\<close>.\<close>

definition put_file :: "path \<Rightarrow> string \<Rightarrow> u32 \<Rightarrow> fs \<Rightarrow> fs" where
  "put_file p b mode s =
     (case node_at s p of
        Some (File i) \<Rightarrow> snd (fd_write i b (truncate_file i s))
      | _ \<Rightarrow> snd (fd_write (fs_next s) b (create_file p mode s)))"

lemma open_trunc_run:
  assumes "writable_at s p"
  obtains i where "os_open_trunc (abs_path p) mode s =
      (Inr i, case node_at s p of Some (File j) \<Rightarrow> truncate_file j s | _ \<Rightarrow> create_file p mode s)"
    and "i = (case node_at s p of Some (File j) \<Rightarrow> j | _ \<Rightarrow> fs_next s)"
  using assms
  by (auto simp: writable_at_def os_open_trunc_def walk_open_Some walk_open_None
      split: option.splits node.splits)

lemma write_file_run:
  assumes "writable_at s p"
  shows "os_write_file (abs_path p) b mode s = (Inr (), put_file p b mode s)"
  using assms
  by (auto simp: os_write_file_def writable_at_def os_open_trunc_def walk_open_Some walk_open_None
      put_file_def fd_write_def io_defs split: option.splits node.splits)

lemma node_at_create [fs_simps]:
  "node_at (create_file p mode s) q = (if q = p then Some (File (fs_next s)) else node_at s q)"
  by (simp add: create_file_def fs_simps)

lemma node_at_truncate [fs_simps]: "node_at (truncate_file i s) q = node_at s q"
  by (simp add: truncate_file_def fs_simps)

lemma node_at_write [fs_simps]: "node_at (snd (fd_write i b s)) q = node_at s q"
  by (simp add: fd_write_def fs_simps)

lemma node_at_put [fs_simps]:
  "node_at (put_file p b mode s) q =
     (if q = p then (case node_at s p of Some (File i) \<Rightarrow> Some (File i) | _ \<Rightarrow> Some (File (fs_next s)))
      else node_at s q)"
  by (auto simp: put_file_def fs_simps split: option.splits node.splits)

lemma content_at_put [fs_simps]: "content_at (put_file p b mode s) p = Some b"
  by (auto simp: put_file_def content_at_def fs_simps fd_write_def truncate_file_def create_file_def
      split: option.splits node.splits)

lemma super_put [fs_simps]: "fs_super (put_file p b mode s) = fs_super s"
  by (auto simp: put_file_def fd_write_def truncate_file_def create_file_def fs_simps
      split: option.splits node.splits)

lemma content_at_put_other:
  assumes "sane s" and "q \<noteq> p"
    and "\<And>i. node_at s p = Some (File i) \<Longrightarrow> node_at s q \<noteq> Some (File i)"
  shows "content_at (put_file p b mode s) q = content_at s q"
  using assms
  by (auto simp: put_file_def content_at_def fs_simps fd_write_def truncate_file_def create_file_def
      sane_def split: option.splits node.splits)

lemma searchable_same_nodes:
  "node_at s' p = node_at s p \<Longrightarrow> fs_super s' = fs_super s \<Longrightarrow> searchable s' p = searchable s p"
  by (simp add: searchable_def allowed_def split: option.splits node.splits)

lemma path_open_put:
  assumes "path_open s p" and "q = p \<or> prefix q p"
  shows "path_open (put_file p b mode s) q"
proof -
  have "path_open s q" using assms path_open_prefix by blast
  moreover have "searchable (put_file p b mode s) r = searchable s r" if "strict_prefix r p" for r
    using that by (intro searchable_same_nodes) (auto simp: fs_simps)
  ultimately show ?thesis
    using assms(2) unfolding path_open_iff
    by (metis prefix_order.less_le_trans)
qed

text \<open>What was written is what is read, when the mode lets its owner read.\<close>

lemma read_after_write:
  assumes w: "writable_at s p"
    and r: "\<And>i. node_at s p = Some (File i) \<Longrightarrow> allowed s r_bit (i_mode (fs_inodes s i))"
    and new: "node_at s p = None \<Longrightarrow> allowed s r_bit (created_mode s mode)"
  shows "os_read_file (abs_path p) (put_file p b mode s) = (Inr b, put_file p b mode s)"
proof -
  from w have p: "p \<noteq> []" "plains p" "path_open s p"
    by (simp_all add: writable_at_def)
  have "readable_at (put_file p b mode s) p"
  proof (cases "node_at s p")
    case None
    with p new show ?thesis
      by (simp add: readable_at_def path_open_put fs_simps)
        (simp add: put_file_def fd_write_def create_file_def fs_simps allowed_def)
  next
    case (Some nd)
    with w obtain i where "nd = File i" by (auto simp: writable_at_def split: node.splits)
    with Some p r [of i] show ?thesis
      by (simp add: readable_at_def path_open_put fs_simps)
        (simp add: put_file_def fd_write_def truncate_file_def fs_simps allowed_def)
  qed
  from read_file_run [OF this] show ?thesis by (simp add: fs_simps)
qed

section \<open>Trees\<close>

text \<open>Every node but the root has a directory above it.\<close>

definition tree_ok :: "fs \<Rightarrow> bool" where
  "tree_ok s \<longleftrightarrow> is_dir_at s [] \<and> (\<forall>p. p \<noteq> [] \<longrightarrow> node_at s p \<noteq> None \<longrightarrow> is_dir_at s (butlast p))"

lemma tree_ok_above:
  "tree_ok s \<Longrightarrow> node_at s p \<noteq> None \<Longrightarrow> strict_prefix q p \<Longrightarrow> is_dir_at s q"
proof (induction p rule: rev_induct)
  case (snoc x p)
  then have d: "is_dir_at s p" by (auto simp: tree_ok_def)
  from snoc.prems(3) have "q = p \<or> strict_prefix q p"
    by (auto simp: strict_prefix_def)
  moreover from d have "node_at s p \<noteq> None"
    by (auto simp: is_dir_at_node)
  ultimately show ?case using d snoc by blast
qed simp

lemma tree_ok_gone:
  assumes "tree_ok s" and "node_at s p = None" and "prefix p q"
  shows "node_at s q = None"
proof (rule ccontr)
  assume q: "node_at s q \<noteq> None"
  with assms(2,3) have "strict_prefix p q" by (auto simp: strict_prefix_def)
  from tree_ok_above [OF assms(1) q this] assms(2) show False by (simp add: is_dir_at_def)
qed

lemma tree_ok_open: "tree_ok s \<Longrightarrow> fs_super s \<Longrightarrow> node_at s p \<noteq> None \<Longrightarrow> path_open s p"
  by (auto simp: path_open_iff searchable_super dest: tree_ok_above)

lemma has_child_iff: "has_child s p \<longleftrightarrow> (\<exists>c. node_at s (p @ [c]) \<noteq> None)"
proof
  assume "has_child s p"
  then obtain q where "q \<in> fst ` set (fs_nodes s)" "q \<noteq> []" "butlast q = p"
    by (force simp: has_child_def list_ex_iff)
  then show "\<exists>c. node_at s (p @ [c]) \<noteq> None"
    by (metis append_butlast_last_id map_of_eq_None_iff node_at_def)
next
  assume "\<exists>c. node_at s (p @ [c]) \<noteq> None"
  then obtain c nd where "(p @ [c], nd) \<in> set (fs_nodes s)"
    unfolding node_at_def by (meson map_of_SomeD not_Some_eq)
  then show "has_child s p"
    by (force simp: has_child_def list_ex_iff)
qed

lemma node_at_key: "node_at s p \<noteq> None \<longleftrightarrow> p \<in> fst ` set (fs_nodes s)"
  by (simp add: node_at_def map_of_eq_None_iff)

lemma remove_list_super:
  assumes super: "fs_super s0" and tree: "tree_ok s0" and q: "q \<noteq> []"
    and "sorted_wrt (\<lambda>a b. length b \<le> length a) rs" and "\<forall>r \<in> set rs. prefix q r \<and> node_at s0 r \<noteq> None"
    and "\<And>r. node_at s r = (if r \<in> done then None else node_at s0 r)" and "fs_super s"
    and "\<And>r. r \<in> done \<Longrightarrow> prefix q r \<and> (\<forall>x \<in> set rs. length x \<le> length r)"
    and "\<And>r. node_at s0 r \<noteq> None \<Longrightarrow> prefix q r \<Longrightarrow> r \<in> done \<union> set rs"
  shows "node_at (foldl (\<lambda>s r. if removable q s r then del_node r s else s) s rs) r =
     (if r \<in> done \<union> set rs then None else node_at s0 r)"
  using assms(4-)
proof (induction rs arbitrary: s "done")
  case Nil
  then show ?case by simp
next
  case (Cons x xs)
  have x: "prefix q x" "node_at s0 x \<noteq> None" "x \<noteq> []"
    using Cons.prems(2) q by auto
  have longer: "length x \<le> length r" if "r \<in> done" for r
    using Cons.prems(5) that by simp
  have no_child: "\<not> has_child s x"
  proof
    assume "has_child s x"
    then obtain c where "node_at s (x @ [c]) \<noteq> None" by (auto simp: has_child_iff)
    then have "x @ [c] \<notin> done" "node_at s0 (x @ [c]) \<noteq> None"
      using Cons.prems(3) by (auto split: if_splits)
    then have "x @ [c] \<in> set (x # xs)"
      using Cons.prems(6) [of "x @ [c]"] x by auto
    then show False using Cons.prems(1) by auto
  qed
  have above: "is_dir_at s r" if "strict_prefix r x" for r
  proof -
    have "r \<notin> done"
      using longer [of r] that by (auto dest: prefix_length_less)
    then show ?thesis
      using tree_ok_above [OF tree x(2) that] Cons.prems(3) by (simp add: is_dir_at_def)
  qed
  have removable: "removable q s x"
  proof -
    have "may_edit s x"
      using above [OF strict_prefix_butlast [OF x(3)]] Cons.prems(4)
      by (auto simp: may_edit_def is_dir_at_node allowed_def)
    moreover have "dir_open s (take k x)" if "k < length x" for k
      using above [OF strict_prefix_take [OF that]] Cons.prems(4)
      by (auto simp: dir_open_def is_dir_at_node allowed_def)
    ultimately show ?thesis
      using no_child x(3) by (simp add: removable_def list_all_iff)
  qed
  have "node_at (foldl (\<lambda>s r. if removable q s r then del_node r s else s) (del_node x s) xs) r =
      (if r \<in> insert x done \<union> set xs then None else node_at s0 r)"
    using Cons.prems x longer by (intro Cons.IH) (auto simp: fs_simps)
  with removable show ?case by simp
qed

text \<open>For the superuser \<open>RemoveAll\<close> removes exactly what is at and under the name.\<close>

lemma victims_sorted: "sorted_wrt (\<lambda>a b. length b \<le> length a) (victims s q)"
proof -
  have "sorted (map length (sort_key length (filter (prefix q) (map fst (fs_nodes s)))))"
    by (rule sorted_sort_key)
  then show ?thesis
    by (simp add: victims_def sorted_wrt_rev sorted_map)
qed

lemma set_victims: "r \<in> set (victims s q) \<longleftrightarrow> prefix q r \<and> node_at s r \<noteq> None"
  using node_at_key [of s r] by (auto simp: victims_def)

lemma remove_tree_super:
  assumes "fs_super s" and "tree_ok s" and "q \<noteq> []"
  shows "node_at (remove_tree q s) r = (if prefix q r then None else node_at s r)"
proof -
  have "node_at (remove_tree q s) r = (if r \<in> {} \<union> set (victims s q) then None else node_at s r)"
    unfolding remove_tree_def
    using assms victims_sorted
    by (intro remove_list_super) (auto simp: set_victims)
  then show ?thesis by (auto simp: set_victims)
qed

lemma remove_tree_keeps:
  "fs_super (remove_tree q s) = fs_super s" "fs_inodes (remove_tree q s) = fs_inodes s"
  "fs_next (remove_tree q s) = fs_next s"
proof -
  have "fs_super (foldl (\<lambda>s r. if removable q s r then del_node r s else s) s rs) = fs_super s \<and>
      fs_next (foldl (\<lambda>s r. if removable q s r then del_node r s else s) s rs) = fs_next s \<and>
      fs_inodes (foldl (\<lambda>s r. if removable q s r then del_node r s else s) s rs) = fs_inodes s" for rs
    by (induction rs arbitrary: s) (auto simp: fs_simps)
  then show "fs_super (remove_tree q s) = fs_super s" "fs_inodes (remove_tree q s) = fs_inodes s"
      "fs_next (remove_tree q s) = fs_next s"
    by (simp_all add: remove_tree_def)
qed

lemma tree_ok_remove:
  assumes "fs_super s" and "tree_ok s" and "q \<noteq> []"
  shows "tree_ok (remove_tree q s)"
  using assms remove_tree_super [OF assms]
  by (auto simp: tree_ok_def is_dir_at_def split: if_splits dest: prefix_butlastD)

lemma remove_all_run:
  assumes "fs_super s" and "tree_ok s" and p: "p \<noteq> []" "plains p" "path_open s p"
  shows "os_remove_all (abs_path p) s =
    (Inr (), if node_at s p = None then s else remove_tree p s)"
proof -
  have "path_base (abs_path p) \<noteq> ''.''"
    using p by (cases p rule: rev_cases) (auto simp: path_simps plain_def)
  then show ?thesis
    using assms remove_tree_super [OF assms(1-3), of p]
    by (cases "node_at s p") (simp_all add: os_remove_all_def walk_open_Some walk_open_None Let_def)
qed

section \<open>Making directories\<close>

text \<open>The way to \<open>p\<close> is clear: every node on it is a directory or still missing.\<close>

definition clear_to :: "fs \<Rightarrow> path \<Rightarrow> bool" where
  "clear_to s p = list_all (\<lambda>k. node_at s (take k p) = None \<or> is_dir_at s (take k p)) [0 ..< Suc (length p)]"

lemma clear_to_iff: "clear_to s p \<longleftrightarrow> (\<forall>q. prefix q p \<longrightarrow> node_at s q = None \<or> is_dir_at s q)"
  unfolding clear_to_def by (rule list_all_takes)

lemma dirs_to_check: "list_all (\<lambda>k. is_dir_at s (take k D)) [0 ..< Suc (length D)] \<longleftrightarrow> dirs_to D s"
  unfolding dirs_to_def by (rule list_all_takes)

lemma clear_to_avoids: "clear_to s p \<Longrightarrow> avoids (links s) fl p"
  by (force simp: clear_to_iff avoids_def links_def is_dir_at_def)

lemma stat_missing:
  assumes "plains p" and "avoids (links s) True p" and "node_at s p = None"
  obtains e where "os_stat (abs_path p) s = (Inl e, s)"
  using walk_avoids [OF assms(1) order_refl assms(2)] assms(3) that
  by (cases "walk s True (abs_path p)") (auto simp: os_stat_def split: place.splits)

lemma root_stat: "tree_ok s \<Longrightarrow> fs_super s \<Longrightarrow> \<exists>m. os_stat (abs_path []) s = (Inr (Dir m), s)"
  by (auto simp: tree_ok_def is_dir_at_node os_stat_def walk_def path_simps allowed_def)

definition with_dirs :: "fs \<Rightarrow> path \<Rightarrow> u32 \<Rightarrow> fs \<Rightarrow> bool" where
  "with_dirs s p m s' \<longleftrightarrow>
     (\<forall>q. node_at s' q =
        (if prefix q p \<and> node_at s q = None then Some (Dir (created_mode s m)) else node_at s q)) \<and>
     (\<exists>ns. s' = s\<lparr>fs_nodes := ns\<rparr>)"

lemma with_dirs_refl: "(\<And>q. prefix q p \<Longrightarrow> node_at s q \<noteq> None) \<Longrightarrow> with_dirs s p m s"
  unfolding with_dirs_def by (intro conjI allI exI [where x = "fs_nodes s"]) auto

lemma tree_ok_with_dirs:
  assumes "tree_ok s" and "clear_to s p" and w: "with_dirs s p m s'"
  shows "tree_ok s'"
proof -
  have "is_dir_at s' (butlast q)" if q: "q \<noteq> []" "node_at s' q \<noteq> None" for q
  proof (cases "node_at s q = None")
    case False
    with assms(1) q have "is_dir_at s (butlast q)" by (simp add: tree_ok_def)
    with w show ?thesis by (auto simp: is_dir_at_node with_dirs_def)
  next
    case True
    with q w have "prefix q p" by (auto simp: with_dirs_def split: if_splits)
    then have "prefix (butlast q) p"
      using q(1) strict_prefix_butlast prefix_order.less_imp_le prefix_order.order_trans by blast
    with w assms(2) show ?thesis by (auto simp: is_dir_at_node with_dirs_def clear_to_iff)
  qed
  moreover have "is_dir_at s' []"
    using assms(1) w by (auto simp: is_dir_at_node with_dirs_def tree_ok_def)
  ultimately show ?thesis by (simp add: tree_ok_def)
qed

lemma mkdir_run:
  "writable_at s p \<Longrightarrow> node_at s p = None \<Longrightarrow>
   os_mkdir (abs_path p) mode s = (Inr (), set_node p (Dir (created_mode s mode)) s)"
  by (simp add: os_mkdir_def writable_at_def walk_open_None)

text \<open>The last directory of a path whose parents have been made.\<close>

lemma mkdir_last:
  assumes s: "fs_super s" "tree_ok s" and p: "plains (q @ [c])" "clear_to s q" "node_at s (q @ [c]) = None"
    and w: "with_dirs s q mode s1"
  shows "\<exists>s'. os_mkdir (abs_path (q @ [c])) mode s1 = (Inr (), s') \<and> with_dirs s (q @ [c]) mode s'"
proof -
  let ?p = "q @ [c]"
  have t1: "tree_ok s1" using s(2) p(2) w by (rule tree_ok_with_dirs)
  obtain ns where ns: "s1 = s\<lparr>fs_nodes := ns\<rparr>" using w by (auto simp: with_dirs_def)
  have node1: "node_at s1 ?p = None"
    using p(3) w by (auto simp: with_dirs_def dest: prefix_length_le)
  obtain m1 where par: "node_at s1 q = Some (Dir m1)"
    using w p(2) by (fastforce simp: with_dirs_def clear_to_iff is_dir_at_node)
  have super1: "fs_super s1" using s(1) ns by simp
  have "path_open s1 ?p"
    using tree_ok_open [OF t1 super1, of q] par super1
    by (simp add: path_open_snoc searchable_super is_dir_at_node)
  then have "writable_at s1 ?p"
    using p(1) node1 par super1
    by (simp add: writable_at_def may_edit_def allowed_def)
  then have "os_mkdir (abs_path ?p) mode s1 = (Inr (), set_node ?p (Dir (created_mode s1 mode)) s1)"
    using node1 by (rule mkdir_run)
  moreover have "with_dirs s ?p mode (set_node ?p (Dir (created_mode s1 mode)) s1)"
    using w p(3) ns
    by (auto simp: with_dirs_def fs_simps created_mode_def) (auto simp: set_node_def)
  ultimately show ?thesis by blast
qed

lemma mkdir_all_rev_super:
  assumes "fs_super s" and "tree_ok s"
  shows "plains (rev cs) \<Longrightarrow> clear_to s (rev cs) \<Longrightarrow>
    \<exists>s'. mkdir_all_rev True cs mode s = (Inr (), s') \<and> with_dirs s (rev cs) mode s'"
proof (induction cs)
  case Nil
  from root_stat [OF assms(2,1)] obtain m where "os_stat (abs_path []) s = (Inr (Dir m), s)"
    by blast
  with assms(2) show ?case
    by (auto simp: build_path_def io_run tree_ok_def is_dir_at_node intro!: with_dirs_refl)
next
  case (Cons c cs)
  let ?p = "rev (c # cs)"
  have clear: "clear_to s (rev cs)"
    using Cons.prems(2) by (auto simp: clear_to_iff)
  show ?case
  proof (cases "node_at s ?p")
    case (Some nd)
    then have dir: "is_dir_at s ?p"
      using Cons.prems(2) by (force simp: clear_to_iff)
    then obtain m where m: "node_at s ?p = Some (Dir m)" by (auto simp: is_dir_at_node)
    then have "os_stat (abs_path ?p) s = (Inr (Dir m), s)"
      using Cons.prems(1) tree_ok_open [OF assms(2,1), of ?p]
      by (simp add: os_stat_def walk_open_Some del: rev.simps)
    moreover have "node_at s q \<noteq> None" if "prefix q ?p" for q
      using that m tree_ok_above [OF assms(2), of ?p q]
      by (cases "q = ?p") (auto simp: strict_prefix_def is_dir_at_node simp del: rev.simps)
    ultimately show ?thesis
      by (auto simp: build_path_def io_defs Let_def simp del: rev.simps intro!: with_dirs_refl)
  next
    case None
    obtain e where e: "os_stat (abs_path ?p) s = (Inl e, s)"
      using stat_missing [OF Cons.prems(1) clear_to_avoids [OF Cons.prems(2)] None] .
    obtain s1 where s1: "mkdir_all_rev True cs mode s = (Inr (), s1)" "with_dirs s (rev cs) mode s1"
      using Cons.IH [OF _ clear] Cons.prems(1) by auto
    obtain s2 where "os_mkdir (abs_path ?p) mode s1 = (Inr (), s2)" "with_dirs s ?p mode s2"
      using mkdir_last [OF assms _ clear _ s1(2), of c] Cons.prems(1) None by auto
    then show ?thesis
      using e s1(1) by (auto simp: build_path_def io_defs Let_def simp del: rev.simps)
  qed
qed

lemma mkdir_all_super:
  assumes "fs_super s" and "tree_ok s" and "plains p" and "clear_to s p"
  obtains s' where "os_mkdir_all (abs_path p) mode s = (Inr (), s')" and "with_dirs s p mode s'"
  using mkdir_all_rev_super [OF assms(1,2), of "rev p"] assms(3,4) that
  by (auto simp: mkdir_all_abs)

section \<open>A small file system\<close>

text \<open>A directory to work in, a file below it and one outside, for concrete runs.\<close>

definition sample_fs :: fs where
  "sample_fs =
     \<lparr>fs_nodes = [([], Dir 0x1ED), ([''r''], Dir 0x1ED), ([''r'', ''a''], File 0),
                  ([''etc''], Dir 0x1ED), ([''etc'', ''pw''], File 1)],
      fs_inodes = (\<lambda>i. if i = 0 then \<lparr>i_data = ''old'', i_mode = 0x1ED, i_mtime = 1\<rparr>
                       else \<lparr>i_data = ''secret'', i_mode = 0x180, i_mtime = 2\<rparr>),
      fs_next = 2, fs_cwd = [], fs_super = True, fs_umask = 0x12, fs_now = 7\<rparr>"

text \<open>A destination two directories deep, with a neighbour.\<close>

definition sample_deep :: fs where
  "sample_deep =
     \<lparr>fs_nodes = [([], Dir 0x1ED), ([''d''], Dir 0x1ED), ([''d'', ''r''], Dir 0x1ED),
                  ([''d'', ''other''], File 0)],
      fs_inodes = (\<lambda>i. \<lparr>i_data = ''x'', i_mode = 0x1A4, i_mtime = 1\<rparr>),
      fs_next = 1, fs_cwd = [], fs_super = True, fs_umask = 0x12, fs_now = 7\<rparr>"

section \<open>File systems with one name per file\<close>

definition unaliased :: "fs \<Rightarrow> bool" where
  "unaliased s \<longleftrightarrow>
     (\<forall>p q i. node_at s p = Some (File i) \<longrightarrow> node_at s q = Some (File i) \<longrightarrow> p = q)"

definition ready :: "fs \<Rightarrow> bool" where
  "ready s \<longleftrightarrow> fs_super s \<and> tree_ok s \<and> sane s \<and> unaliased s"

definition ready_node :: "fs \<Rightarrow> path \<Rightarrow> node \<Rightarrow> bool" where
  "ready_node s p nd =
     (plains p \<and> (p = [] \<or> is_dir_at s (butlast p)) \<and>
      (case nd of
         File i \<Rightarrow> i < fs_next s \<and> list_all (\<lambda>(q, nd'). nd' = File i \<longrightarrow> q = p) (fs_nodes s)
       | _ \<Rightarrow> True))"

definition ready_check :: "fs \<Rightarrow> bool" where
  "ready_check s =
     (fs_super s \<and> is_dir_at s [] \<and> list_all (\<lambda>(p, nd). ready_node s p nd) (fs_nodes s))"

lemma node_at_mem: "node_at s p = Some nd \<Longrightarrow> (p, nd) \<in> set (fs_nodes s)"
  by (auto simp: node_at_def dest: map_of_SomeD)

lemma ready_check_ready:
  assumes "ready_check s"
  shows "ready s"
proof -
  have all: "ready_node s p nd" if "node_at s p = Some nd" for p nd
    using assms node_at_mem [OF that] by (auto simp: ready_check_def list_all_iff)
  have "unaliased s"
    unfolding unaliased_def
  proof (intro allI impI)
    fix p q i
    assume "node_at s p = Some (File i)" and q: "node_at s q = Some (File i)"
    with all [of p "File i"] node_at_mem [OF q] show "p = q"
      by (auto simp: ready_node_def list_all_iff)
  qed
  moreover have "sane s" using all by (fastforce simp: sane_def ready_node_def)
  moreover have "tree_ok s"
    using assms all by (fastforce simp: tree_ok_def ready_check_def ready_node_def)
  ultimately show ?thesis using assms by (simp add: ready_def ready_check_def)
qed

lemma sample_fs_ready: "ready sample_fs"
  by (rule ready_check_ready) code_simp

end
