(* ===== verification/Extract_Correct.thy ===== *)
theory Extract_Correct
  imports Extract Posix_Open
begin

text \<open>
  The properties of layer extraction: where entries can land, what a regular file, a whiteout and
  an opaque marker do to the tree, and the inputs for which the destination does not hold.
\<close>

section \<open>Names\<close>

text \<open>A name climbs when, read left to right, it goes above its start at some point.\<close>

fun climbs :: "nat \<Rightarrow> string list \<Rightarrow> bool" where
  "climbs d [] = False"
| "climbs d (c # cs) =
     (if c = [] \<or> c = ''.'' then climbs d cs
      else if c = ''..'' then (d = 0 \<or> climbs (d - 1) cs)
      else climbs (Suc d) cs)"

lemma foldl_dots_bottom:
  "n > 0 \<Longrightarrow> plains ps \<Longrightarrow> (\<forall>c \<in> set cs. slash \<notin> set c) \<Longrightarrow>
   \<exists>qs m. foldl (clean_step False) (ps @ replicate n ''..'') cs = qs @ replicate m ''..'' \<and> m > 0 \<and> plains qs"
proof (induction cs arbitrary: n ps)
  case (Cons c cs)
  have c: "slash \<notin> set c" "\<forall>c \<in> set cs. slash \<notin> set c" using Cons.prems(3) by simp_all
  consider "c = [] \<or> c = ''.''" | "c = ''..''" | "plain c"
    using c by (auto simp: plain_def)
  then show ?case
  proof cases
    case 1
    with Cons c show ?thesis by (auto simp: clean_step.simps)
  next
    case 2
    show ?thesis
    proof (cases ps)
      case Nil
      with 2 Cons.prems(1) have "clean_step False (ps @ replicate n ''..'') c = [] @ replicate (Suc n) ''..''"
        by (cases n) (auto simp: clean_step.simps)
      with Cons.IH [of "Suc n" "[]"] c show ?thesis by simp
    next
      case (Cons p qs)
      with 2 Cons.prems(2) have "clean_step False (ps @ replicate n ''..'') c = qs @ replicate n ''..''"
        by (auto simp: clean_step.simps plain_def)
      with Cons.IH [of n qs] Cons.prems c Cons show ?thesis by simp
    qed
  next
    case 3
    then have "clean_step False (ps @ replicate n ''..'') c = (c # ps) @ replicate n ''..''"
      by (simp add: path_simps)
    with Cons.IH [of n "c # ps"] Cons.prems 3 c show ?thesis by simp
  qed
qed auto

lemma foldl_climbs:
  assumes "plains ps" and "\<forall>c \<in> set cs. slash \<notin> set c"
  shows "\<exists>qs m. foldl (clean_step False) ps cs = qs @ replicate m ''..'' \<and> plains qs \<and>
    (m > 0 \<longleftrightarrow> climbs (length ps) cs)"
  using assms
proof (induction cs arbitrary: ps)
  case Nil
  then show ?case by (intro exI [where x = ps] exI [where x = 0]) simp
next
  case (Cons c cs)
  have c: "slash \<notin> set c" "\<forall>c \<in> set cs. slash \<notin> set c" using Cons.prems(2) by simp_all
  consider "c = [] \<or> c = ''.''" | "c = ''..''" | "plain c"
    using c by (auto simp: plain_def)
  then show ?case
  proof cases
    case 1
    with Cons c show ?thesis by (auto simp: clean_step.simps)
  next
    case 2
    show ?thesis
    proof (cases ps)
      case Nil
      with 2 foldl_dots_bottom [of "Suc 0" "[]" cs] c show ?thesis
        by (auto simp: path_simps)
    next
      case (Cons p qs)
      with 2 Cons.prems(1) have "clean_step False ps c = qs"
        by (auto simp: clean_step.simps plain_def)
      with Cons.IH [of qs] Cons.prems c Cons 2 show ?thesis by simp
    qed
  next
    case 3
    then have "c \<noteq> []" "c \<noteq> ''.''" "c \<noteq> ''..''" by (simp_all add: plain_def)
    with 3 Cons.IH [of "c # ps"] Cons.prems c show ?thesis by (simp add: path_simps)
  qed
qed

lemma clean_comps_climbs:
  assumes "\<forall>c \<in> set cs. slash \<notin> set c"
  obtains m ps where "clean_comps False cs = replicate m ''..'' @ ps" and "plains ps"
    and "m > 0 \<longleftrightarrow> climbs 0 cs"
  using foldl_climbs [of "[]" cs] assms that
  by (auto simp: clean_comps_def list_all_iff)

lemma clean_climbs:
  assumes "\<not> is_rooted n"
  shows "path_clean n = ''..'' \<or> has_prefix (path_clean n) ''../'' \<longleftrightarrow> climbs 0 (split_chr slash n)"
proof -
  let ?cs = "split_chr slash n"
  have free: "\<forall>c \<in> set ?cs. slash \<notin> set c" by (auto dest: split_chr_sep_free)
  obtain m ps where shape: "clean_comps False ?cs = replicate m ''..'' @ ps" "plains ps"
      "m > 0 \<longleftrightarrow> climbs 0 ?cs"
    using clean_comps_climbs [OF free] .
  note body = path_clean_parts [OF assms shape(2,1)]
  show ?thesis
  proof (cases m)
    case (Suc k)
    with shape(3) rel_path_climbs [of "path_clean n" k ps] body show ?thesis by simp
  next
    case 0
    have "\<not> has_prefix (rel_path ps) ''../''" "rel_path ps \<noteq> ''..''"
      using rel_path_split [OF shape(2)] shape(2)
      by (auto simp: has_prefix_def prefix_def plain_def split: if_splits)
    with 0 shape(3) body show ?thesis by simp
  qed
qed

text \<open>
  \<open>safeJoin\<close> refuses exactly the names that climb above the destination when read element by
  element (leading slashes apart), and maps every other name to the destination extended by the
  name's elements with \<open>.\<close> and \<open>..\<close> resolved, all of them ordinary file names.
\<close>

theorem safe_join_spec:
  assumes "plains D"
  shows "(if climbs 0 (split_chr slash (trim_left_chr slash name))
          then safe_join (abs_path D) name = Inl (Errorf ''tar entry escapes destination'' [])
          else safe_join (abs_path D) name = Inr (abs_path (D @ entry_comps name))
            \<and> plains (entry_comps name))"
proof -
  let ?n = "trim_left_chr slash name"
  have "\<not> is_rooted ?n" using trim_left_not_rooted by blast
  note cl = clean_climbs [OF this]
  show ?thesis
  proof (cases "safe_join (abs_path D) name")
    case (Inl e)
    with cl show ?thesis by (auto simp: safe_join_def Let_def split: if_splits)
  next
    case (Inr p)
    then have "\<not> climbs 0 (split_chr slash ?n)"
      using cl by (auto simp: safe_join_def Let_def split: if_splits)
    with Inr safe_join_below [OF assms Inr] show ?thesis by simp
  qed
qed

theorem safe_join_spec_witness:
  "safe_join (abs_path [''r'']) ''a/../../b'' = Inl (Errorf ''tar entry escapes destination'' [])
   \<and> safe_join (abs_path [''r'']) ''/a/./b/../c'' = Inr ''/r/a/c''"
proof -
  have "plains [''r'']" by code_simp
  note sj = safe_join_spec [OF this]
  have "climbs 0 (split_chr slash (trim_left_chr slash ''a/../../b''))"
    and "\<not> climbs 0 (split_chr slash (trim_left_chr slash ''/a/./b/../c''))"
    and "abs_path ([''r''] @ entry_comps ''/a/./b/../c'') = ''/r/a/c''"
    by code_simp+
  with sj [of "''a/../../b''"] sj [of "''/a/./b/../c''"] show ?thesis by simp
qed

section \<open>Confinement\<close>

text \<open>An executable form of the hypotheses about the file system, for concrete states.\<close>

definition node_check :: "path \<Rightarrow> path list \<Rightarrow> fs \<Rightarrow> path \<Rightarrow> node \<Rightarrow> bool" where
  "node_check D L s p nd =
     (plains p \<and>
      (case nd of
         File i \<Rightarrow> i < fs_next s \<and>
           list_all (\<lambda>(q, nd'). nd' = File i \<longrightarrow> (strict_prefix D p \<longleftrightarrow> strict_prefix D q)) (fs_nodes s)
       | Symlink _ \<Rightarrow> p \<in> set L
       | Dir _ \<Rightarrow> True))"

definition names_check :: "path \<Rightarrow> path list \<Rightarrow> fs \<Rightarrow> bool" where
  "names_check D L s = list_all (\<lambda>(p, nd). node_check D L s p nd) (fs_nodes s)"

definition fs_check :: "path \<Rightarrow> path list \<Rightarrow> fs \<Rightarrow> bool" where
  "fs_check D L s =
     (names_check D L s \<and> list_all (\<lambda>k. is_dir_at s (take k D)) [0 ..< Suc (length D)])"

lemma names_check_facts:
  assumes "names_check D L s"
  shows "sane s" and "unshared D s" and "links s \<subseteq> set L"
proof -
  have mem: "(p, nd) \<in> set (fs_nodes s)" if "node_at s p = Some nd" for p nd
    using that by (auto simp: node_at_def dest: map_of_SomeD)
  have all: "node_check D L s p nd" if "node_at s p = Some nd" for p nd
    using assms mem [OF that] by (auto simp: names_check_def list_all_iff)
  show "sane s" using all by (fastforce simp: sane_def node_check_def)
  show "unshared D s"
    unfolding unshared_def owned_def
  proof (intro allI impI notI)
    fix p i q
    assume "strict_prefix D p" "node_at s p = Some (File i)" "\<not> strict_prefix D q"
      "node_at s q = Some (File i)"
    with all [of p "File i"] mem [of q "File i"] show False
      by (auto simp: node_check_def list_all_iff)
  qed
  show "links s \<subseteq> set L" using all by (fastforce simp: links_def node_check_def)
qed

lemma fs_check_confined:
  assumes "fs_check D L s"
  shows "confined D (set L) s s"
proof -
  have "names_check D L s" and "dirs_to D s"
    using assms by (simp_all only: fs_check_def dirs_to_check)
  then show ?thesis by (intro confined_start names_check_facts)
qed

text \<open>
  C8. Extraction is confined: from a file system where the destination is a directory, no file
  below it is hard-linked from outside and the symbolic links are those of \<open>L\<close>, a stream that passes
  the name check changes no name and no file content outside the destination, whether it succeeds or
  stops at an error.  The check asks that no entry, whiteout target or link target goes through a
  place where a link may be, that a whiteout removes a sibling with an ordinary name, that a hard
  link's target is not below its own name, and that only a directory entry is the destination itself.
\<close>

theorem extract_confined:
  assumes "plains D" and "fs_check D L s" and "stream_ok D L items"
  shows "same_outside D s (snd (extract_tar items (abs_path D) s))"
  using confined_extract_tar [OF assms(1) prefix_order.refl assms(3) fs_check_confined [OF assms(2)]]
  by (auto simp: confined_def)

definition sample_header :: "string \<Rightarrow> typeflag \<Rightarrow> string \<Rightarrow> tar_header" where
  "sample_header name t l =
     \<lparr>hName = name, hLinkname = l, hMode = 0x1A4, hTypeflag = t, hModTime = 9\<rparr>"

definition sample_stream :: "tar_item list" where
  "sample_stream =
     [TarEntry (sample_header ''d/e/f'' TypeReg []) (''data'', None),
      TarEntry (sample_header ''l'' TypeSymlink ''d/e'') ([], None),
      TarEntry (sample_header ''.wh.a'' TypeReg []) ([], None)]"

theorem extract_confined_witness:
  "same_outside [''r''] sample_fs (snd (extract_tar sample_stream ''/r'' sample_fs))
   \<and> node_at (snd (extract_tar sample_stream ''/r'' sample_fs)) [''r'', ''a''] = None"
proof -
  have "plains [''r'']" "fs_check [''r''] [] sample_fs" "stream_ok [''r''] [] sample_stream"
      and a: "abs_path [''r''] = ''/r''"
      and n: "node_at (snd (extract_tar sample_stream ''/r'' sample_fs)) [''r'', ''a''] = None"
    by code_simp+
  from extract_confined [OF this(1-3)] n show ?thesis by (simp only: a simp_thms)
qed

text \<open>
  Without the condition on links the destination does not hold: a layer whose first entry is a
  link to a directory outside and whose second entry goes through it overwrites a file outside.
  Both names pass \<open>safeJoin\<close>.
\<close>

theorem symlink_escapes:
  "content_at sample_fs [''etc'', ''pw''] = Some ''secret''
   \<and> (case extract_tar
         [TarEntry (sample_header ''l'' TypeSymlink ''/etc'') r,
          TarEntry (sample_header ''l/pw'' TypeReg []) (b, None)] ''/r'' sample_fs of
       (res, s') \<Rightarrow> res = Inr () \<and> content_at s' [''etc'', ''pw''] = Some b)"
  by code_simp

section \<open>Replacing an existing file\<close>

lemma may_edit_del: "p \<noteq> [] \<Longrightarrow> may_edit (del_node p s) p = may_edit s p"
  using not_prefix_butlast [of p]
  by (auto simp: may_edit_def fs_simps allowed_def split: option.splits node.splits)

lemma path_open_del: "path_open (del_node p s) p = path_open s p"
proof -
  have "searchable (del_node p s) q = searchable s q" if "strict_prefix q p" for q
    using that by (intro searchable_same_nodes) (auto simp: fs_simps)
  then show ?thesis by (auto simp: path_open_iff)
qed

text \<open>
  Opening the file of an entry over an existing one: a file its owner may write is truncated in
  place, so it keeps its inode, its mode and the other names it is linked under; only a file that
  may not be written is unlinked and made anew with the entry's mode.
\<close>

theorem open_existing:
  assumes "p \<noteq> []" and "plains p" and "path_open s p" and "may_edit s p" and "\<not> has_child s p"
    and "node_at s p = Some (File i)"
  shows "open_replacing (abs_path p) mode s =
    (if allowed s w_bit (i_mode (fs_inodes s i)) then (Inr i, truncate_file i s)
     else (Inr (fs_next s), create_file p mode (del_node p s)))"
proof (cases "allowed s w_bit (i_mode (fs_inodes s i))")
  case True
  with assms show ?thesis
    by (simp add: open_replacing_def os_open_trunc_def walk_open_Some io_defs)
next
  case False
  have "os_open_trunc (abs_path p) mode s = (Inl (Sys EACCES (abs_path p)), s)"
    using assms False by (simp add: os_open_trunc_def walk_open_Some)
  moreover have "os_remove (abs_path p) s = (Inr (), del_node p s)"
    using assms by (simp add: os_remove_def walk_open_Some)
  moreover have "os_open_trunc (abs_path p) mode (del_node p s) =
      (Inr (fs_next s), create_file p mode (del_node p s))"
    using assms by (simp add: os_open_trunc_def walk_open_None fs_simps path_open_del may_edit_del)
  ultimately show ?thesis
    using False by (simp add: open_replacing_def io_defs is_permission_def)
qed

theorem open_existing_witness:
  "open_replacing ''/r/a'' 0x1A4 sample_fs = (Inr 0, truncate_file 0 sample_fs)"
proof -
  let ?p = "[''r'', ''a'']"
  have "?p \<noteq> []" "plains ?p" "path_open sample_fs ?p" "may_edit sample_fs ?p" "\<not> has_child sample_fs ?p"
      "node_at sample_fs ?p = Some (File 0)"
      and a: "abs_path ?p = ''/r/a''" "allowed sample_fs w_bit (i_mode (fs_inodes sample_fs 0))"
    by code_simp+
  from open_existing [OF this(1-6)] a show ?thesis by simp
qed

end
