(* ===== verification/Extract_Loop.thy ===== *)
theory Extract_Loop
  imports Extract_Correct
begin

text \<open>
  The loop of \<open>extractTar\<close> as it is written: it asks the reader for the next entry until the reader
  says it is at the end.  The reader is a parameter with a state of its own, and nothing bounds the
  loop but the reader, so it is a partial function: \<open>None\<close> when it never returns.  On a reader that
  comes to an end the loop returns, and computes \<open>extract_tar\<close> of the entries delivered.
\<close>

datatype 'r tar_event =
    AtEnd
  | Broken error
  | Entry tar_header stream 'r

partial_function (option) extract_loop ::
  "('r \<Rightarrow> 'r tar_event) \<Rightarrow> string \<Rightarrow> 'r \<Rightarrow> fs \<Rightarrow> ((error + unit) \<times> fs) option" where
  [code]: "extract_loop step dest r s =
     (case step r of
        AtEnd \<Rightarrow> Some (Inr (), s)
      | Broken err \<Rightarrow> Some (Inl (Wrapf ''tar: %w'' [] err), s)
      | Entry hdr tr r' \<Rightarrow>
          (case io_wrap (Wrapf ''entry %q: %w'' [hName hdr]) (apply_entry tr hdr dest) s of
             (Inl e, s') \<Rightarrow> Some (Inl e, s')
           | (Inr _, s') \<Rightarrow> extract_loop step dest r' s'))"

text \<open>The reader delivers these entries and then ends, or breaks.\<close>

inductive delivers :: "('r \<Rightarrow> 'r tar_event) \<Rightarrow> 'r \<Rightarrow> tar_item list \<Rightarrow> bool" for step where
  ends: "step r = AtEnd \<Longrightarrow> delivers step r []"
| breaks: "step r = Broken err \<Longrightarrow> delivers step r [TarError err]"
| more: "step r = Entry hdr tr r' \<Longrightarrow> delivers step r' items \<Longrightarrow> delivers step r (TarEntry hdr tr # items)"

declare delivers.intros [intro]

inductive_cases deliversE: "delivers step r items"

lemma loop_delivers:
  "delivers step r items \<Longrightarrow> extract_loop step dest r s = Some (extract_tar items dest s)"
proof (induction arbitrary: s rule: delivers.induct)
  case (more r hdr tr r' items)
  then show ?case
    by (subst extract_loop.simps) (simp add: io_bind_def split: prod.split sum.split)
qed (subst extract_loop.simps, simp add: io_return_def io_throw_def)+

text \<open>When the loop returns, an entry was refused or the reader came to its end: what it returns is then
  the result on the entries up to there.\<close>

lemma loop_returns:
  assumes "extract_loop step dest r s = Some y"
  shows "\<exists>items. extract_tar items dest s = y \<and> (delivers step r items \<or> isl (fst y))"
  using assms
proof (rule extract_loop.raw_induct [where P = "\<lambda>step dest r s y.
    \<exists>items. extract_tar items dest s = y \<and> (delivers step r items \<or> isl (fst y))", rotated])
  fix f and step :: "'r \<Rightarrow> 'r tar_event" and dest r s y
  let ?P = "\<lambda>step dest r s y. \<exists>items. extract_tar items dest s = y \<and> (delivers step r items \<or> isl (fst y))"
  assume IH: "\<And>step dest r s y. f step dest r s = Some y \<Longrightarrow> ?P step dest r s y"
    and body: "(case step r of
        AtEnd \<Rightarrow> Some (Inr (), s)
      | Broken err \<Rightarrow> Some (Inl (Wrapf ''tar: %w'' [] err), s)
      | Entry hdr tr r' \<Rightarrow>
          (case io_wrap (Wrapf ''entry %q: %w'' [hName hdr]) (apply_entry tr hdr dest) s of
             (Inl e, s') \<Rightarrow> Some (Inl e, s')
           | (Inr _, s') \<Rightarrow> f step dest r' s')) = Some y"
  show "?P step dest r s y"
  proof (cases "step r")
    case AtEnd
    with body have "extract_tar [] dest s = y" "delivers step r []" by (auto simp: io_return_def)
    then show ?thesis by blast
  next
    case (Broken err)
    with body have "extract_tar [TarError err] dest s = y" "delivers step r [TarError err]" by (auto simp: io_throw_def)
    then show ?thesis by blast
  next
    case (Entry hdr tr r')
    let ?m = "io_wrap (Wrapf ''entry %q: %w'' [hName hdr]) (apply_entry tr hdr dest) s"
    obtain u s1 where m: "?m = (u, s1)" by (cases ?m)
    show ?thesis
    proof (cases u)
      case (Inl e)
      with body Entry m have "extract_tar [TarEntry hdr tr] dest s = y" "isl (fst y)"
        by (auto simp: io_bind_def)
      then show ?thesis by blast
    next
      case (Inr x)
      with body Entry m have "f step dest r' s1 = Some y" by simp
      from IH [OF this] obtain items where
        i: "extract_tar items dest s1 = y" "delivers step r' items \<or> isl (fst y)" by blast
      have "extract_tar (TarEntry hdr tr # items) dest s = y"
        using i(1) Inr m by (simp add: io_bind_def)
      with i(2) more [of step r, OF Entry] show ?thesis by blast
    qed
  qed
qed

text \<open>
  C27. Extraction returns: on a reader that comes to its end, or breaks, after any number of entries,
  the loop returns, with the result of handling those entries in order; and it reports success only
  when the reader did come to its end.
\<close>

theorem extract_loop_returns:
  "(if \<exists>items. delivers step r items
    then \<exists>items. delivers step r items \<and> extract_loop step dest r s = Some (extract_tar items dest s)
    else case extract_loop step dest r s of None \<Rightarrow> True | Some y \<Rightarrow> isl (fst y))"
  using loop_delivers [of step r _ dest s] loop_returns [of step dest r s]
  by (fastforce split: option.split)

end
