(* ===== verification/Config_Spec.thy ===== *)
theory Config_Spec
  imports Posix_Open
begin

text \<open>
  The process a container runs (\<open>configspec.go\<close>): from the image's entrypoint, command, environment,
  directory and user, with named users and groups looked up in the \<open>etc/passwd\<close> and \<open>etc/group\<close> of
  the extracted file system.  Both files are scanned in the same way; the locale \<open>line_db\<close> states it
  once and is interpreted for each.
\<close>

section \<open>Scanning a file by lines\<close>

text \<open>
  \<open>os.Open\<close> followed by a \<open>bufio.Scanner\<close> over the file: the lines it delivers and the error
  \<open>sc.Err()\<close> reports after them.  A directory can be opened, but not read.
\<close>

definition open_lines :: "string \<Rightarrow> (fs, string list \<times> error option) io" where
  "open_lines p = (\<lambda>s. case walk s True p of
       Inl e \<Rightarrow> (Inl (Sys e p), s)
     | Inr (Absent _) \<Rightarrow> (Inl (Sys ENOENT p), s)
     | Inr (At _ (Symlink _)) \<Rightarrow> (Inl (Sys ELOOP p), s)
     | Inr (At _ (Dir m)) \<Rightarrow>
         if allowed s r_bit m then (Inr ([], Some (Sys EISDIR p)), s) else (Inl (Sys EACCES p), s)
     | Inr (At _ (File i)) \<Rightarrow>
         if allowed s r_bit (i_mode (fs_inodes s i))
         then (case scan_lines (i_data (fs_inodes s i)) of (ls, long) \<Rightarrow>
                (Inr (ls, if long then Some (Errorf ''bufio.Scanner: token too long'' []) else None), s))
         else (Inl (Sys EACCES p), s))"

section \<open>The process specification\<close>

record image_config =
  ic_user :: string
  ic_env :: "string list"
  ic_entrypoint :: "string list"
  ic_cmd :: "string list"
  ic_working_dir :: string

record process_spec =
  ps_args :: "string list"
  ps_env :: "string list"
  ps_cwd :: string
  ps_uid :: u32
  ps_gid :: u32

definition parse_image_user :: "string \<Rightarrow> error + u32 \<times> u32" where
  "parse_image_user u =
     (let (left, right, hasGID) =
        (case cut_chr CHR '':'' u of Some (l, r) \<Rightarrow> (l, r, True) | None \<Rightarrow> (u, [], False))
      in case parse_uint32 left of
           None \<Rightarrow> Inl (Errorf ''named users not supported yet (got %q); use uid[:gid] for now'' [u])
         | Some uid \<Rightarrow>
             if hasGID then
               (case parse_uint32 right of
                  None \<Rightarrow> Inl (Errorf ''named gid not supported yet (got %q after the colon)'' [right])
                | Some gid \<Rightarrow> Inr (uid, gid))
             else Inr (uid, 0))"

text \<open>The Go function returns what it has filled in even with an error, and its caller uses it.\<close>

definition process_from_image_config :: "image_config \<Rightarrow> process_spec \<times> error option" where
  "process_from_image_config c =
     (let args = ic_entrypoint c @ ic_cmd c;
          p = \<lparr>ps_args = (if args = [] then [''/bin/sh''] else args),
               ps_env = (if ic_env c \<noteq> [] then ic_env c
                         else [''PATH=/usr/local/sbin:/usr/local/bin:/usr/sbin:/usr/bin:/sbin:/bin'']),
               ps_cwd = (if ic_working_dir c = [] then ''/'' else ic_working_dir c),
               ps_uid = 0, ps_gid = 0\<rparr>
      in if ic_user c \<noteq> [] then
           (case parse_image_user (ic_user c) of
              Inl err \<Rightarrow> (p, Some (Wrapf ''image config User=%q: %w'' [ic_user c] err))
            | Inr (uid, gid) \<Rightarrow> (p\<lparr>ps_uid := uid, ps_gid := gid\<rparr>, None))
         else (p, None))"

section \<open>The identity databases\<close>

text \<open>A line without surrounding space, unless it is empty or a comment.\<close>

definition entry_line :: "string \<Rightarrow> string option" where
  "entry_line l =
     (let line = trim_space l in if line = [] \<or> has_prefix line ''#'' then None else Some line)"

text \<open>The body of the loop on one such line: \<open>None\<close> goes on to the next line.\<close>

definition passwd_entry :: "string \<Rightarrow> string \<Rightarrow> (error + u32 \<times> u32) option" where
  "passwd_entry name line =
     (let fields = splitn_chr CHR '':'' 7 line in
      if length fields < 4 then None
      else if fields ! 0 \<noteq> name then None
      else (case parse_uint32 (fields ! 2) of
              None \<Rightarrow> Some (Inl (Errorf ''passwd : %s : malformed uid %q'' [name, fields ! 2]))
            | Some uid \<Rightarrow>
               (case parse_uint32 (fields ! 3) of
                  None \<Rightarrow> Some (Inl (Errorf ''passwd : %s : malformed gid %q'' [name, fields ! 3]))
                | Some gid \<Rightarrow> Some (Inr (uid, gid)))))"

fun passwd_scan :: "string \<Rightarrow> string list \<Rightarrow> (error + u32 \<times> u32) option" where
  "passwd_scan name [] = None"
| "passwd_scan name (l # ls) =
     (case entry_line l of
        None \<Rightarrow> passwd_scan name ls
      | Some line \<Rightarrow>
         (case passwd_entry name line of None \<Rightarrow> passwd_scan name ls | Some r \<Rightarrow> Some r))"

definition lookup_passwd :: "string \<Rightarrow> string \<Rightarrow> (fs, u32 \<times> u32) io" where
  "lookup_passwd name rootfs =
     io_bind (io_wrap (Wrapf ''open passwd: %w'' [])
       (open_lines (path_join [rootfs, ''etc'', ''passwd'']))) (\<lambda>(ls, err).
     case passwd_scan name ls of
       Some r \<Rightarrow> io_lift r
     | None \<Rightarrow>
        (case err of
           Some e \<Rightarrow> io_throw (Wrapf ''read passwd: %w'' [] e)
         | None \<Rightarrow> io_throw (Errorf ''passwd : user %q not found'' [name])))"

definition group_entry :: "string \<Rightarrow> string \<Rightarrow> (error + u32) option" where
  "group_entry name line =
     (let fields = splitn_chr CHR '':'' 4 line in
      if length fields < 3 \<or> fields ! 0 \<noteq> name then None
      else (case parse_uint32 (fields ! 2) of
              None \<Rightarrow> Some (Inl (Errorf ''group : %s : malformed gid %q'' [name, fields ! 2]))
            | Some gid \<Rightarrow> Some (Inr gid)))"

fun group_scan :: "string \<Rightarrow> string list \<Rightarrow> (error + u32) option" where
  "group_scan name [] = None"
| "group_scan name (l # ls) =
     (case entry_line l of
        None \<Rightarrow> group_scan name ls
      | Some line \<Rightarrow> (case group_entry name line of None \<Rightarrow> group_scan name ls | Some r \<Rightarrow> Some r))"

definition lookup_group :: "string \<Rightarrow> string \<Rightarrow> (fs, u32) io" where
  "lookup_group name rootfs =
     io_bind (io_wrap (Wrapf ''open group: %w'' [])
       (open_lines (path_join [rootfs, ''etc'', ''group'']))) (\<lambda>(ls, err).
     case group_scan name ls of
       Some r \<Rightarrow> io_lift r
     | None \<Rightarrow>
        (case err of
           Some e \<Rightarrow> io_throw (Wrapf ''read group: %w'' [] e)
         | None \<Rightarrow> io_throw (Errorf ''group : %q not found'' [name])))"

definition resolve_user :: "string \<Rightarrow> string \<Rightarrow> (fs, u32) io" where
  "resolve_user name rootfs =
     (case parse_uint32 name of
        Some n \<Rightarrow> io_return n
      | None \<Rightarrow> io_bind (lookup_passwd name rootfs) (\<lambda>(uid, _). io_return uid))"

definition resolve_group :: "string \<Rightarrow> string \<Rightarrow> (fs, u32) io" where
  "resolve_group name rootfs =
     (case parse_uint32 name of
        Some n \<Rightarrow> io_return n
      | None \<Rightarrow> lookup_group name rootfs)"

definition primary_gid_from_passwd :: "string \<Rightarrow> string \<Rightarrow> (fs, u32) io" where
  "primary_gid_from_passwd name rootfs =
     io_bind (lookup_passwd name rootfs) (\<lambda>(_, gid). io_return gid)"

definition resolve_named_user :: "string \<Rightarrow> string \<Rightarrow> (fs, u32 \<times> u32) io" where
  "resolve_named_user u rootfs =
     (let (left, right, hasGID) =
        (case cut_chr CHR '':'' u of Some (l, r) \<Rightarrow> (l, r, True) | None \<Rightarrow> (u, [], False))
      in io_bind (resolve_user left rootfs) (\<lambda>uid.
         if \<not> hasGID then
           io_bind (io_try (primary_gid_from_passwd left rootfs)) (\<lambda>r. case r of
             Inl _ \<Rightarrow> io_return (uid, 0)
           | Inr gid \<Rightarrow> io_return (uid, gid))
         else io_bind (resolve_group right rootfs) (\<lambda>gid. io_return (uid, gid))))"

definition process_from_image_config_with_rootfs ::
  "image_config \<Rightarrow> string \<Rightarrow> (fs, process_spec) io" where
  "process_from_image_config_with_rootfs c rootfs =
     (case process_from_image_config c of
        (p, None) \<Rightarrow> io_return p
      | (p, Some err) \<Rightarrow>
          if rootfs = [] then io_throw err
          else if ic_user c = [] then io_throw err
          else io_bind (io_try (resolve_named_user (ic_user c) rootfs)) (\<lambda>r. case r of
            Inl lookupErr \<Rightarrow>
              io_throw (Wrapv ''image config User=%q: %w (rootfs lookup also failed : %v)''
                [ic_user c] err lookupErr)
          | Inr (uid, gid) \<Rightarrow> io_return (p\<lparr>ps_uid := uid, ps_gid := gid\<rparr>)))"

text \<open>Overrides from the command line: the second argument is \<open>Args.Cmd\<close>.\<close>

definition apply_user_overrides :: "process_spec \<Rightarrow> string list \<Rightarrow> process_spec" where
  "apply_user_overrides base cmd = (if cmd \<noteq> [] then base\<lparr>ps_args := cmd\<rparr> else base)"

end
