(* ===== verification/Config_Users.thy ===== *)
theory Config_Users
  imports Config_Spec
begin

text \<open>
  The properties of the process specification: scanning an identity database finds the first entry
  of a name, the two databases are instances of one contract, and every form of the image's user
  field resolves to what the databases say.
\<close>

section \<open>Databases of lines\<close>

locale line_db =
  fixes scan :: "string \<Rightarrow> string list \<Rightarrow> 'r option"
    and entry :: "string \<Rightarrow> string \<Rightarrow> 'r option"
  assumes scan_Nil: "scan name [] = None"
    and scan_Cons: "scan name (l # ls) =
      (case Option.bind (entry_line l) (entry name) of None \<Rightarrow> scan name ls | Some r \<Rightarrow> Some r)"
begin

lemma scan_append: "scan name (xs @ ys) = (case scan name xs of None \<Rightarrow> scan name ys | Some r \<Rightarrow> Some r)"
  by (induction xs) (auto simp: scan_Nil scan_Cons split: option.splits)

lemma scan_skip: "entry_line l = None \<Longrightarrow> scan name (xs @ l # ys) = scan name (xs @ ys)"
  by (simp add: scan_append scan_Cons split: option.splits)

lemma scan_None_iff:
  "scan name ls = None \<longleftrightarrow> (\<forall>l \<in> set ls. Option.bind (entry_line l) (entry name) = None)"
  by (induction ls) (auto simp: scan_Nil scan_Cons split: option.splits)

text \<open>Over lines that stand for the records \<open>es\<close>, scanning is looking for the first record.\<close>

lemma scan_records:
  assumes "\<And>e. e \<in> set es \<Longrightarrow> entry_line (txt e) = Some (txt e)"
    and "\<And>e. e \<in> set es \<Longrightarrow> entry name (txt e) = (if key e = name then Some (val e) else None)"
  shows "scan name (map txt es) = map_option val (List.find (\<lambda>e. key e = name) es)"
  using assms by (induction es) (auto simp: scan_Nil scan_Cons)

end

interpretation passwd: line_db passwd_scan passwd_entry
  by unfold_locales (auto split: option.splits)

interpretation group: line_db group_scan group_entry
  by unfold_locales (auto split: option.splits)

section \<open>Well-formed databases\<close>

definition newline :: char where "newline = CHR 0x0A"

lemma newline_char: "char_of (10 :: nat) = newline"
  by code_simp

text \<open>A record: name, numbers and the rest of the line.\<close>

record id_record =
  r_name :: string
  r_uid :: u32
  r_gid :: u32
  r_rest :: string

definition passwd_text :: "id_record \<Rightarrow> string" where
  "passwd_text e = r_name e @ '':x:'' @ fmt_u32 (r_uid e) @ '':'' @ fmt_u32 (r_gid e) @ '':'' @ r_rest e"

definition group_text :: "id_record \<Rightarrow> string" where
  "group_text e = r_name e @ '':x:'' @ fmt_u32 (r_gid e) @ '':'' @ r_rest e"

text \<open>The lines that stand for themselves: no line break in them, no space around them, not a
  comment, and short enough for the scanner.\<close>

definition tidy :: "string \<Rightarrow> bool" where
  "tidy l = (newline \<notin> set l \<and> entry_line l = Some l \<and> drop_cr l = l \<and> length l < max_token)"

definition records_ok :: "(id_record \<Rightarrow> string) \<Rightarrow> id_record list \<Rightarrow> bool" where
  "records_ok txt es = list_all (\<lambda>e. CHR '':'' \<notin> set (r_name e) \<and> tidy (txt e)) es"

definition db_file :: "(id_record \<Rightarrow> string) \<Rightarrow> id_record list \<Rightarrow> string" where
  "db_file txt es = concat (map (\<lambda>e. txt e @ [newline]) es)"

lemma split_lines:
  "\<forall>l \<in> set ls. c \<notin> set l \<Longrightarrow> split_chr c (concat (map (\<lambda>l. l @ [c]) ls)) = ls @ [[]]"
  by (induction ls) auto

lemma scan_db_file:
  assumes "records_ok txt es"
  shows "scan_lines (db_file txt es) = (map txt es, False)"
proof -
  have tidy: "tidy l" if "l \<in> set (map txt es)" for l
    using assms that by (auto simp: records_ok_def list_all_iff)
  then have "split_chr newline (db_file txt es) = map txt es @ [[]]"
    using split_lines [of "map txt es" newline] by (simp add: db_file_def tidy_def comp_def)
  then have raw: "raw_lines (db_file txt es) = map txt es"
    by (simp add: raw_lines_def newline_char Let_def)
  have "takeWhile (\<lambda>l. length l < max_token) (map txt es) = map txt es"
    using tidy by (simp add: takeWhile_eq_all_conv tidy_def)
  moreover have "map drop_cr (map txt es) = map txt es"
    using tidy by (intro map_idI) (simp add: tidy_def)
  moreover have "\<not> (\<exists>l \<in> set (map txt es). max_token \<le> length l)"
    using tidy by (auto simp: tidy_def not_le)
  ultimately show ?thesis by (simp only: scan_lines_def raw Let_def)
qed

lemma colon_free_num: "CHR '':'' \<notin> set (fmt_u32 w)"
  unfolding fmt_u32_def by (rule dec_of_nat_char_free) (simp add: is_digit_def)

lemma passwd_entry_text:
  assumes "CHR '':'' \<notin> set (r_name e)"
  shows "passwd_entry name (passwd_text e) = (if r_name e = name then Some (Inr (r_uid e, r_gid e)) else None)"
proof -
  have "splitn_chr CHR '':'' 7 (passwd_text e) =
      r_name e # ''x'' # fmt_u32 (r_uid e) # fmt_u32 (r_gid e) # splitn_chr CHR '':'' 3 (r_rest e)"
    using assms colon_free_num by (simp add: passwd_text_def eval_nat_numeral)
  then show ?thesis by (auto simp: passwd_entry_def Let_def)
qed

lemma group_entry_text:
  assumes "CHR '':'' \<notin> set (r_name e)"
  shows "group_entry name (group_text e) = (if r_name e = name then Some (Inr (r_gid e)) else None)"
proof -
  have "splitn_chr CHR '':'' 4 (group_text e) = [r_name e, ''x'', fmt_u32 (r_gid e), r_rest e]"
    using assms colon_free_num by (simp add: group_text_def eval_nat_numeral)
  then show ?thesis by (auto simp: group_entry_def Let_def)
qed

lemma passwd_scan_db:
  "records_ok passwd_text es \<Longrightarrow> passwd_scan name (map passwd_text es) =
     map_option (\<lambda>e. Inr (r_uid e, r_gid e)) (List.find (\<lambda>e. r_name e = name) es)"
  by (intro passwd.scan_records)
    (auto simp: records_ok_def list_all_iff tidy_def passwd_entry_text)

lemma group_scan_db:
  "records_ok group_text es \<Longrightarrow> group_scan name (map group_text es) =
     map_option (\<lambda>e. Inr (r_gid e)) (List.find (\<lambda>e. r_name e = name) es)"
  by (intro group.scan_records)
    (auto simp: records_ok_def list_all_iff tidy_def group_entry_text)

section \<open>The databases of a root file system\<close>

definition has_db :: "fs \<Rightarrow> path \<Rightarrow> string \<Rightarrow> (id_record \<Rightarrow> string) \<Rightarrow> id_record list \<Rightarrow> bool" where
  "has_db s R file txt es =
     (readable_at s (R @ [''etc'', file]) \<and> content_at s (R @ [''etc'', file]) = Some (db_file txt es)
      \<and> records_ok txt es)"

lemma path_join_etc:
  "plains R \<Longrightarrow> plain file \<Longrightarrow> path_join [abs_path R, ''etc'', file] = abs_path (R @ [''etc'', file])"
  using path_join_rel [of R "[''etc'', file]"] by (simp add: rel_path_def path_join_def plain_def)

lemma open_lines_db:
  assumes "plains R" and "plain file" and "has_db s R file txt es"
  shows "open_lines (path_join [abs_path R, ''etc'', file]) s = (Inr (map txt es, None), s)"
proof -
  from assms(3) obtain i where "node_at s (R @ [''etc'', file]) = Some (File i)"
      "allowed s r_bit (i_mode (fs_inodes s i))" "i_data (fs_inodes s i) = db_file txt es"
      and p: "plains (R @ [''etc'', file])" "path_open s (R @ [''etc'', file])"
    by (auto simp: has_db_def readable_at_def content_at_def split: option.splits node.splits)
  moreover have "scan_lines (db_file txt es) = (map txt es, False)"
    using assms(3) by (intro scan_db_file) (simp add: has_db_def)
  ultimately show ?thesis
    by (simp add: path_join_etc [OF assms(1,2)] open_lines_def walk_open_Some)
qed

lemma lookup_passwd_run:
  assumes "plains R" and "has_db s R ''passwd'' passwd_text es"
  shows "lookup_passwd name (abs_path R) s =
    ((case List.find (\<lambda>e. r_name e = name) es of
        Some e \<Rightarrow> Inr (r_uid e, r_gid e)
      | None \<Rightarrow> Inl (Errorf ''passwd : user %q not found'' [name])), s)"
  using open_lines_db [OF assms(1) _ assms(2)] passwd_scan_db [of es name] assms(2)
  by (simp add: lookup_passwd_def io_bind_def io_wrap_def io_lift_def io_throw_def has_db_def plain_def
      split: option.splits)

lemma lookup_group_run:
  assumes "plains R" and "has_db s R ''group'' group_text es"
  shows "lookup_group name (abs_path R) s =
    ((case List.find (\<lambda>e. r_name e = name) es of
        Some e \<Rightarrow> Inr (r_gid e)
      | None \<Rightarrow> Inl (Errorf ''group : %q not found'' [name])), s)"
  using open_lines_db [OF assms(1) _ assms(2)] group_scan_db [of es name] assms(2)
  by (simp add: lookup_group_def io_bind_def io_wrap_def io_lift_def io_throw_def has_db_def plain_def
      split: option.splits)

section \<open>Resolving the user field\<close>

datatype id_ref = IdNum u32 | IdName string

fun show_id :: "id_ref \<Rightarrow> string" where
  "show_id (IdNum n) = fmt_u32 n"
| "show_id (IdName x) = x"

fun show_user :: "id_ref \<Rightarrow> id_ref option \<Rightarrow> string" where
  "show_user u None = show_id u"
| "show_user u (Some g) = show_id u @ '':'' @ show_id g"

fun id_ok :: "id_ref \<Rightarrow> bool" where
  "id_ok (IdNum n) = True"
| "id_ok (IdName x) = (x \<noteq> [] \<and> CHR '':'' \<notin> set x \<and> parse_uint32 x = None)"

fun group_ok :: "id_ref option \<Rightarrow> bool" where
  "group_ok None = True"
| "group_ok (Some h) = id_ok h"

text \<open>What the two databases say.\<close>

definition find_name :: "string \<Rightarrow> id_record list \<Rightarrow> id_record option" where
  "find_name x es = List.find (\<lambda>e. r_name e = x) es"

fun user_ids :: "id_record list \<Rightarrow> id_ref \<Rightarrow> (u32 \<times> u32) option" where
  "user_ids pes (IdNum n) = Some (n, 0)"
| "user_ids pes (IdName x) = map_option (\<lambda>e. (r_uid e, r_gid e)) (find_name x pes)"

fun group_id :: "id_record list \<Rightarrow> id_ref \<Rightarrow> u32 option" where
  "group_id ges (IdNum n) = Some n"
| "group_id ges (IdName x) = map_option r_gid (find_name x ges)"

definition identity ::
  "id_record list \<Rightarrow> id_record list \<Rightarrow> id_ref \<Rightarrow> id_ref option \<Rightarrow> (u32 \<times> u32) option" where
  "identity pes ges u g =
     (case user_ids pes u of
        None \<Rightarrow> None
      | Some (uid, gid) \<Rightarrow>
         (case g of None \<Rightarrow> Some (uid, gid) | Some h \<Rightarrow> map_option (Pair uid) (group_id ges h)))"

text \<open>The fields other than the user.\<close>

definition base_process :: "image_config \<Rightarrow> process_spec" where
  "base_process c = fst (process_from_image_config (c\<lparr>ic_user := []\<rparr>))"

lemma cut_show_user:
  "id_ok u \<Longrightarrow> (case cut_chr CHR '':'' (show_user u g) of Some (l, r) \<Rightarrow> (l, r, True) | None \<Rightarrow> (show_user u g, [], False))
    = (case g of None \<Rightarrow> (show_id u, [], False) | Some h \<Rightarrow> (show_id u, show_id h, True))"
proof -
  assume "id_ok u"
  then have "CHR '':'' \<notin> set (show_id u)" by (cases u) (simp_all add: colon_free_num)
  then show ?thesis by (cases g) (simp_all add: cut_chr_None_iff [THEN iffD2])
qed

lemma parse_show_id: "id_ok u \<Longrightarrow> parse_uint32 (show_id u) = (case u of IdNum n \<Rightarrow> Some n | IdName _ \<Rightarrow> None)"
  by (cases u) auto

lemma show_user_nonempty: "id_ok u \<Longrightarrow> show_user u g \<noteq> []"
  by (cases u; cases g) (auto simp: fmt_u32_def)

lemma process_by_user:
  "ic_user c \<noteq> [] \<Longrightarrow> process_from_image_config c =
     (case parse_image_user (ic_user c) of
        Inl err \<Rightarrow> (base_process c, Some (Wrapf ''image config User=%q: %w'' [ic_user c] err))
      | Inr (uid, gid) \<Rightarrow> ((base_process c)\<lparr>ps_uid := uid, ps_gid := gid\<rparr>, None))"
  by (simp add: process_from_image_config_def base_process_def Let_def split: sum.splits)

lemma parse_image_user_show:
  assumes "id_ok u"
  shows "parse_image_user (show_user u g) =
    (case parse_uint32 (show_id u) of
       None \<Rightarrow> Inl (Errorf ''named users not supported yet (got %q); use uid[:gid] for now'' [show_user u g])
     | Some uid \<Rightarrow>
        (case g of
           None \<Rightarrow> Inr (uid, 0)
         | Some h \<Rightarrow>
             (case parse_uint32 (show_id h) of
                None \<Rightarrow> Inl (Errorf ''named gid not supported yet (got %q after the colon)'' [show_id h])
              | Some gid \<Rightarrow> Inr (uid, gid))))"
  unfolding parse_image_user_def cut_show_user [OF assms]
  by (cases g) (simp_all split: option.splits)

lemma resolve_named_user_show:
  assumes "id_ok u"
  shows "resolve_named_user (show_user u g) R =
    io_bind (resolve_user (show_id u) R) (\<lambda>uid.
      case g of
        None \<Rightarrow> io_bind (io_try (primary_gid_from_passwd (show_id u) R)) (\<lambda>r. case r of
          Inl _ \<Rightarrow> io_return (uid, 0) | Inr gid \<Rightarrow> io_return (uid, gid))
      | Some h \<Rightarrow> io_bind (resolve_group (show_id h) R) (\<lambda>gid. io_return (uid, gid)))"
  unfolding resolve_named_user_def cut_show_user [OF assms]
  by (cases g) simp_all

lemma resolve_user_run:
  assumes "plains R" and "has_db s R ''passwd'' passwd_text pes" and "id_ok u"
  shows "resolve_user (show_id u) (abs_path R) s =
    (case user_ids pes u of
       Some (uid, _) \<Rightarrow> Inr uid
     | None \<Rightarrow> Inl (Errorf ''passwd : user %q not found'' [show_id u]), s)"
  using assms(3) lookup_passwd_run [OF assms(1,2)]
  by (cases u) (auto simp: resolve_user_def find_name_def io_bind_def io_return_def split: option.splits)

lemma resolve_group_run:
  assumes "plains R" and "has_db s R ''group'' group_text ges" and "id_ok h"
  shows "resolve_group (show_id h) (abs_path R) s =
    (case group_id ges h of
       Some gid \<Rightarrow> Inr gid
     | None \<Rightarrow> Inl (Errorf ''group : %q not found'' [show_id h]), s)"
  using assms(3) lookup_group_run [OF assms(1,2)]
  by (cases h) (auto simp: resolve_group_def find_name_def io_return_def split: option.splits)

lemma primary_gid_run:
  assumes "plains R" and "has_db s R ''passwd'' passwd_text pes"
  shows "primary_gid_from_passwd x (abs_path R) s =
    (case find_name x pes of
       Some e \<Rightarrow> Inr (r_gid e)
     | None \<Rightarrow> Inl (Errorf ''passwd : user %q not found'' [x]), s)"
  using lookup_passwd_run [OF assms]
  by (auto simp: primary_gid_from_passwd_def find_name_def io_bind_def io_return_def split: option.splits)

lemma resolve_named_user_run:
  assumes R: "plains R" and db: "has_db s R ''passwd'' passwd_text pes" "has_db s R ''group'' group_text ges"
    and ok: "id_ok u" "group_ok g" and named: "(\<exists>x. u = IdName x) \<or> g \<noteq> None"
  shows "case identity pes ges u g of
      Some ids \<Rightarrow> resolve_named_user (show_user u g) (abs_path R) s = (Inr ids, s)
    | None \<Rightarrow> \<exists>e. resolve_named_user (show_user u g) (abs_path R) s = (Inl e, s)"
proof (cases g)
  case None
  with named obtain x where u: "u = IdName x" by auto
  show ?thesis
    using resolve_user_run [OF R db(1) ok(1)] primary_gid_run [OF R db(1), of x]
    by (auto simp: resolve_named_user_show [OF ok(1) [unfolded u]] None u identity_def io_bind_def io_try_def io_return_def
        simp del: show_user.simps split: option.splits)
next
  case (Some h)
  then show ?thesis
    using resolve_user_run [OF R db(1) ok(1)] resolve_group_run [OF R db(2), of h] ok(2)
    by (auto simp: resolve_named_user_show [OF ok(1)] identity_def io_bind_def io_return_def
        simp del: show_user.simps split: option.splits prod.splits)
qed

text \<open>
  C20. The user field: in every form (a number or a name, alone or with a number or a name for the
  group) it resolves to the ids the image's databases give, where a bare number has group 0 and a
  bare name its own primary group; the first record of a name counts; the rest of the process is
  unaffected; and it is an error exactly when a name is in no record.
\<close>

theorem user_resolution:
  assumes "plains R" and "has_db s R ''passwd'' passwd_text pes" and "has_db s R ''group'' group_text ges"
    and "id_ok u" and "group_ok g" and "ic_user c = show_user u g"
  shows "case identity pes ges u g of
      Some (uid, gid) \<Rightarrow> process_from_image_config_with_rootfs c (abs_path R) s =
        (Inr ((base_process c)\<lparr>ps_uid := uid, ps_gid := gid\<rparr>), s)
    | None \<Rightarrow> \<exists>e. process_from_image_config_with_rootfs c (abs_path R) s = (Inl e, s)"
proof -
  have ne: "ic_user c \<noteq> []" using show_user_nonempty [OF assms(4)] assms(6) by simp
  note proc = process_by_user [OF ne]
  show ?thesis
  proof (cases "parse_image_user (ic_user c)")
    case (Inr ids)
    then have "identity pes ges u g = Some ids"
      using assms(4,5)
      by (cases u; cases g; (cases "the g")?)
        (auto simp: assms(6) parse_image_user_show parse_show_id identity_def simp del: show_id.simps show_user.simps
          split: option.splits)
    with Inr show ?thesis
      by (auto simp: process_from_image_config_with_rootfs_def proc io_return_def split: prod.splits)
  next
    case (Inl err)
    then have "(\<exists>x. u = IdName x) \<or> g \<noteq> None"
      using assms(4) by (cases u) (auto simp: assms(6) parse_image_user_show parse_show_id
          simp del: show_id.simps show_user.simps split: option.splits)
    from resolve_named_user_run [OF assms(1-5) this] Inl ne show ?thesis
      by (auto simp: process_from_image_config_with_rootfs_def proc io_bind_def io_try_def io_return_def
          io_throw_def assms(6) split: option.splits prod.splits)
  qed
qed

lemma keeps_open_lines [triple_intros]: "keeps I (open_lines p)"
  by (rule keepsI) (simp add: open_lines_def split: sum.splits place.splits node.splits prod.splits)

lemma keeps_lookups [triple_intros]:
  "keeps I (lookup_passwd name rootfs)" "keeps I (lookup_group name rootfs)"
  unfolding lookup_passwd_def lookup_group_def
  by (auto intro!: triple_intros split: option.splits prod.splits)

lemma keeps_resolve_parts [triple_intros]:
  "keeps I (resolve_user name rootfs)" "keeps I (resolve_group name rootfs)"
  "keeps I (primary_gid_from_passwd name rootfs)"
  unfolding resolve_user_def resolve_group_def primary_gid_from_passwd_def
  by (auto intro!: triple_intros split: option.split prod.split)

lemma keeps_resolve_named_user [triple_intros]: "keeps I (resolve_named_user u rootfs)"
  unfolding resolve_named_user_def Let_def
  by (auto intro!: triple_intros split: option.split sum.split)

definition complete_process :: "process_spec \<Rightarrow> bool" where
  "complete_process p = (ps_args p \<noteq> [] \<and> ps_env p \<noteq> [] \<and> ps_cwd p \<noteq> [])"

lemma complete_base: "complete_process (fst (process_from_image_config c))"
  by (auto simp: process_from_image_config_def complete_process_def Let_def split: sum.splits)

lemma complete_ids [simp]: "complete_process (p\<lparr>ps_uid := u, ps_gid := g\<rparr>) = complete_process p"
  by (simp add: complete_process_def)

lemma process_triple:
  "triple I (process_from_image_config_with_rootfs c rootfs) (\<lambda>p s. complete_process p \<and> I s) (\<lambda>_. I)"
proof (cases "process_from_image_config c")
  case (Pair p err)
  with complete_base [of c] have p: "complete_process p" by simp
  have named: "triple I
     (io_bind (io_try (resolve_named_user (ic_user c) rootfs)) (\<lambda>r. case r of
        Inl lookupErr \<Rightarrow> io_throw (E lookupErr)
      | Inr (uid, gid) \<Rightarrow> io_return (p\<lparr>ps_uid := uid, ps_gid := gid\<rparr>)))
     (\<lambda>p s. complete_process p \<and> I s) (\<lambda>_. I)" for E
    by (rule triple_bind [OF keeps_try [OF keeps_resolve_named_user]])
      (auto intro!: triple_return triple_throw simp: p split: sum.splits)
  show ?thesis
    unfolding process_from_image_config_with_rootfs_def Pair
    by (cases err) (use named p in \<open>auto intro!: triple_return triple_throw\<close>)
qed

text \<open>
  Whatever the image configuration says, a process specification that is returned has a command
  to run, an environment and a working directory; resolving it never changes the file system.
\<close>

theorem process_complete:
  "case process_from_image_config_with_rootfs c rootfs s of
     (Inr p, s') \<Rightarrow> ps_args p \<noteq> [] \<and> ps_env p \<noteq> [] \<and> ps_cwd p \<noteq> [] \<and> s' = s
   | (Inl _, s') \<Rightarrow> s' = s"
  using tripleD [OF process_triple [of "\<lambda>t. t = s" c rootfs]]
  by (auto simp: complete_process_def split: prod.splits sum.splits)

section \<open>A sample root file system\<close>

definition sample_pes :: "id_record list" where
  "sample_pes =
     [\<lparr>r_name = ''root'', r_uid = 0, r_gid = 0, r_rest = ''root:/root:/bin/sh''\<rparr>,
      \<lparr>r_name = ''web'', r_uid = 1000, r_gid = 50, r_rest = ''::''\<rparr>]"

definition sample_ges :: "id_record list" where
  "sample_ges = [\<lparr>r_name = ''www'', r_uid = 0, r_gid = 33, r_rest = ''web''\<rparr>]"

definition sample_root :: fs where
  "sample_root =
     \<lparr>fs_nodes = [([], Dir 0x1ED), ([''r''], Dir 0x1ED), ([''r'', ''etc''], Dir 0x1ED),
                  ([''r'', ''etc'', ''passwd''], File 0), ([''r'', ''etc'', ''group''], File 1)],
      fs_inodes = (\<lambda>i. if i = 0 then \<lparr>i_data = db_file passwd_text sample_pes, i_mode = 0x1A4, i_mtime = 1\<rparr>
                       else \<lparr>i_data = db_file group_text sample_ges, i_mode = 0x1A4, i_mtime = 2\<rparr>),
      fs_next = 2, fs_cwd = [], fs_super = False, fs_umask = 0x12, fs_now = 7\<rparr>"

definition sample_config :: "string \<Rightarrow> image_config" where
  "sample_config u =
     \<lparr>ic_user = u, ic_env = [], ic_entrypoint = [''/bin/app''], ic_cmd = [''-x''], ic_working_dir = []\<rparr>"

lemma sample_texts:
  "map passwd_text sample_pes = [''root:x:0:0:root:/root:/bin/sh'', ''web:x:1000:50:::'']"
  "map group_text sample_ges = [''www:x:33:web'']"
  by code_simp+

lemma tidyI:
  assumes "l \<noteq> []" and "graphic (hd l)" and "graphic (last l)" and "hd l \<noteq> CHR ''#''"
    and "newline \<notin> set l" and "length l < 65536"
  shows "tidy l"
proof -
  have "last l \<noteq> char_of (13 :: nat)" using assms(3) by (auto simp: graphic_def)
  then show ?thesis
    using assms trim_space_graphic [OF assms(1-3)]
    by (cases l) (auto simp: tidy_def max_token_def entry_line_def drop_cr_def has_prefix_def)
qed

lemma sample_tidy:
  "tidy ''root:x:0:0:root:/root:/bin/sh''" "tidy ''web:x:1000:50:::''" "tidy ''www:x:33:web''"
  by (rule tidyI; simp add: graphic_def newline_def)+

lemma sample_dbs:
  "has_db sample_root [''r''] ''passwd'' passwd_text sample_pes"
  "has_db sample_root [''r''] ''group'' group_text sample_ges"
proof -
  have "readable_at sample_root [''r'', ''etc'', ''passwd'']" "readable_at sample_root [''r'', ''etc'', ''group'']"
    by code_simp+
  moreover have "content_at sample_root [''r'', ''etc'', ''passwd''] = Some (db_file passwd_text sample_pes)"
      "content_at sample_root [''r'', ''etc'', ''group''] = Some (db_file group_text sample_ges)"
    by (simp_all add: content_at_def node_at_def sample_root_def)
  moreover have "records_ok passwd_text sample_pes" "records_ok group_text sample_ges"
    using sample_texts sample_tidy by (simp_all add: records_ok_def sample_pes_def sample_ges_def)
  ultimately show "has_db sample_root [''r''] ''passwd'' passwd_text sample_pes"
      "has_db sample_root [''r''] ''group'' group_text sample_ges"
    by (simp_all add: has_db_def)
qed

theorem user_resolution_witness:
  "process_from_image_config_with_rootfs (sample_config ''web:www'') ''/r'' sample_root =
     (Inr ((base_process (sample_config ''web:www''))\<lparr>ps_uid := 1000, ps_gid := 33\<rparr>), sample_root)"
proof -
  have "plains [''r'']" "id_ok (IdName ''web'')" "group_ok (Some (IdName ''www''))"
      and a: "abs_path [''r''] = ''/r''"
    by (code_simp, (simp add: parse_uint32_def is_digit_def)?)+
  moreover have "ic_user (sample_config ''web:www'') = show_user (IdName ''web'') (Some (IdName ''www''))"
    by (simp add: sample_config_def)
  moreover have "identity sample_pes sample_ges (IdName ''web'') (Some (IdName ''www'')) = Some (1000, 33)"
    by (simp add: identity_def find_name_def sample_pes_def sample_ges_def)
  ultimately show ?thesis using user_resolution [OF _ sample_dbs] by fastforce
qed

end
