(* ===== verification/Json.thy ===== *)
theory Json
  imports Go_Strings
begin

text \<open>
  Go's \<open>encoding/json\<close> as the program uses it: \<open>MarshalIndent\<close> with two spaces, the parser under
  \<open>Unmarshal\<close>, and decoding into structs field by field.  Strings are bytes: bytes that are not
  UTF-8 are replaced on the way out and on the way in, and \<open><\<close>, \<open>>\<close>, \<open>&\<close> and the two Unicode line
  separators are escaped, as the package does by default.
\<close>

datatype json =
    JNull
  | JBool bool
  | JNum string
  | JStr string
  | JArr "json list"
  | JObj "(string \<times> json) list"

section \<open>Text\<close>

definition code :: "char \<Rightarrow> nat" where
  "code c = of_char c"

text \<open>The length of the UTF-8 sequence at the start of a string, 0 when there is no valid one.\<close>

definition cont :: "nat \<Rightarrow> nat \<Rightarrow> char \<Rightarrow> bool" where
  "cont lo hi c = (lo \<le> code c \<and> code c \<le> hi)"

fun utf8_len :: "string \<Rightarrow> nat" where
  "utf8_len [] = 0"
| "utf8_len (c # r) =
     (let n = code c in
      if n < 0x80 then 1
      else if 0xC2 \<le> n \<and> n \<le> 0xDF then
        (case r of x # _ \<Rightarrow> if cont 0x80 0xBF x then 2 else 0 | _ \<Rightarrow> 0)
      else if 0xE0 \<le> n \<and> n \<le> 0xEF then
        (case r of
           x # y # _ \<Rightarrow>
             if cont (if n = 0xE0 then 0xA0 else 0x80) (if n = 0xED then 0x9F else 0xBF) x
                \<and> cont 0x80 0xBF y then 3 else 0
         | _ \<Rightarrow> 0)
      else if 0xF0 \<le> n \<and> n \<le> 0xF4 then
        (case r of
           x # y # z # _ \<Rightarrow>
             if cont (if n = 0xF0 then 0x90 else 0x80) (if n = 0xF4 then 0x8F else 0xBF) x
                \<and> cont 0x80 0xBF y \<and> cont 0x80 0xBF z then 4 else 0
         | _ \<Rightarrow> 0)
      else 0)"

datatype chunk = Ascii char | Rune string | Bad

lemma utf8_len_le: "utf8_len s \<le> length s"
  by (cases s) (auto simp: Let_def split: list.splits)

function chunks :: "string \<Rightarrow> chunk list" where
  "chunks [] = []"
| "chunks (c # r) =
     (if code c < 0x80 then Ascii c # chunks r
      else if utf8_len (c # r) = 0 then Bad # chunks r
      else Rune (take (utf8_len (c # r)) (c # r)) # chunks (drop (utf8_len (c # r)) (c # r)))"
  by pat_completeness auto
termination by (relation "measure length") auto

definition replacement :: string where
  "replacement = bytes_of [0xEF, 0xBF, 0xBD]"

fun chunk_text :: "chunk \<Rightarrow> string" where
  "chunk_text (Ascii c) = [c]"
| "chunk_text (Rune b) = b"
| "chunk_text Bad = replacement"

text \<open>The string with every byte that is not part of UTF-8 replaced.\<close>

definition utf8_fix :: "string \<Rightarrow> string" where
  "utf8_fix s = concat (map chunk_text (chunks s))"

abbreviation dquote :: char where "dquote \<equiv> CHR 0x22"
abbreviation backslash :: char where "backslash \<equiv> CHR 0x5C"

definition u_escape :: "nat \<Rightarrow> string" where
  "u_escape n = backslash # CHR ''u'' # hex_digits 4 n"

definition quote_ascii :: "char \<Rightarrow> string" where
  "quote_ascii c =
     (if c = dquote \<or> c = backslash then [backslash, c]
      else if code c = 8 then [backslash, CHR ''b'']
      else if code c = 12 then [backslash, CHR ''f'']
      else if code c = 10 then [backslash, CHR ''n'']
      else if code c = 13 then [backslash, CHR ''r'']
      else if code c = 9 then [backslash, CHR ''t'']
      else if code c < 32 \<or> c \<in> set ''<>&'' then u_escape (code c)
      else [c])"

fun quote_chunk :: "chunk \<Rightarrow> string" where
  "quote_chunk (Ascii c) = quote_ascii c"
| "quote_chunk (Rune b) =
     (if b = bytes_of [0xE2, 0x80, 0xA8] then u_escape 0x2028
      else if b = bytes_of [0xE2, 0x80, 0xA9] then u_escape 0x2029 else b)"
| "quote_chunk Bad = u_escape 0xFFFD"

definition quote :: "string \<Rightarrow> string" where
  "quote s = dquote # concat (map quote_chunk (chunks s)) @ [dquote]"

section \<open>Marshalling\<close>

definition nl_indent :: "nat \<Rightarrow> string" where
  "nl_indent k = CHR 0x0A # replicate (2 * k) CHR '' ''"

fun print_json :: "nat \<Rightarrow> json \<Rightarrow> string" where
  "print_json k JNull = ''null''"
| "print_json k (JBool b) = (if b then ''true'' else ''false'')"
| "print_json k (JNum n) = n"
| "print_json k (JStr s) = quote s"
| "print_json k (JArr vs) =
     (if vs = [] then ''[]''
      else ''['' @ join_str '','' (map (\<lambda>v. nl_indent (Suc k) @ print_json (Suc k) v) vs) @ nl_indent k @ '']'')"
| "print_json k (JObj ms) =
     (if ms = [] then ''{}''
      else ''{'' @ join_str '','' (map (\<lambda>(n, v). nl_indent (Suc k) @ quote n @ '': '' @ print_json (Suc k) v) ms)
        @ nl_indent k @ ''}'')"

definition marshal_indent :: "json \<Rightarrow> string" where
  "marshal_indent v = print_json 0 v"

section \<open>Parsing\<close>

definition is_ws :: "char \<Rightarrow> bool" where
  "is_ws c = (c = CHR '' '' \<or> code c = 9 \<or> code c = 10 \<or> code c = 13)"

definition skip_ws :: "string \<Rightarrow> string" where
  "skip_ws s = dropWhile is_ws s"

definition expect :: "char \<Rightarrow> string \<Rightarrow> string option" where
  "expect c s = (case skip_ws s of x # r \<Rightarrow> if x = c then Some r else None | [] \<Rightarrow> None)"

definition utf8_enc :: "nat \<Rightarrow> string" where
  "utf8_enc n =
     (if n < 0x80 then bytes_of [n]
      else if n < 0x800 then bytes_of [0xC0 + n div 64, 0x80 + n mod 64]
      else if 0xD800 \<le> n \<and> n < 0xE000 \<or> 0x10FFFF < n then replacement
      else if n < 0x10000 then bytes_of [0xE0 + n div 4096, 0x80 + n div 64 mod 64, 0x80 + n mod 64]
      else bytes_of [0xF0 + n div 262144, 0x80 + n div 4096 mod 64, 0x80 + n div 64 mod 64, 0x80 + n mod 64])"

definition hex4 :: "string \<Rightarrow> nat option" where
  "hex4 s = (if length s < 4 then None else nat_of_hex (take 4 s))"

text \<open>After \<open>\u\<close>: a code unit, joined with a second one when the two are a surrogate pair.\<close>

definition parse_unicode :: "string \<Rightarrow> (string \<times> string) option" where
  "parse_unicode r =
     (case hex4 r of
        None \<Rightarrow> None
      | Some n \<Rightarrow>
          (if 0xD800 \<le> n \<and> n < 0xDC00 \<and> take 2 (drop 4 r) = [backslash, CHR ''u''] then
             (case hex4 (drop 6 r) of
                Some m \<Rightarrow>
                  if 0xDC00 \<le> m \<and> m < 0xE000
                  then Some (utf8_enc (0x10000 + (n - 0xD800) * 1024 + (m - 0xDC00)), drop 10 r)
                  else Some (replacement, drop 4 r)
              | None \<Rightarrow> None)
           else Some (utf8_enc n, drop 4 r)))"

definition unescape :: "char \<Rightarrow> char option" where
  "unescape c =
     (if c = dquote \<or> c = backslash \<or> c = CHR ''/'' then Some c
      else if c = CHR ''b'' then Some (CHR 0x08)
      else if c = CHR ''f'' then Some (CHR 0x0C)
      else if c = CHR ''n'' then Some (CHR 0x0A)
      else if c = CHR ''r'' then Some (CHR 0x0D)
      else if c = CHR ''t'' then Some (CHR 0x09)
      else None)"

definition parse_char :: "string \<Rightarrow> (string \<times> string) option" where
  "parse_char s =
     (case s of
        [] \<Rightarrow> None
      | c # r \<Rightarrow>
          if c = backslash then
            (case r of
               [] \<Rightarrow> None
             | e # r' \<Rightarrow>
                 if e = CHR ''u'' then parse_unicode r'
                 else map_option (\<lambda>x. ([x], r')) (unescape e))
          else if code c < 32 then None
          else if code c < 0x80 then Some ([c], r)
          else if utf8_len s = 0 then Some (replacement, r)
          else Some (take (utf8_len s) s, drop (utf8_len s) s))"

fun parse_chars :: "nat \<Rightarrow> string \<Rightarrow> (string \<times> string) option" where
  "parse_chars 0 s = None"
| "parse_chars (Suc n) s =
     (if s \<noteq> [] \<and> hd s = dquote then Some ([], tl s)
      else case parse_char s of
        None \<Rightarrow> None
      | Some (b, r) \<Rightarrow> map_option (\<lambda>(t, r'). (b @ t, r')) (parse_chars n r))"

text \<open>The text of a string after its opening quote.\<close>

definition parse_string :: "string \<Rightarrow> (string \<times> string) option" where
  "parse_string s = parse_chars (Suc (length s)) s"

definition num_chars :: string where "num_chars = ''0123456789+-.eE''"

definition digits1 :: "string \<Rightarrow> bool" where
  "digits1 s = (s \<noteq> [] \<and> list_all is_digit s)"

text \<open>\<open>-?(0|[1-9][0-9]*)(\.[0-9]+)?([eE][+-]?[0-9]+)?\<close>\<close>

definition number_ok :: "string \<Rightarrow> bool" where
  "number_ok s =
     (let s = (if has_prefix s ''-'' then tl s else s);
          ip = takeWhile is_digit s; r = dropWhile is_digit s;
          (fr, r) = (if has_prefix r ''.'' then (Some (takeWhile is_digit (tl r)), dropWhile is_digit (tl r)) else (None, r));
          ex = (if r = [] then None
                else Some (if hd r \<in> set ''eE''
                           then (let q = tl r in if q \<noteq> [] \<and> hd q \<in> set ''+-'' then tl q else q) else []))
      in ip \<noteq> [] \<and> (hd ip = CHR ''0'' \<longrightarrow> ip = ''0'') \<and> fr \<noteq> Some []
         \<and> (case ex of None \<Rightarrow> True | Some e \<Rightarrow> digits1 e))"

definition parse_number :: "string \<Rightarrow> (json \<times> string) option" where
  "parse_number s =
     (let n = takeWhile (\<lambda>c. c \<in> set num_chars) s
      in if number_ok n then Some (JNum n, drop (length n) s) else None)"

definition literal :: "string \<Rightarrow> json \<Rightarrow> string \<Rightarrow> (json \<times> string) option" where
  "literal w v s = (if has_prefix s w then Some (v, drop (length w) s) else None)"

fun parse_value :: "nat \<Rightarrow> string \<Rightarrow> (json \<times> string) option"
  and parse_elems :: "nat \<Rightarrow> string \<Rightarrow> (json list \<times> string) option"
  and parse_members :: "nat \<Rightarrow> string \<Rightarrow> ((string \<times> json) list \<times> string) option" where
  "parse_value 0 s = None"
| "parse_value (Suc n) s =
     (case skip_ws s of
        [] \<Rightarrow> None
      | c # r \<Rightarrow>
          if c = CHR ''{'' then
            (case expect CHR ''}'' r of
               Some r' \<Rightarrow> Some (JObj [], r')
             | None \<Rightarrow> map_option (map_prod JObj id) (parse_members n r))
          else if c = CHR ''['' then
            (case expect CHR '']'' r of
               Some r' \<Rightarrow> Some (JArr [], r')
             | None \<Rightarrow> map_option (map_prod JArr id) (parse_elems n r))
          else if c = dquote then map_option (map_prod JStr id) (parse_string r)
          else if c = CHR ''t'' then literal ''true'' (JBool True) (c # r)
          else if c = CHR ''f'' then literal ''false'' (JBool False) (c # r)
          else if c = CHR ''n'' then literal ''null'' JNull (c # r)
          else parse_number (c # r))"
| "parse_elems 0 s = None"
| "parse_elems (Suc n) s =
     (case parse_value n s of
        None \<Rightarrow> None
      | Some (v, r) \<Rightarrow>
          (case expect CHR '']'' r of
             Some r' \<Rightarrow> Some ([v], r')
           | None \<Rightarrow>
               (case expect CHR '','' r of
                  Some r' \<Rightarrow> map_option (map_prod ((#) v) id) (parse_elems n r')
                | None \<Rightarrow> None)))"
| "parse_members 0 s = None"
| "parse_members (Suc n) s =
     (case Option.bind (expect dquote s) parse_string of
        None \<Rightarrow> None
      | Some (k, r) \<Rightarrow>
          (case Option.bind (expect CHR '':'' r) (parse_value n) of
             None \<Rightarrow> None
           | Some (v, r) \<Rightarrow>
               (case expect CHR ''}'' r of
                  Some r' \<Rightarrow> Some ([(k, v)], r')
                | None \<Rightarrow>
                    (case expect CHR '','' r of
                       Some r' \<Rightarrow> map_option (map_prod ((#) (k, v)) id) (parse_members n r')
                     | None \<Rightarrow> None))))"

text \<open>A whole document: one value and white space.\<close>

definition parse_json :: "string \<Rightarrow> json option" where
  "parse_json s =
     (case parse_value (Suc (length s)) s of
        Some (v, r) \<Rightarrow> if skip_ws r = [] then Some v else None
      | None \<Rightarrow> None)"

end
