(* ===== verification/Json_Roundtrip.thy ===== *)
theory Json_Roundtrip
  imports Json
begin

text \<open>
  What is marshalled is what is parsed: for every value, up to the replacement of bytes that are
  not UTF-8 in its strings.
\<close>

section \<open>Strings\<close>

fun chunk_ok :: "chunk \<Rightarrow> bool" where
  "chunk_ok (Ascii c) = (code c < 0x80)"
| "chunk_ok (Rune b) = (b \<noteq> [] \<and> 0x80 \<le> code (hd b) \<and> (\<forall>r. utf8_len (b @ r) = length b))"
| "chunk_ok Bad = True"

text \<open>A valid sequence is recognised whatever follows it.\<close>

lemma utf8_len_take:
  assumes "utf8_len (c # r) = k" and "k \<noteq> 0"
  shows "utf8_len (take k (c # r) @ x) = k"
proof -
  consider (one) "k = 1" "code c < 0x80" | (two) y r' where "r = y # r'" "k = 2"
    | (three) y z r' where "r = y # z # r'" "k = 3" | (four) y z w r' where "r = y # z # w # r'" "k = 4"
    using assms by (auto simp: Let_def split: if_splits list.splits)
  then show ?thesis
  proof cases
    case one
    then show ?thesis by simp
  next
    case two
    with assms(1) show ?thesis by (simp add: Let_def split: if_split_asm list.split_asm)
  next
    case three
    with assms(1) show ?thesis by (simp add: Let_def split: if_split_asm list.split_asm)
  next
    case four
    with assms(1) show ?thesis by (simp add: Let_def split: if_split_asm list.split_asm)
  qed
qed

lemma chunks_ok: "u \<in> set (chunks s) \<Longrightarrow> chunk_ok u"
proof (induction s rule: chunks.induct)
  case (2 c r)
  then show ?case
    using utf8_len_take [of c r] utf8_len_le [of "c # r"]
    by (auto simp: hd_append take_Cons' simp del: utf8_len.simps split: if_splits)
qed simp

lemma code_char_of: "n < 256 \<Longrightarrow> code (char_of n) = n"
  by (simp add: code_def)

lemma char_of_code [simp]: "char_of (code c) = c"
  by (simp add: code_def)

lemma hex4_digits: "n < 65536 \<Longrightarrow> hex4 (hex_digits 4 n @ r) = Some n"
  by (simp add: hex4_def nat_of_hex_digits)

lemma parse_u_escape:
  assumes "n < 0xD800 \<or> 0xE000 \<le> n" and "n < 65536"
  shows "parse_char (u_escape n @ r) = Some (utf8_enc n, r)"
proof -
  have "drop 4 (hex_digits 4 n @ r) = r" by simp
  then show ?thesis
    using assms hex4_digits [OF assms(2), of r]
    by (auto simp: parse_char_def u_escape_def parse_unicode_def)
qed

lemma utf8_enc_ascii: "code c < 0x80 \<Longrightarrow> utf8_enc (code c) = [c]"
  by (simp add: utf8_enc_def bytes_of_def)

lemma code_inject: "code c = code d \<longleftrightarrow> c = d"
  by (metis char_of_code)

lemma unescape_known:
  "unescape dquote = Some dquote" "unescape backslash = Some backslash"
  "unescape CHR ''b'' = Some (CHR 0x08)" "unescape CHR ''f'' = Some (CHR 0x0C)"
  "unescape CHR ''n'' = Some (CHR 0x0A)" "unescape CHR ''r'' = Some (CHR 0x0D)"
  "unescape CHR ''t'' = Some (CHR 0x09)"
  by (simp_all add: unescape_def)

lemma code_control:
  "code (CHR 0x08) = 8" "code (CHR 0x0C) = 12" "code (CHR 0x0A) = 10" "code (CHR 0x0D) = 13" "code (CHR 0x09) = 9"
  by (simp_all add: code_def)

lemma quote_ascii_cases:
  obtains (esc) e where "quote_ascii c = [backslash, e]" and "unescape e = Some c" and "e \<noteq> CHR ''u''"
  | (unicode) "quote_ascii c = u_escape (code c)"
  | (plain) "quote_ascii c = [c]" and "c \<noteq> backslash" and "32 \<le> code c"
proof -
  have ctl: "code c = code x \<Longrightarrow> c = x" for x by (simp add: code_inject)
  have "(\<exists>e. quote_ascii c = [backslash, e] \<and> unescape e = Some c \<and> e \<noteq> CHR ''u'')
      \<or> quote_ascii c = u_escape (code c)
      \<or> quote_ascii c = [c] \<and> c \<noteq> backslash \<and> 32 \<le> code c"
    unfolding quote_ascii_def
    using ctl [of "CHR 0x08"] ctl [of "CHR 0x0C"] ctl [of "CHR 0x0A"] ctl [of "CHR 0x0D"] ctl [of "CHR 0x09"]
    by (simp add: code_control unescape_def)
  then show ?thesis using that by blast
qed

lemma parse_quote_ascii:
  assumes "code c < 0x80"
  shows "parse_char (quote_ascii c @ r) = Some ([c], r)"
proof (cases c rule: quote_ascii_cases)
  case (esc e)
  then show ?thesis by (simp add: parse_char_def)
next
  case unicode
  with assms show ?thesis by (simp add: parse_u_escape utf8_enc_ascii)
next
  case plain
  with assms show ?thesis by (simp add: parse_char_def)
qed

lemma parse_quote_chunk:
  assumes "chunk_ok u"
  shows "parse_char (quote_chunk u @ r) = Some (chunk_text u, r)"
proof (cases u)
  case (Ascii c)
  with assms show ?thesis by (simp add: parse_quote_ascii)
next
  case (Rune b)
  have sep: "utf8_enc 0x2028 = bytes_of [0xE2, 0x80, 0xA8]" "utf8_enc 0x2029 = bytes_of [0xE2, 0x80, 0xA9]"
    by (simp_all add: utf8_enc_def)
  show ?thesis
  proof (cases "b = bytes_of [0xE2, 0x80, 0xA8] \<or> b = bytes_of [0xE2, 0x80, 0xA9]")
    case True
    with Rune show ?thesis
      using parse_u_escape [where n = "0x2028" and r = r] parse_u_escape [where n = "0x2029" and r = r] sep by auto
  next
    case False
    from assms Rune obtain c b' where b: "b = c # b'" "0x80 \<le> code c" "utf8_len (b @ r) = length b"
      by (cases b) auto
    have "c \<noteq> backslash" using b(2) by (auto simp: code_def)
    with b False Rune show ?thesis
      by (simp add: parse_char_def del: utf8_len.simps)
  qed
next
  case Bad
  have "utf8_enc 0xFFFD = replacement" by (simp add: utf8_enc_def replacement_def)
  with Bad parse_u_escape [where n = "0xFFFD" and r = r] show ?thesis by simp
qed

lemma quote_chunk_head: "chunk_ok u \<Longrightarrow> \<exists>c x. quote_chunk u = c # x \<and> c \<noteq> dquote"
  by (cases u) (auto simp: quote_ascii_def u_escape_def code_def neq_Nil_conv)

lemma parse_chars_quote:
  "\<forall>u \<in> set us. chunk_ok u \<Longrightarrow> length us < n \<Longrightarrow>
   parse_chars n (concat (map quote_chunk us) @ dquote # r) = Some (concat (map chunk_text us), r)"
proof (induction us arbitrary: n)
  case Nil
  then show ?case by (cases n) auto
next
  case (Cons u us)
  then obtain m where n: "n = Suc m" "length us < m" by (cases n) auto
  obtain c x where q: "quote_chunk u = c # x" "c \<noteq> dquote"
    using Cons.prems(1) quote_chunk_head [of u] by auto
  have "parse_char (quote_chunk u @ concat (map quote_chunk us) @ dquote # r) =
      Some (chunk_text u, concat (map quote_chunk us) @ dquote # r)"
    using Cons.prems(1) by (intro parse_quote_chunk) simp
  with Cons n q show ?case by simp
qed

lemma length_chunks: "length (chunks s) \<le> length (concat (map quote_chunk (chunks s)))"
proof -
  have "\<forall>u \<in> set us. chunk_ok u \<Longrightarrow> length us \<le> length (concat (map quote_chunk us))" for us
  proof (induction us)
    case (Cons u us)
    moreover have "quote_chunk u \<noteq> []" using Cons.prems quote_chunk_head [of u] by auto
    ultimately show ?case by (cases "quote_chunk u") auto
  qed simp
  then show ?thesis using chunks_ok by blast
qed

lemma parse_string_quote: "parse_string (concat (map quote_chunk (chunks s)) @ dquote # r) = Some (utf8_fix s, r)"
  unfolding parse_string_def utf8_fix_def
  using length_chunks [of s] by (intro parse_chars_quote) (auto dest: chunks_ok)

lemma utf8_fix_ascii: "\<forall>c \<in> set s. code c < 0x80 \<Longrightarrow> utf8_fix s = s"
  by (induction s) (auto simp: utf8_fix_def)

section \<open>Values\<close>

fun json_ok :: "json \<Rightarrow> bool" where
  "json_ok (JNum n) = (number_ok n \<and> set n \<subseteq> set num_chars)"
| "json_ok (JArr vs) = list_all json_ok vs"
| "json_ok (JObj ms) = list_all (json_ok \<circ> snd) ms"
| "json_ok _ = True"

text \<open>The value that comes back: the same one, its strings with bad bytes replaced.\<close>

fun json_fix :: "json \<Rightarrow> json" where
  "json_fix (JStr s) = JStr (utf8_fix s)"
| "json_fix (JArr vs) = JArr (map json_fix vs)"
| "json_fix (JObj ms) = JObj (map (\<lambda>(k, v). (utf8_fix k, json_fix v)) ms)"
| "json_fix v = v"

definition delim :: "string \<Rightarrow> bool" where
  "delim r = (r = [] \<or> hd r \<notin> set num_chars)"

text \<open>The lines of an array or an object after its opening bracket.\<close>

definition elem_text :: "nat \<Rightarrow> json \<Rightarrow> string" where
  "elem_text k v = nl_indent (Suc k) @ print_json (Suc k) v"

definition member_text :: "nat \<Rightarrow> string \<times> json \<Rightarrow> string" where
  "member_text k m = nl_indent (Suc k) @ quote (fst m) @ '': '' @ print_json (Suc k) (snd m)"

definition tail_text :: "char \<Rightarrow> nat \<Rightarrow> string list \<Rightarrow> string" where
  "tail_text c k ts = concat (map (\<lambda>t. '','' @ t) ts) @ nl_indent k @ [c]"

lemma length_texts:
  "length (nl_indent k) = Suc (2 * k)"
  "length (elem_text k v) = Suc (2 * Suc k) + length (print_json (Suc k) v)"
  "length (member_text k m) = Suc (2 * Suc k) + length (quote (fst m)) + 2 + length (print_json (Suc k) (snd m))"
  by (simp_all add: nl_indent_def elem_text_def member_text_def)

lemma tail_Cons: "tail_text c k (t # ts) = CHR '','' # t @ tail_text c k ts"
  by (simp add: tail_text_def)

lemma join_tail: "join_str '','' (t # ts) @ nl_indent k @ [c] = t @ tail_text c k ts"
  by (induction ts arbitrary: t) (auto simp: tail_text_def join_str_Cons)

lemma print_arr: "vs \<noteq> [] \<Longrightarrow>
  print_json k (JArr vs) = ''['' @ elem_text k (hd vs) @ tail_text CHR '']'' k (map (elem_text k) (tl vs))"
proof -
  have "(\<lambda>v. nl_indent (Suc k) @ print_json (Suc k) v) = elem_text k"
    by (auto simp: elem_text_def)
  then show "vs \<noteq> [] \<Longrightarrow> ?thesis"
    using join_tail [of "elem_text k (hd vs)" "map (elem_text k) (tl vs)" k "CHR '']''"]
    by (cases vs) (simp_all del: print_json.simps add: print_json.simps(5))
qed

lemma print_obj: "ms \<noteq> [] \<Longrightarrow>
  print_json k (JObj ms) = ''{'' @ member_text k (hd ms) @ tail_text CHR ''}'' k (map (member_text k) (tl ms))"
proof -
  have "(\<lambda>(n, v). nl_indent (Suc k) @ quote n @ '': '' @ print_json (Suc k) v) = member_text k"
    by (auto simp: member_text_def)
  then show "ms \<noteq> [] \<Longrightarrow> ?thesis"
    using join_tail [of "member_text k (hd ms)" "map (member_text k) (tl ms)" k "CHR ''}''"]
    by (cases ms) (simp_all del: print_json.simps add: print_json.simps(6))
qed

lemma is_ws_nl: "x \<in> set (nl_indent k) \<Longrightarrow> is_ws x"
  by (auto simp: nl_indent_def is_ws_def code_def)

lemma skip_nl [simp]: "skip_ws (nl_indent k @ s) = skip_ws s"
  using is_ws_nl [of _ k] by (simp add: skip_ws_def dropWhile_append2)

lemma skip_ws_head: "\<not> is_ws c \<Longrightarrow> skip_ws (c # s) = c # s"
  by (simp add: skip_ws_def)

lemma not_ws [simp]: "\<not> is_ws dquote" "\<not> is_ws CHR '':''" "\<not> is_ws CHR '',''" "\<not> is_ws CHR '']''"
  "\<not> is_ws CHR ''}''" "\<not> is_ws CHR ''[''" "\<not> is_ws CHR ''{''" "is_ws CHR '' ''"
  by (simp_all add: is_ws_def code_def)

lemma print_head:
  assumes "json_ok v"
  obtains c x where "print_json k v = c # x" and "\<not> is_ws c" and "c \<noteq> CHR '']''"
proof (cases v)
  case (JNum n)
  with assms have "n \<noteq> []" by (auto simp: number_ok_def Let_def has_prefix_def)
  with JNum assms that show ?thesis
    by (cases n) (auto simp: num_chars_def is_ws_def code_def)
next
  case (JBool b)
  with that show ?thesis by (cases b) (auto simp: is_ws_def code_def)
next
  case (JArr vs)
  with that show ?thesis by (cases "vs = []") (auto simp: is_ws_def code_def)
next
  case (JObj ms)
  with that show ?thesis by (cases "ms = []") (auto simp: is_ws_def code_def)
qed (use that in \<open>auto simp: quote_def is_ws_def code_def\<close>)

lemma delim_tail: "c \<in> {CHR '']'', CHR ''}''} \<Longrightarrow> delim (tail_text c k ts @ r)"
  by (cases ts) (auto simp: tail_text_def delim_def num_chars_def nl_indent_def)

lemma parse_value_nl: "parse_value n (nl_indent k @ s) = parse_value n s"
  by (cases n) simp_all

lemma take_num: "delim r \<Longrightarrow> set n \<subseteq> set num_chars \<Longrightarrow> takeWhile (\<lambda>c. c \<in> set num_chars) (n @ r) = n"
  by (cases r) (auto simp: delim_def takeWhile_append subset_iff)

lemma expect_nl [simp]: "expect c (nl_indent k @ s) = expect c s"
  by (simp add: expect_def)

lemma expect_head: "\<not> is_ws x \<Longrightarrow> expect c (x # s) = (if x = c then Some s else None)"
  by (simp add: expect_def skip_ws_head)

text \<open>What parsing a value should give, for one value of the text.\<close>

definition reads :: "json \<Rightarrow> bool" where
  "reads v \<longleftrightarrow>
     (\<forall>k r n. delim r \<longrightarrow> length (print_json k v) \<le> n \<longrightarrow> parse_value n (print_json k v @ r) = Some (json_fix v, r))"

lemma readsD:
  "reads v \<Longrightarrow> delim r \<Longrightarrow> length (print_json k v) \<le> n \<Longrightarrow> parse_value n (print_json k v @ r) = Some (json_fix v, r)"
  by (simp add: reads_def)

lemma parse_elems_text:
  assumes "\<forall>v \<in> set (v # vs). reads v" and "length (elem_text k v @ tail_text CHR '']'' k (map (elem_text k) vs)) \<le> n"
  shows "parse_elems n (elem_text k v @ tail_text CHR '']'' k (map (elem_text k) vs) @ r) =
    Some (map json_fix (v # vs), r)"
  using assms
proof (induction vs arbitrary: v n)
  case Nil
  from Nil.prems(2) obtain m where n: "n = Suc m" "length (print_json (Suc k) v) \<le> m"
    by (cases n) (auto simp: elem_text_def nl_indent_def)
  have "parse_value m (elem_text k v @ tail_text CHR '']'' k [] @ r) = Some (json_fix v, tail_text CHR '']'' k [] @ r)"
    using Nil.prems(1) n(2) by (simp add: elem_text_def parse_value_nl readsD delim_tail)
  then show ?case by (simp add: n tail_text_def expect_head)
next
  case (Cons w ws)
  from Cons.prems(2) obtain m where n: "n = Suc m" "length (print_json (Suc k) v) \<le> m"
      "length (elem_text k w @ tail_text CHR '']'' k (map (elem_text k) ws)) \<le> m"
    by (cases n) (auto simp: length_texts tail_Cons)
  have "parse_value m (elem_text k v @ tail_text CHR '']'' k (map (elem_text k) (w # ws)) @ r) =
      Some (json_fix v, tail_text CHR '']'' k (map (elem_text k) (w # ws)) @ r)"
    using Cons.prems(1) n(2) by (simp add: elem_text_def parse_value_nl readsD delim_tail del: list.map)
  moreover have "tail_text CHR '']'' k (map (elem_text k) (w # ws)) @ r =
      CHR '','' # elem_text k w @ tail_text CHR '']'' k (map (elem_text k) ws) @ r"
    by (simp add: tail_text_def)
  moreover have "parse_elems m (elem_text k w @ tail_text CHR '']'' k (map (elem_text k) ws) @ r) =
      Some (map json_fix (w # ws), r)"
    by (rule Cons.IH) (use Cons.prems(1) n(3) in auto)
  ultimately show ?case by (simp add: n expect_head)
qed

lemma quote_append: "quote s @ r = dquote # concat (map quote_chunk (chunks s)) @ dquote # r"
  by (simp add: quote_def)

lemma parse_value_space: "parse_value n (CHR '' '' # s) = parse_value n s"
  by (cases n) (simp_all add: skip_ws_def)

lemma parse_member_key:
  "Option.bind (expect dquote (quote s @ r)) parse_string = Some (utf8_fix s, r)"
  by (simp add: quote_append expect_head parse_string_quote)

lemma parse_members_text:
  assumes "\<forall>m \<in> set (m # ms). reads (snd m)"
    and "length (member_text k m @ tail_text CHR ''}'' k (map (member_text k) ms)) \<le> n"
  shows "parse_members n (member_text k m @ tail_text CHR ''}'' k (map (member_text k) ms) @ r) =
    Some (map (\<lambda>(k, v). (utf8_fix k, json_fix v)) (m # ms), r)"
  using assms
proof (induction ms arbitrary: m n)
  case Nil
  from Nil.prems(2) obtain j where n: "n = Suc j" "length (print_json (Suc k) (snd m)) \<le> j"
    by (cases n) (auto simp: member_text_def nl_indent_def)
  have "Option.bind (expect CHR '':'' ('': '' @ print_json (Suc k) (snd m) @ tail_text CHR ''}'' k [] @ r)) (parse_value j) =
      Some (json_fix (snd m), tail_text CHR ''}'' k [] @ r)"
    using Nil.prems(1) n(2) by (simp add: expect_head parse_value_space readsD delim_tail)
  then show ?case
    by (cases m) (simp add: n member_text_def parse_member_key, simp add: tail_text_def expect_head)
next
  case (Cons w ws)
  from Cons.prems(2) obtain j where n: "n = Suc j" "length (print_json (Suc k) (snd m)) \<le> j"
      "length (member_text k w @ tail_text CHR ''}'' k (map (member_text k) ws)) \<le> j"
    by (cases n) (auto simp: length_texts tail_Cons)
  have "Option.bind (expect CHR '':'' ('': '' @ print_json (Suc k) (snd m) @ tail_text CHR ''}'' k (map (member_text k) (w # ws)) @ r))
      (parse_value j) = Some (json_fix (snd m), tail_text CHR ''}'' k (map (member_text k) (w # ws)) @ r)"
    using Cons.prems(1) n(2) by (simp add: expect_head parse_value_space readsD delim_tail del: list.map)
  moreover have "tail_text CHR ''}'' k (map (member_text k) (w # ws)) @ r =
      CHR '','' # member_text k w @ tail_text CHR ''}'' k (map (member_text k) ws) @ r"
    by (simp add: tail_text_def)
  moreover have "parse_members j (member_text k w @ tail_text CHR ''}'' k (map (member_text k) ws) @ r) =
      Some (map (\<lambda>(k, v). (utf8_fix k, json_fix v)) (w # ws), r)"
    by (rule Cons.IH) (use Cons.prems(1) n(3) in auto)
  ultimately show ?case
    by (cases m) (simp add: n member_text_def [of k "(_, _)"] parse_member_key expect_head del: list.map, simp)
qed

lemma reads_arr: "\<forall>v \<in> set vs. json_ok v \<and> reads v \<Longrightarrow> reads (JArr vs)"
  unfolding reads_def [of "JArr vs"]
proof (intro allI impI)
  fix k r n assume v: "\<forall>v \<in> set vs. json_ok v \<and> reads v" and len: "length (print_json k (JArr vs)) \<le> n"
  from len obtain m where n: "n = Suc m" by (cases n) (auto split: if_splits)
  show "parse_value n (print_json k (JArr vs) @ r) = Some (json_fix (JArr vs), r)"
  proof (cases vs)
    case Nil
    then show ?thesis by (simp add: n skip_ws_head expect_head)
  next
    case (Cons w ws)
    obtain c x where w: "print_json (Suc k) w = c # x" "\<not> is_ws c" "c \<noteq> CHR '']''"
      using v Cons by (auto intro: print_head [of w "Suc k"])
    have prn: "print_json k (JArr vs) = CHR ''['' # elem_text k w @ tail_text CHR '']'' k (map (elem_text k) ws)"
      using Cons by (simp add: print_arr del: print_json.simps)
    have "expect CHR '']'' (elem_text k w @ tail_text CHR '']'' k (map (elem_text k) ws) @ r) = None"
      using w by (simp add: elem_text_def [of k w] expect_head)
    moreover have "parse_elems m (elem_text k w @ tail_text CHR '']'' k (map (elem_text k) ws) @ r) =
        Some (map json_fix (w # ws), r)"
      using v Cons len n unfolding prn by (intro parse_elems_text) auto
    ultimately show ?thesis
      unfolding prn using Cons by (simp add: n skip_ws_head)
  qed
qed

lemma reads_obj: "\<forall>m \<in> set ms. reads (snd m) \<Longrightarrow> reads (JObj ms)"
  unfolding reads_def [of "JObj ms"]
proof (intro allI impI)
  fix k r n assume v: "\<forall>m \<in> set ms. reads (snd m)" and len: "length (print_json k (JObj ms)) \<le> n"
  from len obtain j where n: "n = Suc j" by (cases n) (auto split: if_splits)
  show "parse_value n (print_json k (JObj ms) @ r) = Some (json_fix (JObj ms), r)"
  proof (cases ms)
    case Nil
    then show ?thesis by (simp add: n skip_ws_head expect_head)
  next
    case (Cons w ws)
    have prn: "print_json k (JObj ms) = CHR ''{'' # member_text k w @ tail_text CHR ''}'' k (map (member_text k) ws)"
      using Cons by (simp add: print_obj del: print_json.simps)
    have "expect CHR ''}'' (member_text k w @ tail_text CHR ''}'' k (map (member_text k) ws) @ r) = None"
      by (simp add: member_text_def [of k w] quote_append expect_head)
    moreover have "parse_members j (member_text k w @ tail_text CHR ''}'' k (map (member_text k) ws) @ r) =
        Some (map (\<lambda>(k, v). (utf8_fix k, json_fix v)) (w # ws), r)"
      using v Cons len n unfolding prn by (intro parse_members_text) auto
    ultimately show ?thesis
      unfolding prn using Cons by (simp add: n skip_ws_head)
  qed
qed

lemma reads_num: "json_ok (JNum m) \<Longrightarrow> reads (JNum m)"
  unfolding reads_def
proof (intro allI impI)
  fix k r n assume ok: "json_ok (JNum m)" and r: "delim r" and len: "length (print_json k (JNum m)) \<le> n"
  obtain c x where m: "m = c # x" "\<not> is_ws c" by (rule print_head [OF ok, of k]) (auto intro: that)
  with len obtain j where n: "n = Suc j" by (cases n) auto
  have "c \<in> set num_chars" using ok m by simp
  then have c: "c \<notin> {CHR ''{'', CHR ''['', dquote, CHR ''t'', CHR ''f'', CHR ''n''}"
    by (auto simp: num_chars_def)
  have "parse_number (m @ r) = Some (JNum m, r)"
    using ok r by (simp add: parse_number_def take_num)
  with m c show "parse_value n (print_json k (JNum m) @ r) = Some (json_fix (JNum m), r)"
    by (simp add: n skip_ws_head)
qed

lemma reads_str: "reads (JStr s)"
  unfolding reads_def
proof (intro allI impI)
  fix k r n assume "length (print_json k (JStr s)) \<le> n"
  then obtain j where "n = Suc j" by (cases n) (auto simp: quote_def)
  then show "parse_value n (print_json k (JStr s) @ r) = Some (json_fix (JStr s), r)"
    by (simp add: quote_append skip_ws_head parse_string_quote)
qed

lemma reads_literal: "reads JNull" "reads (JBool b)"
proof -
  have ws: "\<not> is_ws CHR ''n''" "\<not> is_ws CHR ''t''" "\<not> is_ws CHR ''f''" by (simp_all add: is_ws_def code_def)
  show "reads JNull" unfolding reads_def
  proof (intro allI impI)
    fix k r n assume "length (print_json k JNull) \<le> n"
    then obtain j where "n = Suc j" by (cases n) auto
    then show "parse_value n (print_json k JNull @ r) = Some (json_fix JNull, r)"
      by (simp add: skip_ws_head ws literal_def has_prefix_def)
  qed
  show "reads (JBool b)" unfolding reads_def
  proof (intro allI impI)
    fix k r n assume "length (print_json k (JBool b)) \<le> n"
    then obtain j where "n = Suc j" by (cases n) (auto split: if_splits)
    then show "parse_value n (print_json k (JBool b) @ r) = Some (json_fix (JBool b), r)"
      by (cases b) (simp_all add: skip_ws_head ws literal_def has_prefix_def)
  qed
qed

lemma json_reads: "json_ok v \<Longrightarrow> reads v"
proof (induction v rule: json.induct)
  case (JArr vs)
  then show ?case by (intro reads_arr) (auto simp: list_all_iff)
next
  case (JObj ms)
  then show ?case by (intro reads_obj) (fastforce simp: list_all_iff)
qed (simp_all add: reads_literal reads_num reads_str)

lemma parse_marshal: "json_ok v \<Longrightarrow> parse_json (marshal_indent v) = Some (json_fix v)"
  using readsD [OF json_reads [of v], of "[]" 0 "Suc (length (print_json 0 v))"]
  by (simp add: parse_json_def marshal_indent_def delim_def skip_ws_def)

end
