(* ===== verification/Json_Struct.thy ===== *)
theory Json_Struct
  imports Json_Roundtrip "HOL-Library.Char_ord" "HOL-Library.List_Lexorder"
begin

text \<open>
  \<open>encoding/json\<close> on Go values: a \<open>shape\<close> is the part of a Go type its reflection looks at, a
  \<open>gval\<close> a value of such a type, \<open>enc\<close> the encoder and \<open>dec\<close> the decoder.  The decoder works on the
  value that is already there: \<open>null\<close> leaves everything but pointers, slices and maps alone, object
  members find their field by the exact name or else up to case, unknown members are skipped,
  a later member of the same field overwrites an earlier one, and a member of the wrong type is an
  error.  A slice is decoded into fresh elements; Go reuses the old ones when a field occurs twice.
  Byte slices and times only occur in what the program reads: they are checked and kept as text.
\<close>

section \<open>Types and values\<close>

datatype shape =
    SStr
  | SBool
  | SUint nat
  | SInt nat
  | STime
  | SBytes
  | SList shape
  | SMap shape
  | SPtr shape
  | SStruct "(string \<times> bool \<times> shape) list"

datatype gval =
    VStr string
  | VBool bool
  | VInt int
  | VNil
  | VList "gval list"
  | VMap "(string \<times> gval) list"
  | VStruct "(string \<times> gval) list"

text \<open>A field is its JSON name, whether it has \<open>omitempty\<close>, and its shape.\<close>

fun zero_of :: "shape \<Rightarrow> gval" where
  "zero_of SStr = VStr []"
| "zero_of SBool = VBool False"
| "zero_of (SUint b) = VInt 0"
| "zero_of (SInt b) = VInt 0"
| "zero_of STime = VStr []"
| "zero_of (SStruct fs) = VStruct (map (\<lambda>(n, om, sh). (n, zero_of sh)) fs)"
| "zero_of _ = VNil"

fun members :: "gval \<Rightarrow> (string \<times> gval) list" where
  "members (VMap m) = m"
| "members (VStruct m) = m"
| "members _ = []"

definition vfield :: "string \<Rightarrow> gval \<Rightarrow> gval" where
  "vfield n v = (case map_of (members v) n of Some x \<Rightarrow> x | None \<Rightarrow> VNil)"

fun vstr :: "gval \<Rightarrow> string" where
  "vstr (VStr s) = s"
| "vstr _ = []"

fun vint :: "gval \<Rightarrow> int" where
  "vint (VInt i) = i"
| "vint _ = 0"

fun vlist :: "gval \<Rightarrow> gval list" where
  "vlist (VList vs) = vs"
| "vlist _ = []"

definition vstrs :: "gval \<Rightarrow> string list" where
  "vstrs v = map vstr (vlist v)"

text \<open>A slice that is empty is written as one that was never set.\<close>

definition strs_val :: "string list \<Rightarrow> gval" where
  "strs_val xs = (if xs = [] then VNil else VList (map VStr xs))"

section \<open>Encoding\<close>

text \<open>The empty values of \<open>omitempty\<close>.\<close>

fun is_empty :: "gval \<Rightarrow> bool" where
  "is_empty (VStr s) = (s = [])"
| "is_empty (VBool b) = (\<not> b)"
| "is_empty (VInt i) = (i = 0)"
| "is_empty VNil = True"
| "is_empty (VList vs) = (vs = [])"
| "is_empty (VMap m) = (m = [])"
| "is_empty (VStruct m) = False"

definition num_text :: "int \<Rightarrow> string" where
  "num_text i = (if i < 0 then CHR ''-'' # dec_of_nat (nat (- i)) else dec_of_nat (nat i))"

fun enc :: "shape \<Rightarrow> gval \<Rightarrow> json" where
  "enc SStr v = JStr (vstr v)"
| "enc SBool v = JBool (v = VBool True)"
| "enc (SUint b) v = JNum (num_text (vint v))"
| "enc (SInt b) v = JNum (num_text (vint v))"
| "enc STime v = JNull"
| "enc SBytes v = JNull"
| "enc (SList sh) v = (if v = VNil then JNull else JArr (map (enc sh) (vlist v)))"
| "enc (SMap sh) v =
     (if v = VNil then JNull else JObj (map (\<lambda>(k, x). (k, enc sh x)) (sort_key fst (members v))))"
| "enc (SPtr sh) v = (if v = VNil then JNull else enc sh v)"
| "enc (SStruct fs) v =
     JObj (concat (map (\<lambda>(n, om, sh).
       if om \<and> is_empty (vfield n v) then [] else [(n, enc sh (vfield n v))]) fs))"

section \<open>Decoding\<close>

definition upper :: "char \<Rightarrow> char" where
  "upper c = (if 97 \<le> code c \<and> code c \<le> 122 then char_of (code c - 32) else c)"

text \<open>Names up to case: also the long s and the Kelvin sign fold to ASCII letters.\<close>

fun fold_name :: "string \<Rightarrow> string" where
  "fold_name [] = []"
| "fold_name (c # r) =
     (if code c = 0xC5 \<and> r \<noteq> [] \<and> code (hd r) = 0xBF then CHR ''S'' # fold_name (tl r)
      else if code c = 0xE2 \<and> take 2 r = bytes_of [0x84, 0xAA] then CHR ''K'' # fold_name (drop 2 r)
      else upper c # fold_name r)"

definition find_field :: "(string \<times> bool \<times> shape) list \<Rightarrow> string \<Rightarrow> (string \<times> bool \<times> shape) option" where
  "find_field fs k =
     (case List.find (\<lambda>f. fst f = k) fs of
        Some f \<Rightarrow> Some f
      | None \<Rightarrow> List.find (\<lambda>f. fold_name (fst f) = fold_name k) fs)"

definition uint_of :: "nat \<Rightarrow> string \<Rightarrow> int option" where
  "uint_of b s = (if digits1 s \<and> nat_of_dec s < 2 ^ b then Some (int (nat_of_dec s)) else None)"

definition int_of :: "nat \<Rightarrow> string \<Rightarrow> int option" where
  "int_of b s =
     (let neg = has_prefix s ''-''; d = (if neg then tl s else s); n = int (nat_of_dec d) in
      if \<not> digits1 d then None
      else if neg then (if n \<le> 2 ^ (b - 1) then Some (- n) else None)
      else (if n < 2 ^ (b - 1) then Some n else None))"

text \<open>RFC 3339 as \<open>time.Time\<close> unmarshals it.\<close>

definition two_digits :: "string \<Rightarrow> nat \<Rightarrow> nat option" where
  "two_digits s i =
     (let d = take 2 (drop i s) in if length d = 2 \<and> list_all is_digit d then Some (nat_of_dec d) else None)"

definition in_field :: "string \<Rightarrow> nat \<Rightarrow> nat \<Rightarrow> nat \<Rightarrow> bool" where
  "in_field s i lo hi = (case two_digits s i of Some n \<Rightarrow> lo \<le> n \<and> n \<le> hi | None \<Rightarrow> False)"

definition leap :: "nat \<Rightarrow> bool" where
  "leap y = (y mod 4 = 0 \<and> (y mod 100 \<noteq> 0 \<or> y mod 400 = 0))"

definition days_in :: "nat \<Rightarrow> nat \<Rightarrow> nat" where
  "days_in y m = (if m = 2 then (if leap y then 29 else 28) else if m \<in> {4, 6, 9, 11} then 30 else 31)"

definition zone_ok :: "string \<Rightarrow> bool" where
  "zone_ok z = (z = ''Z'' \<or> (length z = 6 \<and> hd z \<in> set ''+-'' \<and> in_field z 1 0 23 \<and> z ! 3 = CHR '':'' \<and> in_field z 4 0 59))"

definition time_ok :: "string \<Rightarrow> bool" where
  "time_ok s =
     (19 < length s \<and> list_all is_digit (take 4 s) \<and> s ! 4 = CHR ''-'' \<and> s ! 7 = CHR ''-'' \<and> s ! 10 = CHR ''T''
      \<and> s ! 13 = CHR '':'' \<and> s ! 16 = CHR '':'' \<and> in_field s 5 1 12
      \<and> in_field s 8 1 (days_in (nat_of_dec (take 4 s)) (nat_of_dec (take 2 (drop 5 s))))
      \<and> in_field s 11 0 23 \<and> in_field s 14 0 59 \<and> in_field s 17 0 59
      \<and> (let r = drop 19 s in
           if hd r = CHR ''.'' then takeWhile is_digit (tl r) \<noteq> [] \<and> zone_ok (dropWhile is_digit (tl r)) else zone_ok r))"

definition base64_char :: "char \<Rightarrow> bool" where
  "base64_char c =
     (is_digit c \<or> 65 \<le> code c \<and> code c \<le> 90 \<or> 97 \<le> code c \<and> code c \<le> 122 \<or> c \<in> set ''+/'')"

definition base64_ok :: "string \<Rightarrow> bool" where
  "base64_ok s =
     (let t = filter (\<lambda>c. code c \<noteq> 10 \<and> code c \<noteq> 13) s; pad = takeWhile (\<lambda>c. c = CHR ''='') (rev t)
      in length t mod 4 = 0 \<and> length pad \<le> 2 \<and> list_all base64_char (take (length t - length pad) t))"

definition put_member :: "string \<Rightarrow> gval \<Rightarrow> (string \<times> gval) list \<Rightarrow> (string \<times> gval) list" where
  "put_member k x m = (if k \<in> fst ` set m then map (\<lambda>(n, y). (n, if n = k then x else y)) m else m @ [(k, x)])"

function (sequential) dec :: "shape \<Rightarrow> gval \<Rightarrow> json \<Rightarrow> gval option"
  and dec_elems :: "shape \<Rightarrow> json list \<Rightarrow> gval list option"
  and dec_map :: "shape \<Rightarrow> (string \<times> gval) list \<Rightarrow> (string \<times> json) list \<Rightarrow> (string \<times> gval) list option"
  and dec_fields :: "(string \<times> bool \<times> shape) list \<Rightarrow> (string \<times> gval) list \<Rightarrow> (string \<times> json) list
        \<Rightarrow> (string \<times> gval) list option" where
  "dec SStr cur j = (case j of JNull \<Rightarrow> Some cur | JStr s \<Rightarrow> Some (VStr s) | _ \<Rightarrow> None)"
| "dec SBool cur j = (case j of JNull \<Rightarrow> Some cur | JBool b \<Rightarrow> Some (VBool b) | _ \<Rightarrow> None)"
| "dec (SUint b) cur j = (case j of JNull \<Rightarrow> Some cur | JNum n \<Rightarrow> map_option VInt (uint_of b n) | _ \<Rightarrow> None)"
| "dec (SInt b) cur j = (case j of JNull \<Rightarrow> Some cur | JNum n \<Rightarrow> map_option VInt (int_of b n) | _ \<Rightarrow> None)"
| "dec STime cur j =
     (case j of JNull \<Rightarrow> Some cur | JStr s \<Rightarrow> if time_ok s then Some (VStr s) else None | _ \<Rightarrow> None)"
| "dec SBytes cur j =
     (case j of
        JNull \<Rightarrow> Some VNil
      | JStr s \<Rightarrow> if base64_ok s then Some (VStr s) else None
      | JArr vs \<Rightarrow> map_option VList (dec_elems (SUint 8) vs)
      | _ \<Rightarrow> None)"
| "dec (SList sh) cur j =
     (case j of JNull \<Rightarrow> Some VNil | JArr vs \<Rightarrow> map_option VList (dec_elems sh vs) | _ \<Rightarrow> None)"
| "dec (SMap sh) cur j =
     (case j of JNull \<Rightarrow> Some VNil | JObj ms \<Rightarrow> map_option VMap (dec_map sh (members cur) ms) | _ \<Rightarrow> None)"
| "dec (SPtr sh) cur j =
     (if j = JNull then Some VNil else dec sh (if cur = VNil then zero_of sh else cur) j)"
| "dec (SStruct fs) cur j =
     (case j of JNull \<Rightarrow> Some cur | JObj ms \<Rightarrow> map_option VStruct (dec_fields fs (members cur) ms) | _ \<Rightarrow> None)"
| "dec_elems sh [] = Some []"
| "dec_elems sh (v # vs) =
     (case dec sh (zero_of sh) v of None \<Rightarrow> None | Some x \<Rightarrow> map_option ((#) x) (dec_elems sh vs))"
| "dec_map sh m [] = Some m"
| "dec_map sh m ((k, v) # ms) =
     (case dec sh (zero_of sh) v of None \<Rightarrow> None | Some x \<Rightarrow> dec_map sh (put_member k x m) ms)"
| "dec_fields fs m [] = Some m"
| "dec_fields fs m ((k, v) # ms) =
     (case find_field fs k of
        None \<Rightarrow> dec_fields fs m ms
      | Some (n, om, sh) \<Rightarrow>
          (case dec sh (vfield n (VStruct m)) v of
             None \<Rightarrow> None
           | Some x \<Rightarrow> dec_fields fs (put_member n x m) ms))"
  by pat_completeness auto
termination
  by (relation "measures [
      \<lambda>x. case x of Inl (Inl (sh, cur, j)) \<Rightarrow> size j | Inl (Inr (sh, vs)) \<Rightarrow> size_list size vs
        | Inr (Inl (sh, m, ms)) \<Rightarrow> size_list (\<lambda>x. Suc (size (snd x))) ms
        | Inr (Inr (fs, m, ms)) \<Rightarrow> size_list (\<lambda>x. Suc (size (snd x))) ms,
      \<lambda>x. case x of Inl (Inl (sh, cur, j)) \<Rightarrow> size sh | _ \<Rightarrow> 0]")
    (auto simp: size_prod_simp)

text \<open>\<open>json.Unmarshal\<close> into a zero value.\<close>

definition unmarshal :: "shape \<Rightarrow> string \<Rightarrow> gval option" where
  "unmarshal sh b = Option.bind (parse_json b) (dec sh (zero_of sh))"

definition marshal :: "shape \<Rightarrow> gval \<Rightarrow> string" where
  "marshal sh v = marshal_indent (enc sh v)"

section \<open>The round trip\<close>

text \<open>Field names are distinct, all the way down, and pointers are to structs and times.\<close>

fun shape_ok :: "shape \<Rightarrow> bool" where
  "shape_ok (SList sh) = shape_ok sh"
| "shape_ok (SMap sh) = shape_ok sh"
| "shape_ok (SPtr sh) = (shape_ok sh \<and> (case sh of SStruct _ \<Rightarrow> True | STime \<Rightarrow> True | _ \<Rightarrow> False))"
| "shape_ok (SStruct fs) =
     (distinct (map fst fs) \<and> list_all (\<lambda>(n, om, sh). utf8_fix n = n \<and> shape_ok sh) fs)"
| "shape_ok sh = True"

text \<open>
  The values that survive: of the right type, with UTF-8 strings, numbers in range, maps with sorted
  keys; and where an empty value is left out, it is the zero value of its type.  Times and byte slices
  only survive when they are left out.
\<close>

fun wt :: "shape \<Rightarrow> gval \<Rightarrow> bool" where
  "wt SStr v = (case v of VStr s \<Rightarrow> utf8_fix s = s | _ \<Rightarrow> False)"
| "wt SBool v = (case v of VBool b \<Rightarrow> True | _ \<Rightarrow> False)"
| "wt (SUint b) v = (case v of VInt i \<Rightarrow> 0 \<le> i \<and> i < 2 ^ b | _ \<Rightarrow> False)"
| "wt (SInt b) v = (case v of VInt i \<Rightarrow> - (2 ^ (b - 1)) \<le> i \<and> i < 2 ^ (b - 1) | _ \<Rightarrow> False)"
| "wt (SList sh) v = (case v of VNil \<Rightarrow> True | VList vs \<Rightarrow> list_all (wt sh) vs | _ \<Rightarrow> False)"
| "wt (SMap sh) v =
     (case v of
        VNil \<Rightarrow> True
      | VMap m \<Rightarrow> sorted (map fst m) \<and> distinct (map fst m) \<and> list_all (\<lambda>(k, x). utf8_fix k = k \<and> wt sh x) m
      | _ \<Rightarrow> False)"
| "wt (SPtr sh) v = (v = VNil \<or> wt sh v)"
| "wt (SStruct fs) v =
     (case v of
        VStruct m \<Rightarrow> map fst m = map fst fs \<and>
          list_all (\<lambda>(n, om, sh).
            if om \<and> is_empty (vfield n v) then vfield n v = zero_of sh else wt sh (vfield n v)) fs
      | _ \<Rightarrow> False)"
| "wt _ v = False"

lemma dec_digits: "digits1 (dec_of_nat n)"
  by (simp add: digits1_def dec_of_nat_digits)

lemma dec_no_minus: "\<not> has_prefix (dec_of_nat n) ''-''"
proof
  assume "has_prefix (dec_of_nat n) ''-''"
  then have "CHR ''-'' \<in> set (dec_of_nat n)" by (auto simp: has_prefix_def prefix_def)
  then show False using dec_of_nat_char_free [of "CHR ''-''" n] by (simp add: is_digit_def)
qed

lemma uint_of_text: "0 \<le> i \<Longrightarrow> i < 2 ^ b \<Longrightarrow> uint_of b (num_text i) = Some i"
  by (simp add: uint_of_def num_text_def dec_digits nat_less_numeral_power_cancel_iff nat_less_iff)

lemma int_of_text:
  assumes "- (2 ^ (b - 1)) \<le> i" and "i < 2 ^ (b - 1)"
  shows "int_of b (num_text i) = Some i"
proof (cases "i < 0")
  case True
  then have "num_text i = CHR ''-'' # dec_of_nat (nat (- i))" by (simp add: num_text_def)
  with True assms(1) show ?thesis by (simp add: int_of_def has_prefix_def dec_digits)
next
  case False
  then have "num_text i = dec_of_nat (nat i)" by (simp add: num_text_def)
  with False assms(2) show ?thesis by (simp add: int_of_def dec_no_minus dec_digits)
qed

lemma digit_num_char:
  assumes "is_digit c"
  shows "c \<in> set num_chars"
proof -
  have "list_all (\<lambda>k. digit_char k \<in> set num_chars) [0 ..< 10]" by code_simp
  moreover have "c = digit_char (code c - 48)" "code c - 48 < 10"
    using assms by (auto simp: is_digit_def code_def digit_char_def)
  ultimately show ?thesis by (metis atLeastLessThan_iff le0 list_all_iff set_upt)
qed

lemma digits_split: "list_all is_digit d \<Longrightarrow> takeWhile is_digit d = d \<and> dropWhile is_digit d = []"
  by (simp add: list_all_iff)

lemma digit_char_0: "digit_char 0 = CHR ''0''"
  by code_simp

lemma dec_hd: "hd (dec_of_nat n) = CHR ''0'' \<longleftrightarrow> n = 0"
proof (induction n rule: dec_of_nat.induct)
  case (1 n)
  show ?case
  proof (cases "n < 10")
    case True
    have "digit_char n = digit_char 0 \<longleftrightarrow> n = 0" using True digit_val_char [of n] digit_val_char [of 0] by fastforce
    then show ?thesis using True by (subst dec_of_nat.simps) (simp add: digit_char_0)
  next
    case False
    then have "hd (dec_of_nat n) = hd (dec_of_nat (n div 10))"
      by (subst dec_of_nat.simps) simp
    with 1 False show ?thesis by simp
  qed
qed

lemma number_text: "number_ok (num_text i) \<and> set (num_text i) \<subseteq> set num_chars"
proof -
  have pos: "number_ok (dec_of_nat n) \<and> number_ok (CHR ''-'' # dec_of_nat n) \<and> set (dec_of_nat n) \<subseteq> set num_chars" for n
  proof -
    have z: "hd (dec_of_nat n) = CHR ''0'' \<longrightarrow> dec_of_nat n = ''0''"
      by (simp add: dec_hd) (subst dec_of_nat.simps, simp add: digit_char_0)
    note d = digits_split [OF dec_of_nat_digits [of n]]
    have "number_ok (dec_of_nat n)"
      using z dec_no_minus [of n] by (simp add: number_ok_def Let_def has_prefix_def d)
    moreover have "number_ok (CHR ''-'' # dec_of_nat n)"
      using z by (simp add: number_ok_def Let_def has_prefix_def d)
    moreover have "set (dec_of_nat n) \<subseteq> set num_chars"
      using dec_of_nat_digits [of n] digit_num_char by (auto simp: list_all_iff)
    ultimately show ?thesis by simp
  qed
  then show ?thesis
    using pos [of "nat i"] pos [of "nat (- i)"] by (auto simp: num_text_def num_chars_def)
qed

lemma enc_ok: "json_ok (enc sh v)"
proof (induction sh v rule: enc.induct)
  case (10 fs v)
  then show ?case by (force simp: list_all_iff)
qed (auto simp: list_all_iff number_text)

lemma sorted_id: "sorted (map fst m) \<Longrightarrow> sort_key fst m = m"
  by (simp add: sort_key_id_if_sorted)

lemma enc_fix: "shape_ok sh \<Longrightarrow> wt sh v \<Longrightarrow> json_fix (enc sh v) = enc sh v"
proof (induction sh v rule: enc.induct)
  case (7 sh v)
  then show ?case by (cases v) (auto simp: list_all_iff)
next
  case (8 sh v)
  then show ?case by (cases v) (auto simp: list_all_iff sorted_id)
next
  case (10 fs v)
  then obtain m where v: "v = VStruct m" by (cases v) auto
  have "utf8_fix n = n \<and> json_fix (enc sh (vfield n v)) = enc sh (vfield n v)" if "(n, om, sh) \<in> set fs"
      and "\<not> (om \<and> is_empty (vfield n v))" for n om sh
    using 10 that v by (auto simp: list_all_iff split: prod.splits if_splits)
  then show ?case by (simp add: map_concat o_def) (rule arg_cong [where f = concat], rule map_cong, auto)
qed (auto split: gval.splits)

text \<open>The fields of a value that have been filled in so far.\<close>

definition partial_val :: "(string \<times> bool \<times> shape) list \<Rightarrow> gval \<Rightarrow> string set \<Rightarrow> (string \<times> gval) list" where
  "partial_val fs v N = map (\<lambda>(n, om, sh). (n, if n \<in> N then vfield n v else zero_of sh)) fs"

lemma partial_names: "map fst (partial_val fs v N) = map fst fs"
  by (auto simp: partial_val_def)

lemma partial_field:
  "distinct (map fst fs) \<Longrightarrow> (n, om, sh) \<in> set fs \<Longrightarrow> n \<notin> N \<Longrightarrow> vfield n (VStruct (partial_val fs v N)) = zero_of sh"
  by (induction fs) (auto simp: partial_val_def vfield_def image_iff)

lemma partial_insert:
  assumes "distinct (map fst fs)" and "(n, om, sh) \<in> set fs"
  shows "put_member n (vfield n v) (partial_val fs v N) = partial_val fs v (insert n N)"
proof -
  have "n \<in> fst ` set (partial_val fs v N)"
    using assms(2) by (force simp: partial_val_def)
  then show ?thesis by (auto simp: put_member_def partial_val_def)
qed

lemma partial_zero:
  assumes "distinct (map fst fs)" and "(n, om, sh) \<in> set fs" and "vfield n v = zero_of sh"
  shows "partial_val fs v (insert n N) = partial_val fs v N"
  using assms by (auto simp: partial_val_def dest: eq_key_imp_eq_value)

lemma find_field_exact: "distinct (map fst fs) \<Longrightarrow> (n, om, sh) \<in> set fs \<Longrightarrow> find_field fs n = Some (n, om, sh)"
proof -
  have "distinct (map fst fs) \<Longrightarrow> (n, om, sh) \<in> set fs \<Longrightarrow> List.find (\<lambda>f. fst f = n) fs = Some (n, om, sh)"
    by (induction fs) (auto simp: image_iff)
  then show "distinct (map fst fs) \<Longrightarrow> (n, om, sh) \<in> set fs \<Longrightarrow> ?thesis" by (simp add: find_field_def)
qed

lemma dec_enc_fields:
  assumes "distinct (map fst fs)"
    and "\<And>n om sh. (n, om, sh) \<in> set gs \<Longrightarrow> \<not> (om \<and> is_empty (vfield n v)) \<Longrightarrow>
      dec sh (zero_of sh) (enc sh (vfield n v)) = Some (vfield n v)"
    and "\<And>n om sh. (n, om, sh) \<in> set gs \<Longrightarrow> om \<Longrightarrow> is_empty (vfield n v) \<Longrightarrow> vfield n v = zero_of sh"
    and "set gs \<subseteq> set fs" and "distinct (map fst gs)" and "fst ` set gs \<inter> N = {}"
  shows "dec_fields fs (partial_val fs v N)
      (concat (map (\<lambda>(n, om, sh). if om \<and> is_empty (vfield n v) then [] else [(n, enc sh (vfield n v))]) gs)) =
    Some (partial_val fs v (fst ` set gs \<union> N))"
  using assms(2-)
proof (induction gs arbitrary: N)
  case (Cons g gs)
  obtain n om sh where g: "g = (n, om, sh)" by (cases g)
  with Cons.prems have mem: "(n, om, sh) \<in> set fs" "n \<notin> N" by auto
  have rest: "dec_fields fs (partial_val fs v (insert n N))
      (concat (map (\<lambda>(n, om, sh). if om \<and> is_empty (vfield n v) then [] else [(n, enc sh (vfield n v))]) gs)) =
    Some (partial_val fs v (fst ` set gs \<union> insert n N))"
    using Cons.prems g by (intro Cons.IH) auto
  show ?case
  proof (cases "om \<and> is_empty (vfield n v)")
    case True
    then have "vfield n v = zero_of sh" using Cons.prems(2) [of n om sh] g by simp
    then have "partial_val fs v N = partial_val fs v (insert n N)"
      using partial_zero [OF assms(1) mem(1)] by simp
    with True rest g show ?thesis by simp
  next
    case False
    then have "dec sh (zero_of sh) (enc sh (vfield n v)) = Some (vfield n v)"
      using Cons.prems(1) [of n om sh] g by simp
    with False rest g show ?thesis
      by (auto simp: find_field_exact [OF assms(1) mem(1)] partial_field [OF assms(1) mem]
          partial_insert [OF assms(1) mem(1)])
  qed
qed simp

lemma partial_all:
  assumes "map fst m = map fst fs" and "distinct (map fst fs)"
  shows "partial_val fs (VStruct m) (fst ` set fs) = m"
proof (rule nth_equalityI)
  show len: "length (partial_val fs (VStruct m) (fst ` set fs)) = length m"
    using arg_cong [OF assms(1), of length] by (simp add: partial_val_def)
  fix i assume i: "i < length (partial_val fs (VStruct m) (fst ` set fs))"
  then have l: "i < length fs" "i < length m" using len by (simp_all add: partial_val_def)
  have n: "fst (m ! i) = fst (fs ! i)" using assms(1) l by (metis nth_map)
  have "map_of m (fst (m ! i)) = Some (snd (m ! i))"
    using assms l(2) by (simp add: map_of_eq_Some_iff)
  moreover have "partial_val fs (VStruct m) (fst ` set fs) ! i = (fst (fs ! i), vfield (fst (fs ! i)) (VStruct m))"
    using l(1) by (simp add: partial_val_def split: prod.splits)
      (metis fst_conv image_eqI nth_mem)
  ultimately show "partial_val fs (VStruct m) (fst ` set fs) ! i = m ! i"
    using n by (simp add: vfield_def prod_eq_iff)
qed

lemma dec_enc_elems:
  "(\<And>v. v \<in> set vs \<Longrightarrow> dec sh (zero_of sh) (enc sh v) = Some v) \<Longrightarrow> dec_elems sh (map (enc sh) vs) = Some vs"
  by (induction vs) auto

lemma dec_enc_map:
  "(\<forall>v \<in> snd ` set ms. dec sh (zero_of sh) (enc sh v) = Some v) \<Longrightarrow> distinct (map fst (ns @ ms)) \<Longrightarrow>
   dec_map sh ns (map (\<lambda>(k, x). (k, enc sh x)) ms) = Some (ns @ ms)"
  by (induction ms arbitrary: ns) (auto simp: put_member_def)

lemma dec_enc: "shape_ok sh \<Longrightarrow> wt sh v \<Longrightarrow> dec sh (zero_of sh) (enc sh v) = Some v"
proof (induction sh v rule: enc.induct)
  case (7 sh v)
  then show ?case by (cases v) (auto simp: list_all_iff dec_enc_elems)
next
  case (8 sh v)
  show ?case
  proof (cases v)
    case (VMap m)
    with 8 have "dec_map sh [] (map (\<lambda>(k, x). (k, enc sh x)) m) = Some ([] @ m)"
      by (intro dec_enc_map) (auto simp: list_all_iff sorted_id)
    with 8 VMap show ?thesis by (simp add: sorted_id)
  qed (use 8 in auto)
next
  case (9 sh v)
  show ?case
  proof (cases "v = VNil")
    case False
    from 9(2) consider fs where "sh = SStruct fs" | "sh = STime" by (cases sh) auto
    then show ?thesis using 9 False by cases simp_all
  qed simp
next
  case (10 fs v)
  then obtain m where v: "v = VStruct m" "map fst m = map fst fs" by (cases v) auto
  have z: "members (zero_of (SStruct fs)) = partial_val fs v {}" by (simp add: partial_val_def)
  have "dec_fields fs (partial_val fs v {})
      (concat (map (\<lambda>(n, om, sh). if om \<and> is_empty (vfield n v) then [] else [(n, enc sh (vfield n v))]) fs)) =
    Some (partial_val fs v (fst ` set fs \<union> {}))"
  proof (rule dec_enc_fields)
    show "distinct (map fst fs)" "distinct (map fst fs)" using 10(2) by simp_all
    fix n om sh assume f: "(n, om, sh) \<in> set fs"
    have ok: "shape_ok sh" using 10(2) f by (auto simp: list_all_iff)
    have w: "\<not> (om \<and> is_empty (vfield n v)) \<Longrightarrow> wt sh (vfield n v)"
        "om \<Longrightarrow> is_empty (vfield n v) \<Longrightarrow> vfield n v = zero_of sh"
      using 10(3) f v by (auto simp: list_all_iff split: if_splits)
    show "is_empty (vfield n v) \<Longrightarrow> om \<Longrightarrow> vfield n v = zero_of sh" using w(2) by simp
    assume "\<not> (om \<and> is_empty (vfield n v))"
    then show "dec sh (zero_of sh) (enc sh (vfield n v)) = Some (vfield n v)"
      using 10(1) f ok w(1) by blast
  qed auto
  moreover have "partial_val fs v (fst ` set fs \<union> {}) = m"
    using partial_all [OF v(2)] 10(2) v(1) by simp
  ultimately show ?case using z by (simp add: v(1) [symmetric])
qed (auto simp: uint_of_text int_of_text split: gval.splits)

lemma unmarshal_marshal: "shape_ok sh \<Longrightarrow> wt sh v \<Longrightarrow> unmarshal sh (marshal sh v) = Some v"
  by (simp add: unmarshal_def marshal_def parse_marshal enc_ok enc_fix dec_enc)

end
