(* ===== verification/Config_File.thy ===== *)
theory Config_File
  imports Config_Users Json_Struct
begin

text \<open>
  The file the runtime leaves for the guest (\<open>configFile\<close> and \<open>marshalConfig\<close> in \<open>configspec.go\<close>):
  its JSON text, and what reading it back gives.  A file format is a \<open>codec\<close>; the locale says what
  writing a file in it and reading the file back gives, and is interpreted for this format here and
  for the pod specification later.
\<close>

section \<open>File formats\<close>

locale codec =
  fixes to_text :: "'a \<Rightarrow> string"
    and of_text :: "string \<Rightarrow> 'a option"
    and fits :: "'a \<Rightarrow> bool"
  assumes decode: "fits x \<Longrightarrow> of_text (to_text x) = Some x"
begin

lemma text_inject: "fits x \<Longrightarrow> fits y \<Longrightarrow> to_text x = to_text y \<longleftrightarrow> x = y"
  by (metis decode option.inject)

lemma stored:
  assumes "fits x" and "writable_at s p"
    and "\<And>i. node_at s p = Some (File i) \<Longrightarrow> allowed s r_bit (i_mode (fs_inodes s i))"
    and "node_at s p = None \<Longrightarrow> allowed s r_bit (created_mode s mode)"
  shows "\<exists>s' b. os_write_file (abs_path p) (to_text x) mode s = (Inr (), s')
    \<and> os_read_file (abs_path p) s' = (Inr b, s') \<and> of_text b = Some x"
  using write_file_run [OF assms(2)] read_after_write [OF assms(2-4)] decode [OF assms(1)] by blast

end

section \<open>The configuration file\<close>

definition user_shape :: shape where
  "user_shape = SStruct [(''uid'', False, SUint 32), (''gid'', False, SUint 32)]"

definition process_shape :: shape where
  "process_shape = SStruct
     [(''args'', False, SList SStr), (''env'', False, SList SStr), (''cwd'', False, SStr), (''user'', False, user_shape)]"

definition config_shape :: shape where
  "config_shape = SStruct [(''process'', False, process_shape)]"

definition process_val :: "process_spec \<Rightarrow> gval" where
  "process_val p = VStruct
     [(''args'', strs_val (ps_args p)), (''env'', strs_val (ps_env p)), (''cwd'', VStr (ps_cwd p)),
      (''user'', VStruct [(''uid'', VInt (uint (ps_uid p))), (''gid'', VInt (uint (ps_gid p)))])]"

definition process_of :: "gval \<Rightarrow> process_spec" where
  "process_of v =
     \<lparr>ps_args = vstrs (vfield ''args'' v), ps_env = vstrs (vfield ''env'' v), ps_cwd = vstr (vfield ''cwd'' v),
      ps_uid = word_of_int (vint (vfield ''uid'' (vfield ''user'' v))),
      ps_gid = word_of_int (vint (vfield ''gid'' (vfield ''user'' v)))\<rparr>"

definition marshal_config :: "process_spec \<Rightarrow> string" where
  "marshal_config p = marshal config_shape (VStruct [(''process'', process_val p)])"

definition unmarshal_config :: "string \<Rightarrow> process_spec option" where
  "unmarshal_config b = map_option (\<lambda>v. process_of (vfield ''process'' v)) (unmarshal config_shape b)"

text \<open>Every string is UTF-8, so that nothing is replaced.\<close>

definition utf8 :: "string \<Rightarrow> bool" where
  "utf8 s = (utf8_fix s = s)"

definition config_ok :: "process_spec \<Rightarrow> bool" where
  "config_ok p = (list_all utf8 (ps_args p) \<and> list_all utf8 (ps_env p) \<and> utf8 (ps_cwd p))"

lemma vstrs_val [simp]: "vstrs (strs_val xs) = xs"
  by (simp add: vstrs_def strs_val_def o_def)

lemma process_of_val: "process_of (process_val p) = p"
  by (simp add: process_of_def process_val_def vfield_def)

lemma config_shape_ok: "shape_ok config_shape"
  by code_simp

lemma wt_strs: "wt (SList SStr) (strs_val xs) \<longleftrightarrow> list_all utf8 xs"
  by (simp add: strs_val_def list_all_iff utf8_def)

lemma uint_u32: "0 \<le> uint (w :: u32) \<and> uint w < 2 ^ 32"
  using uint_bounded [of w] by simp

lemma config_wt: "config_ok p \<Longrightarrow> wt config_shape (VStruct [(''process'', process_val p)])"
  using uint_u32 [of "ps_uid p"] uint_u32 [of "ps_gid p"]
  by (simp add: config_shape_def process_shape_def user_shape_def process_val_def config_ok_def vfield_def
      wt_strs utf8_def del: wt.simps(5)) 

lemma config_decode: "config_ok p \<Longrightarrow> unmarshal_config (marshal_config p) = Some p"
  using unmarshal_marshal [OF config_shape_ok config_wt]
  by (simp add: unmarshal_config_def marshal_config_def vfield_def process_of_val)

interpretation config: codec marshal_config unmarshal_config config_ok
  by unfold_locales (rule config_decode)

text \<open>
  C26. The configuration file round-trips: reading back what \<open>marshalConfig\<close> wrote gives the same
  process, when its strings are UTF-8; in particular two processes have the same file only when they
  are equal.
\<close>

theorem config_roundtrip:
  assumes "config_ok p" and "config_ok q"
  shows "unmarshal_config (marshal_config p) = Some p
    \<and> (marshal_config p = marshal_config q \<longleftrightarrow> p = q)"
  using assms by (simp add: config_decode config.text_inject)

definition sample_process :: process_spec where
  "sample_process =
     \<lparr>ps_args = [''sh'', ''-c'', ''a<b''], ps_env = [''K=v''], ps_cwd = ''/'', ps_uid = 1000, ps_gid = 0xFFFFFFFF\<rparr>"

lemma sample_process_ok: "config_ok sample_process"
  by (simp add: config_ok_def sample_process_def utf8_def utf8_fix_ascii code_def)

theorem config_roundtrip_witness:
  "unmarshal_config (marshal_config sample_process) = Some sample_process"
  using config_roundtrip [OF sample_process_ok sample_process_ok] by simp

text \<open>
  Numeric users are read at their width: \<open>m:n\<close> gives exactly the ids \<open>m\<close> and \<open>n\<close> when both are
  below \<open>2^32\<close>, and an error otherwise; no number wraps around.
\<close>

theorem numeric_ids_bounded:
  "case parse_image_user (dec_of_nat m @ '':'' @ dec_of_nat n) of
     Inr (uid, gid) \<Rightarrow> unat uid = m \<and> unat gid = n
   | Inl _ \<Rightarrow> 2 ^ 32 \<le> m \<or> 2 ^ 32 \<le> n"
proof -
  have p: "parse_uint32 (dec_of_nat k) = (if k < 2 ^ 32 then Some (of_nat k) else None)" for k
    by (simp add: parse_uint32_def dec_of_nat_digits)
  have "cut_chr CHR '':'' (dec_of_nat m @ CHR '':'' # dec_of_nat n) = Some (dec_of_nat m, dec_of_nat n)"
    by (rule cut_chr_append) (simp add: dec_of_nat_char_free is_digit_def)
  then show ?thesis
    by (auto simp: parse_image_user_def p unat_of_nat)
qed

end
