(* ===== verification/Oci.thy ===== *)
theory Oci
  imports Config_File
begin

text \<open>
  The OCI documents the program reads: descriptors, manifests, indexes and image configurations
  (\<open>github.com/opencontainers/image-spec\<close>), with the fields the program looks at; the other fields
  only matter for whether a document is refused.
\<close>

section \<open>The types\<close>

definition str_list :: shape where "str_list = SList SStr"
definition str_map :: shape where "str_map = SMap SStr"

definition platform_fields :: "(string \<times> bool \<times> shape) list" where
  "platform_fields =
     [(''architecture'', False, SStr), (''os'', False, SStr), (''os.version'', True, SStr),
      (''os.features'', True, str_list), (''variant'', True, SStr)]"

definition descriptor_shape :: shape where
  "descriptor_shape = SStruct
     [(''mediaType'', False, SStr), (''digest'', False, SStr), (''size'', False, SInt 64), (''urls'', True, str_list),
      (''annotations'', True, str_map), (''data'', True, SBytes), (''platform'', True, SPtr (SStruct platform_fields)),
      (''artifactType'', True, SStr)]"

definition manifest_shape :: shape where
  "manifest_shape = SStruct
     [(''schemaVersion'', False, SInt 64), (''mediaType'', True, SStr), (''artifactType'', True, SStr),
      (''config'', False, descriptor_shape), (''layers'', False, SList descriptor_shape),
      (''subject'', True, SPtr descriptor_shape), (''annotations'', True, str_map)]"

definition index_shape :: shape where
  "index_shape = SStruct
     [(''schemaVersion'', False, SInt 64), (''mediaType'', True, SStr), (''artifactType'', True, SStr),
      (''manifests'', False, SList descriptor_shape), (''subject'', True, SPtr descriptor_shape),
      (''annotations'', True, str_map)]"

definition image_config_shape :: shape where
  "image_config_shape = SStruct
     [(''User'', True, SStr), (''ExposedPorts'', True, SMap (SStruct [])), (''Env'', True, str_list),
      (''Entrypoint'', True, str_list), (''Cmd'', True, str_list), (''Volumes'', True, SMap (SStruct [])),
      (''WorkingDir'', True, SStr), (''Labels'', True, str_map), (''StopSignal'', True, SStr),
      (''ArgsEscaped'', True, SBool)]"

definition history_shape :: shape where
  "history_shape = SStruct
     [(''created'', True, SPtr STime), (''created_by'', True, SStr), (''author'', True, SStr),
      (''comment'', True, SStr), (''empty_layer'', True, SBool)]"

definition image_shape :: shape where
  "image_shape = SStruct
     ([(''created'', True, SPtr STime), (''author'', True, SStr)] @ platform_fields @
      [(''config'', True, image_config_shape),
       (''rootfs'', False, SStruct [(''type'', False, SStr), (''diff_ids'', False, str_list)]),
       (''history'', True, SList history_shape)])"

section \<open>The documents\<close>

record platform =
  pl_architecture :: string
  pl_os :: string

record descriptor =
  d_media_type :: string
  d_digest :: string
  d_size :: int
  d_platform :: "platform option"

record manifest =
  mf_config :: descriptor
  mf_layers :: "descriptor list"

definition descriptor_of :: "gval \<Rightarrow> descriptor" where
  "descriptor_of v =
     \<lparr>d_media_type = vstr (vfield ''mediaType'' v), d_digest = vstr (vfield ''digest'' v),
      d_size = vint (vfield ''size'' v),
      d_platform = (let p = vfield ''platform'' v in
        if p = VNil then None
        else Some \<lparr>pl_architecture = vstr (vfield ''architecture'' p), pl_os = vstr (vfield ''os'' p)\<rparr>)\<rparr>"

definition decoded :: "(gval \<Rightarrow> 'a) \<Rightarrow> shape \<Rightarrow> string \<Rightarrow> error + 'a" where
  "decoded f sh b = (case unmarshal sh b of Some v \<Rightarrow> Inr (f v) | None \<Rightarrow> Inl (Extern ''encoding/json''))"

definition manifest_of :: "gval \<Rightarrow> manifest" where
  "manifest_of v =
     \<lparr>mf_config = descriptor_of (vfield ''config'' v), mf_layers = map descriptor_of (vlist (vfield ''layers'' v))\<rparr>"

definition index_of :: "gval \<Rightarrow> descriptor list" where
  "index_of v = map descriptor_of (vlist (vfield ''manifests'' v))"

definition image_config_of :: "gval \<Rightarrow> image_config" where
  "image_config_of v =
     (let c = vfield ''config'' v in
      \<lparr>ic_user = vstr (vfield ''User'' c), ic_env = vstrs (vfield ''Env'' c),
       ic_entrypoint = vstrs (vfield ''Entrypoint'' c), ic_cmd = vstrs (vfield ''Cmd'' c),
       ic_working_dir = vstr (vfield ''WorkingDir'' c)\<rparr>)"

definition unmarshal_manifest :: "string \<Rightarrow> error + manifest" where
  "unmarshal_manifest b = decoded manifest_of manifest_shape b"

definition unmarshal_index :: "string \<Rightarrow> error + descriptor list" where
  "unmarshal_index b = decoded index_of index_shape b"

definition unmarshal_image :: "string \<Rightarrow> error + image_config" where
  "unmarshal_image b = decoded image_config_of image_shape b"

end
