(* ===== verification/Cache.thy ===== *)
theory Cache
  imports Go_Path
begin

text \<open>
  Where things live on disk (\<open>cache.go\<close>): the data directory from the environment, the directory of
  one image, and the directory name of an image reference.  The environment is an argument
  (\<open>os.Getenv\<close>, with the empty string for an unset variable).
\<close>

type_synonym environ = "string \<Rightarrow> string"

text \<open>\<open>os.UserHomeDir\<close> on Unix: \<open>$HOME\<close>, an error when it is empty.\<close>

definition user_home_dir :: "environ \<Rightarrow> string option" where
  "user_home_dir env = (if env ''HOME'' \<noteq> [] then Some (env ''HOME'') else None)"

definition data_home :: "environ \<Rightarrow> string" where
  "data_home env =
     (if env ''XDG_DATA_HOME'' \<noteq> [] then env ''XDG_DATA_HOME''
      else case user_home_dir env of
        Some h \<Rightarrow> path_join [h, ''.local'', ''share'']
      | None \<Rightarrow> ''/tmp'')"

definition data_dir :: "environ \<Rightarrow> string" where
  "data_dir env = path_join [data_home env, ''weft-microvm'']"

definition image_root :: "environ \<Rightarrow> string \<Rightarrow> string" where
  "image_root env ref = path_join [data_dir env, ''images'', ref]"

definition rootfs_path :: "environ \<Rightarrow> string \<Rightarrow> string" where
  "rootfs_path env ref = path_join [image_root env ref, ''rootfs'']"

definition kernel_path :: "environ \<Rightarrow> string" where
  "kernel_path env = path_join [data_dir env, ''kernel'']"

definition pod_initrd_path :: "environ \<Rightarrow> string" where
  "pod_initrd_path env = path_join [data_dir env, ''pod-initrd'']"

definition refsafe :: "string \<Rightarrow> string" where
  "refsafe img = map (\<lambda>c. if c = slash \<or> c = CHR '':'' then CHR ''_'' else c) img"

section \<open>Directory names\<close>

lemma refsafe_no_slash: "slash \<notin> set (refsafe img)"
  by (auto simp: refsafe_def)

lemma refsafe_plain_iff:
  "plain (refsafe img) \<longleftrightarrow> img \<noteq> [] \<and> img \<noteq> ''.'' \<and> img \<noteq> ''..''"
proof -
  have dots: "refsafe img = ds \<longleftrightarrow> img = ds" if "set ds \<subseteq> {CHR ''.''}" for ds
    using that
  proof (induction img arbitrary: ds)
    case (Cons c img)
    then show ?case by (cases ds) (auto simp: refsafe_def)
  qed (auto simp: refsafe_def)
  show ?thesis
    using dots [of "[]"] dots [of "''.''"] dots [of "''..''"] refsafe_no_slash [of img]
    by (auto simp: plain_def)
qed

text \<open>Characters the directory name does not tell apart.\<close>

definition same_ref :: "char \<Rightarrow> char \<Rightarrow> bool" where
  "same_ref x y = (x = y \<or> (x \<in> set ''/:_'' \<and> y \<in> set ''/:_''))"

text \<open>
  The directory name of a reference: it never contains a slash or a colon, so it is a single
  path element, and two references share it exactly when they agree up to exchanging \<open>/\<close>, \<open>:\<close> and
  \<open>_\<close> for one another.
\<close>

theorem refsafe_collisions:
  "slash \<notin> set (refsafe a) \<and> CHR '':'' \<notin> set (refsafe a)
   \<and> (refsafe a = refsafe b \<longleftrightarrow> list_all2 same_ref a b)"
proof (intro conjI)
  have "same_ref = (\<lambda>x y. (if x = slash \<or> x = CHR '':'' then CHR ''_'' else x)
      = (if y = slash \<or> y = CHR '':'' then CHR ''_'' else y))"
    by (rule ext)+ (auto simp: same_ref_def)
  then show "refsafe a = refsafe b \<longleftrightarrow> list_all2 same_ref a b"
    by (simp add: refsafe_def list.rel_eq [symmetric] list.rel_map)
qed (auto simp: refsafe_def)

lemma path_join_Cons3:
  "plains D \<Longrightarrow> plain b \<Longrightarrow> plain c \<Longrightarrow> path_join [abs_path D, b, c] = abs_path (D @ [b, c])"
  using path_join_rel [of D "[b, c]"]
  by (simp add: rel_path_def path_join_def join_str_Cons)

lemma data_dir_abs:
  assumes "env ''XDG_DATA_HOME'' = abs_path D" and "plains D"
  shows "data_dir env = abs_path (D @ [''weft-microvm''])"
  using assms by (simp add: data_dir_def data_home_def path_join_plain plain_def)

lemma cache_paths:
  assumes "env ''XDG_DATA_HOME'' = abs_path D" and "plains D"
    and "img \<noteq> []" and "img \<noteq> ''.''" and "img \<noteq> ''..''"
  shows "image_root env (refsafe img) = abs_path (D @ [''weft-microvm'', ''images'', refsafe img])
    \<and> rootfs_path env (refsafe img) =
        abs_path (D @ [''weft-microvm'', ''images'', refsafe img, ''rootfs''])"
proof -
  have p: "plain (refsafe img)" using assms by (simp add: refsafe_plain_iff)
  have d: "plains (D @ [''weft-microvm''])" "plain ''images''" "plain ''rootfs''"
    using assms(2) by (simp_all add: plain_def)
  have root: "image_root env (refsafe img) = abs_path (D @ [''weft-microvm'', ''images'', refsafe img])"
    using path_join_Cons3 [OF d(1,2) p] by (simp add: image_root_def data_dir_abs [of env D, OF assms(1,2)])
  moreover have "plains (D @ [''weft-microvm'', ''images'', refsafe img])"
    using d p assms(2) by simp
  ultimately show ?thesis
    using path_join_plain [OF _ d(3)] by (simp add: rootfs_path_def)
qed

text \<open>
  With an absolute data home, everything of an image is below one directory named after its
  reference, unless the reference is empty, \<open>.\<close> or \<open>..\<close>.
\<close>

theorem image_paths:
  assumes "env ''XDG_DATA_HOME'' = abs_path D" and "plains D"
    and "img \<noteq> []" and "img \<noteq> ''.''" and "img \<noteq> ''..''"
  shows "image_root env (refsafe img) = abs_path (D @ [''weft-microvm'', ''images'', refsafe img])
    \<and> rootfs_path env (refsafe img) =
        abs_path (D @ [''weft-microvm'', ''images'', refsafe img, ''rootfs''])"
  by (rule cache_paths [of env D, OF assms])

definition sample_env :: environ where
  "sample_env = (\<lambda>v. if v = ''XDG_DATA_HOME'' then ''/d'' else if v = ''HOME'' then ''/h'' else [])"

theorem image_paths_witness:
  "rootfs_path sample_env (refsafe ''ghcr.io/o/r:1'') = ''/d/weft-microvm/images/ghcr.io_o_r_1/rootfs''"
proof -
  have "sample_env ''XDG_DATA_HOME'' = abs_path [''d'']" "plains [''d'']"
      and c: "abs_path ([''d''] @ [''weft-microvm'', ''images'', refsafe ''ghcr.io/o/r:1'', ''rootfs''])
        = ''/d/weft-microvm/images/ghcr.io_o_r_1/rootfs''"
    by code_simp+
  from image_paths [of sample_env "[''d'']", OF this(1,2), of "''ghcr.io/o/r:1''"] show ?thesis by (simp only: c) simp
qed

end
