(* ===== verification/Image_Ref.thy ===== *)
theory Image_Ref
  imports Cache
begin

text \<open>
  From what the user types to a repository (\<open>pull.go\<close>): Docker Hub shorthand, the registry mirror,
  and the reference grammar of the client library (\<open>oras.land/oras-go/v2/registry\<close>), which decides
  what is an error.
\<close>

section \<open>Shorthand and mirror\<close>

definition expand_docker_hub :: "string \<Rightarrow> string" where
  "expand_docker_hub img =
     (case cut_prefix img ''docker.io/'' of
        Some rest \<Rightarrow>
          (let nameOnly = (case index_any rest '':@'' of Some i \<Rightarrow> take i rest | None \<Rightarrow> rest)
           in if \<not> contains_any nameOnly ''/'' then ''registry-1.docker.io/library/'' @ rest
              else ''registry-1.docker.io/'' @ rest)
      | None \<Rightarrow>
          (case index_any img ''/'' of
             Some i \<Rightarrow>
               (let host = take i img
                in if contains_any host ''.:'' then img else ''registry-1.docker.io/'' @ img)
           | None \<Rightarrow> ''registry-1.docker.io/library/'' @ img))"

text \<open>The mirror's host from the environment: trimmed, without scheme and outer slashes.\<close>

definition mirror_host :: "environ \<Rightarrow> string" where
  "mirror_host env =
     (let mirror = trim_space (env ''WEFT_MICROVM_REGISTRY_MIRROR'') in
      if mirror = [] then []
      else trim_chr slash (case index_sub mirror ''://'' of Some i \<Rightarrow> drop (i + 3) mirror | None \<Rightarrow> mirror))"

definition rewrite_for_mirror :: "environ \<Rightarrow> string \<Rightarrow> string" where
  "rewrite_for_mirror env img =
     (let mirror = mirror_host env in
      if mirror = [] then img
      else case index_any img ''/'' of
        None \<Rightarrow> mirror @ ''/library/'' @ img
      | Some i \<Rightarrow>
          (let host = take i img in if host = mirror then img else mirror @ drop i img))"

definition canonical_ref :: "environ \<Rightarrow> string \<Rightarrow> string" where
  "canonical_ref env img = rewrite_for_mirror env (expand_docker_hub img)"

section \<open>The reference grammar\<close>

record reference =
  rf_registry :: string
  rf_repository :: string
  rf_reference :: string

text \<open>
  A registry is what a URL can have as its host, unchanged by decoding: the characters of a host,
  at most one port of digits, or an address in brackets.
\<close>

definition alnum :: "char \<Rightarrow> bool" where
  "alnum c = (let n = of_char c :: nat in is_digit c \<or> 97 \<le> n \<and> n \<le> 122)"

definition word_char :: "char \<Rightarrow> bool" where
  "word_char c = (let n = of_char c :: nat in alnum c \<or> 65 \<le> n \<and> n \<le> 90 \<or> c = CHR ''_'')"

definition host_char :: "char \<Rightarrow> bool" where
  "host_char c = (word_char c \<or> 128 \<le> (of_char c :: nat) \<or> c \<in> set ''-.~!$&()*+,;=<>'' \<or> c = CHR 0x22 \<or> c = CHR 0x27)"

definition port_ok :: "string \<Rightarrow> bool" where
  "port_ok p = (p = [] \<or> (hd p = CHR '':'' \<and> list_all is_digit (tl p)))"

definition address_char :: "char \<Rightarrow> bool" where
  "address_char c = (let n = of_char c :: nat in is_digit c \<or> 97 \<le> n \<and> n \<le> 102 \<or> 65 \<le> n \<and> n \<le> 70 \<or> c \<in> set '':.'')"

definition registry_ok :: "string \<Rightarrow> bool" where
  "registry_ok r =
     (r \<noteq> [] \<and>
      (if hd r = CHR ''['' then
         (case cut_chr CHR '']'' (tl r) of
            Some (a, p) \<Rightarrow> a \<noteq> [] \<and> list_all address_char a \<and> port_ok p
          | None \<Rightarrow> False)
       else
         (let h = takeWhile (\<lambda>c. c \<noteq> CHR '':'') r
          in list_all host_char h \<and> port_ok (drop (length h) r))))"

text \<open>A path component: runs of lower-case letters and digits, joined by one \<open>.\<close>, one or two \<open>_\<close> or
  any number of \<open>-\<close>.\<close>

definition separator_ok :: "string \<Rightarrow> bool" where
  "separator_ok p = (p = ''.'' \<or> p = ''_'' \<or> p = ''__'' \<or> list_all (\<lambda>c. c = CHR ''-'') p)"

lemma runs_shorter:
  assumes "dropWhile alnum s \<noteq> []"
  shows "length (dropWhile (\<lambda>c. \<not> alnum c) (dropWhile alnum s)) < length s"
proof -
  obtain c r where r: "dropWhile alnum s = c # r" using assms by (cases "dropWhile alnum s") auto
  then have "\<not> alnum c" using hd_dropWhile [OF assms] by simp
  then have "length (dropWhile (\<lambda>c. \<not> alnum c) (c # r)) \<le> length r"
    by (simp add: length_dropWhile_le)
  moreover have "length (c # r) \<le> length s"
    using length_dropWhile_le [of alnum s] r by simp
  ultimately show ?thesis using r by simp
qed

function runs_ok :: "string \<Rightarrow> bool" where
  "runs_ok s =
     (let r = dropWhile alnum s; q = dropWhile (\<lambda>c. \<not> alnum c) r in
      if r = [] then True
      else if separator_ok (takeWhile (\<lambda>c. \<not> alnum c) r) \<and> q \<noteq> [] then runs_ok q else False)"
  by pat_completeness auto
termination
  by (relation "measure length") (auto simp: runs_shorter)

declare runs_ok.simps [simp del]

definition component_ok :: "string \<Rightarrow> bool" where
  "component_ok s = (s \<noteq> [] \<and> alnum (hd s) \<and> runs_ok s)"

definition repository_ok :: "string \<Rightarrow> bool" where
  "repository_ok s = list_all component_ok (split_chr slash s)"

definition tag_ok :: "string \<Rightarrow> bool" where
  "tag_ok t =
     (t \<noteq> [] \<and> word_char (hd t) \<and> length t \<le> 128 \<and> list_all (\<lambda>c. word_char c \<or> c \<in> set ''.-'') (tl t))"

definition lower_hex :: "char \<Rightarrow> bool" where
  "lower_hex c = (let n = of_char c :: nat in is_digit c \<or> 97 \<le> n \<and> n \<le> 102)"

definition digest_ok :: "string \<Rightarrow> bool" where
  "digest_ok d =
     (case cut_chr CHR '':'' d of
        None \<Rightarrow> False
      | Some (alg, h) \<Rightarrow>
          list_all lower_hex h \<and>
          (alg = ''sha256'' \<and> length h = 64 \<or> alg = ''sha384'' \<and> length h = 96 \<or> alg = ''sha512'' \<and> length h = 128))"

definition invalid :: "string \<Rightarrow> string list \<Rightarrow> error" where
  "invalid f args = Wrapf f args (Extern ''invalid reference'')"

definition parse_reference :: "string \<Rightarrow> error + reference" where
  "parse_reference artifact =
     (case cut_chr slash artifact of
        None \<Rightarrow> Inl (invalid ''%w: missing registry or repository'' [])
      | Some (registry, path) \<Rightarrow>
          (let (repository, ref, isTag) =
             (case cut_chr CHR ''@'' path of
                Some (l, r) \<Rightarrow> (case cut_chr CHR '':'' l of Some (n, _) \<Rightarrow> (n, r, False) | None \<Rightarrow> (l, r, False))
              | None \<Rightarrow>
                  (case cut_chr CHR '':'' path of Some (l, r) \<Rightarrow> (l, r, True) | None \<Rightarrow> (path, [], False)))
           in if \<not> registry_ok registry then Inl (invalid ''%w: invalid registry %q'' [registry])
              else if \<not> repository_ok repository then Inl (invalid ''%w: invalid repository %q'' [repository])
              else if ref = [] then Inr \<lparr>rf_registry = registry, rf_repository = repository, rf_reference = ref\<rparr>
              else if isTag \<and> \<not> tag_ok ref then Inl (invalid ''%w: invalid tag %q'' [ref])
              else if \<not> isTag \<and> \<not> digest_ok ref then Inl (invalid ''%w: invalid digest %q'' [ref])
              else Inr \<lparr>rf_registry = registry, rf_repository = repository, rf_reference = ref\<rparr>))"

section \<open>The repository\<close>

record repo =
  repo_ref :: reference
  repo_plain :: bool

definition new_repository :: "string \<Rightarrow> error + repo" where
  "new_repository canonical =
     (case parse_reference canonical of
        Inl err \<Rightarrow> Inl err
      | Inr ref \<Rightarrow>
          (let host = (case cut_chr CHR '':'' (rf_registry ref) of Some (h, _) \<Rightarrow> h | None \<Rightarrow> rf_registry ref)
           in Inr \<lparr>repo_ref = ref, repo_plain = (host = ''127.0.0.1'' \<or> host = ''localhost'' \<or> host = ''::1'')\<rparr>))"

section \<open>What shorthand means\<close>

text \<open>
  The rules in the comment of the function, as cases: \<open>name[:tag]\<close>, \<open>owner/name[:tag]\<close>, the alias
  \<open>docker.io/\<close> with one or with several components, and a name with a registry host.
\<close>

datatype docker_name =
    Short string string
  | Owned string string
  | Hub string string
  | Hub_Owned string string
  | Hosted string string

fun show_name :: "docker_name \<Rightarrow> string" where
  "show_name (Short n t) = n @ t"
| "show_name (Owned own r) = own @ ''/'' @ r"
| "show_name (Hub n t) = ''docker.io/'' @ n @ t"
| "show_name (Hub_Owned own r) = ''docker.io/'' @ own @ ''/'' @ r"
| "show_name (Hosted h r) = h @ ''/'' @ r"

definition suffix_ok :: "string \<Rightarrow> bool" where
  "suffix_ok t = (t = [] \<or> hd t \<in> set '':@'')"

fun name_ok :: "docker_name \<Rightarrow> bool" where
  "name_ok (Short n t) = (slash \<notin> set n \<and> slash \<notin> set t)"
| "name_ok (Owned own r) = (set own \<inter> set ''/.:'' = {})"
| "name_ok (Hub n t) = (set n \<inter> set ''/:@'' = {} \<and> suffix_ok t)"
| "name_ok (Hub_Owned own r) = (set own \<inter> set ''/:@'' = {})"
| "name_ok (Hosted h r) = (slash \<notin> set h \<and> set h \<inter> set ''.:'' \<noteq> {} \<and> h \<noteq> ''docker.io'')"

fun canonical_name :: "docker_name \<Rightarrow> string" where
  "canonical_name (Short n t) = ''registry-1.docker.io/library/'' @ n @ t"
| "canonical_name (Owned own r) = ''registry-1.docker.io/'' @ own @ ''/'' @ r"
| "canonical_name (Hub n t) = ''registry-1.docker.io/library/'' @ n @ t"
| "canonical_name (Hub_Owned own r) = ''registry-1.docker.io/'' @ own @ ''/'' @ r"
| "canonical_name (Hosted h r) = h @ ''/'' @ r"

lemma alias_prefix:
  assumes "slash \<notin> set h" and "h \<noteq> ''docker.io''"
  shows "cut_prefix (h @ ''/'' @ r) ''docker.io/'' = None"
proof (rule ccontr)
  assume "cut_prefix (h @ ''/'' @ r) ''docker.io/'' \<noteq> None"
  then obtain q where "h @ slash # r = ''docker.io'' @ slash # q" using cut_prefix_SomeD by fastforce
  then have "cut_chr slash (h @ slash # r) = cut_chr slash (''docker.io'' @ slash # q)" by (rule arg_cong)
  moreover have "cut_chr slash (''docker.io'' @ slash # q) = Some (''docker.io'', q)"
    by (rule cut_chr_append) simp
  ultimately show False using assms by simp
qed

lemma no_alias: "slash \<notin> set s \<Longrightarrow> cut_prefix s ''docker.io/'' = None"
  by (cases "cut_prefix s ''docker.io/''") (auto dest!: cut_prefix_SomeD)

lemma take_to_slash: "slash \<notin> set h \<Longrightarrow> index_any (h @ ''/'' @ r) ''/'' = Some (length h)"
  by (simp add: index_any_first)

lemma canonical_host:
  "slash \<notin> set h \<Longrightarrow> set h \<inter> set ''.:'' \<noteq> {} \<Longrightarrow> h \<noteq> ''docker.io'' \<Longrightarrow> expand_docker_hub (h @ ''/'' @ r) = h @ ''/'' @ r"
  using alias_prefix [of h r] take_to_slash [of h r]
  by (simp add: expand_docker_hub_def contains_any_def index_any_None_iff)

text \<open>The alias of the hub before one component, and before several.\<close>

lemma expand_hub:
  assumes n: "set n \<inter> set ''/:@'' = {}" and t: "suffix_ok t"
  shows "expand_docker_hub (''docker.io/'' @ n @ t) = ''registry-1.docker.io/library/'' @ n @ t"
proof -
  have "(case index_any (n @ t) '':@'' of Some i \<Rightarrow> take i (n @ t) | None \<Rightarrow> n @ t) = n"
  proof (cases t)
    case Nil
    have "index_any n '':@'' = None" using n by (auto simp: index_any_None_iff)
    with Nil show ?thesis by simp
  next
    case (Cons c r)
    have "index_any (n @ c # r) '':@'' = Some (length n)"
      using n t Cons by (intro index_any_first) (auto simp: suffix_ok_def)
    with Cons show ?thesis by simp
  qed
  moreover have "\<not> contains_any n ''/''" using n by (auto simp: contains_any_def index_any_None_iff)
  ultimately show ?thesis
    using cut_prefix_append [of "''docker.io/''" "n @ t"] by (simp add: expand_docker_hub_def)
qed

lemma expand_hub_owned:
  assumes own: "set own \<inter> set ''/:@'' = {}"
  shows "expand_docker_hub (''docker.io/'' @ own @ ''/'' @ r) = ''registry-1.docker.io/'' @ own @ ''/'' @ r"
proof -
  have "contains_any (case index_any (own @ slash # r) '':@'' of Some i \<Rightarrow> take i (own @ slash # r) | None \<Rightarrow> own @ slash # r) ''/''"
  proof (cases "index_any (own @ slash # r) '':@''")
    case (Some i)
    have "length own < i"
    proof (rule ccontr)
      assume "\<not> length own < i"
      moreover have "(own @ slash # r) ! i \<in> set '':@''" using index_any_Some_take [OF Some] by simp
      ultimately show False using own by (cases "i = length own") (auto simp: nth_append disjoint_iff)
    qed
    then have "slash \<in> set (take i (own @ slash # r))" by (cases "i - length own") auto
    with Some show ?thesis by (auto simp: contains_any_def index_any_None_iff)
  next
    case None
    then show ?thesis
      by (simp only: option.case) (simp add: contains_any_def index_any_None_iff)
  qed
  then show ?thesis
    using cut_prefix_append [of "''docker.io/''" "own @ slash # r"] by (simp add: expand_docker_hub_def)
qed

lemma expand_owned:
  assumes own: "set own \<inter> set ''/.:'' = {}"
  shows "expand_docker_hub (own @ ''/'' @ r) = ''registry-1.docker.io/'' @ own @ ''/'' @ r"
proof -
  have o: "slash \<notin> set own" "set own \<inter> set ''.:'' = {}" using own by auto
  then have "own \<noteq> ''docker.io''" by auto
  then show ?thesis
    using alias_prefix [OF o(1), of r] take_to_slash [OF o(1), of r] o(2)
    by (simp add: expand_docker_hub_def contains_any_def index_any_None_iff)
qed

lemma expand_show:
  assumes "name_ok n"
  shows "expand_docker_hub (show_name n) = canonical_name n"
proof (cases n)
  case (Short n' t)
  with assms show ?thesis
    using no_alias [of "n' @ t"] index_any_None_iff [of "n' @ t" "''/''"] by (simp add: expand_docker_hub_def)
next
  case (Owned own r)
  with assms expand_owned [of own r] show ?thesis by simp
next
  case (Hub n' t)
  with assms expand_hub [of n' t] show ?thesis by simp
next
  case (Hub_Owned own r)
  with assms expand_hub_owned [of own r] show ?thesis by simp
next
  case (Hosted h r)
  with assms canonical_host [of h r] show ?thesis by simp
qed

lemma split_first: "x \<in> set s \<Longrightarrow> \<exists>l r. s = l @ x # r \<and> x \<notin> set l"
  by (rule split_list_first)

lemma every_name: "\<exists>n. name_ok n \<and> show_name n = s"
proof (cases "slash \<in> set s")
  case False
  then show ?thesis by (intro exI [of _ "Short s []"]) simp
next
  case True
  then obtain h r where s: "s = h @ slash # r" "slash \<notin> set h" using split_first by metis
  consider (hub) "h = ''docker.io''" | (host) "h \<noteq> ''docker.io''" "set h \<inter> set ''.:'' \<noteq> {}"
    | (own) "h \<noteq> ''docker.io''" "set h \<inter> set ''.:'' = {}" by blast
  then show ?thesis
  proof cases
    case hub
    let ?n = "takeWhile (\<lambda>c. c \<notin> set ''/:@'') r"
    have free: "set ?n \<inter> set ''/:@'' = {}" by (auto dest: set_takeWhileD)
    have r: "r = ?n @ drop (length ?n) r" by (metis append_take_drop_id takeWhile_eq_take)
    show ?thesis
    proof (cases "\<exists>q. drop (length ?n) r = slash # q")
      case True
      then obtain q where "drop (length ?n) r = slash # q" by blast
      with r have "r = ?n @ slash # q" by simp
      with hub s free show ?thesis by (intro exI [of _ "Hub_Owned ?n q"]) simp
    next
      case False
      have "suffix_ok (drop (length ?n) r)"
      proof (cases "drop (length ?n) r")
        case (Cons c q)
        then have "c \<in> set ''/:@''"
          by (metis dropWhile_eq_drop hd_dropWhile list.distinct(1) list.sel(1))
        with False Cons show ?thesis by (auto simp: suffix_ok_def)
      qed (simp add: suffix_ok_def)
      with hub s free r show ?thesis by (intro exI [of _ "Hub ?n (drop (length ?n) r)"]) simp
    qed
  next
    case host
    with s show ?thesis by (intro exI [of _ "Hosted h r"]) simp
  next
    case own
    with s show ?thesis by (intro exI [of _ "Owned h r"]) auto
  qed
qed

end
