(* ===== verification/Pull.thy ===== *)
theory Pull
  imports Oci Image_Ref Extract
begin

text \<open>
  Pulling an image (\<open>pull.go\<close>): resolve the reference, choose the manifest of this platform, extract
  the layers in order, derive the process specification.  The registry is a parameter: what it
  answers to a tag and to a descriptor; a blob is delivered as a reader that may end in an error.
  Logging is not modelled.
\<close>

record remote =
  rm_resolve :: "repo \<Rightarrow> string \<Rightarrow> error + descriptor"
  rm_fetch :: "repo \<Rightarrow> descriptor \<Rightarrow> error + stream"
  rm_decoders :: decoders
  rm_arch :: string

section \<open>Manifests\<close>

definition fetch_all :: "remote \<Rightarrow> repo \<Rightarrow> descriptor \<Rightarrow> error + string" where
  "fetch_all rm repo desc =
     (case rm_fetch rm repo desc of
        Inl err \<Rightarrow> Inl err
      | Inr (b, None) \<Rightarrow> Inr b
      | Inr (b, Some err) \<Rightarrow> Inl err)"

text \<open>The body of the loop over an index: whether an entry is taken.\<close>

definition platform_matches :: "string \<Rightarrow> string \<Rightarrow> descriptor \<Rightarrow> bool" where
  "platform_matches os arch m =
     (case d_platform m of
        None \<Rightarrow> False
      | Some p \<Rightarrow> pl_architecture p = arch \<and> (pl_os p = [] \<or> pl_os p = os))"

fun pick_platform :: "string \<Rightarrow> string \<Rightarrow> descriptor list \<Rightarrow> error + descriptor" where
  "pick_platform os arch [] = Inl (Errorf ''no manifest matches %s/%s'' [os, arch])"
| "pick_platform os arch (m # ms) =
     (if \<not> platform_matches os arch m then pick_platform os arch ms else Inr m)"

definition index_types :: "string list" where
  "index_types =
     [''application/vnd.oci.image.index.v1+json'',
      ''application/vnd.docker.distribution.manifest.list.v2+json'']"

definition resolve_platform :: "remote \<Rightarrow> repo \<Rightarrow> descriptor \<Rightarrow> string \<Rightarrow> string \<Rightarrow> error + descriptor" where
  "resolve_platform rm repo desc os arch =
     (if d_media_type desc \<in> set index_types then
        (case fetch_all rm repo desc of
           Inl err \<Rightarrow> Inl err
         | Inr body \<Rightarrow>
             (case unmarshal_index body of
                Inl err \<Rightarrow> Inl (Wrapf ''decode index: %w'' [] err)
              | Inr ms \<Rightarrow> pick_platform os arch ms))
      else Inr desc)"

definition ref_tag :: "repo \<Rightarrow> string" where
  "ref_tag repo =
     (let tag = rf_reference (repo_ref repo) in if tag = [] then ''latest'' else tag)"

text \<open>From the reference to the bytes of the manifest and the manifest.\<close>

definition fetch_manifest :: "remote \<Rightarrow> repo \<Rightarrow> string \<Rightarrow> error + string \<times> manifest" where
  "fetch_manifest rm repo img =
     (case rm_resolve rm repo (ref_tag repo) of
        Inl err \<Rightarrow> Inl (Wrapf ''resolve %s: %w'' [img] err)
      | Inr desc \<Rightarrow>
     (case resolve_platform rm repo desc ''linux'' (rm_arch rm) of
        Inl err \<Rightarrow> Inl (Wrapf ''resolve platform: %w'' [] err)
      | Inr desc \<Rightarrow>
     (case fetch_all rm repo desc of
        Inl err \<Rightarrow> Inl (Wrapf ''pull manifest: %w'' [] err)
      | Inr manifestBytes \<Rightarrow>
     (case unmarshal_manifest manifestBytes of
        Inl err \<Rightarrow> Inl (Wrapf ''decode manifest: %w'' [] err)
      | Inr manifest \<Rightarrow> Inr (manifestBytes, manifest)))))"

section \<open>Layers\<close>

definition pull_and_extract_layer :: "remote \<Rightarrow> repo \<Rightarrow> descriptor \<Rightarrow> string \<Rightarrow> (fs, unit) io" where
  "pull_and_extract_layer rm repo layer rootfs =
     io_bind (io_wrap (Wrapf ''pull: %w'' []) (io_lift (rm_fetch rm repo layer))) (\<lambda>rc.
     io_wrap (Wrapf ''extract: %w'' []) (extract_layer (rm_decoders rm) rc rootfs))"

fun pull_layers :: "remote \<Rightarrow> repo \<Rightarrow> string \<Rightarrow> nat \<Rightarrow> descriptor list \<Rightarrow> (fs, unit) io" where
  "pull_layers rm repo rootfs i [] = io_return ()"
| "pull_layers rm repo rootfs i (layer # layers) =
     io_bind (io_wrap (Wrapf ''layer %d (%s): %w'' [dec_of_nat i, d_digest layer])
       (pull_and_extract_layer rm repo layer rootfs)) (\<lambda>_.
     pull_layers rm repo rootfs (Suc i) layers)"

section \<open>Pull\<close>

text \<open>The configuration blob becomes the process specification, written last.\<close>

definition write_process :: "remote \<Rightarrow> repo \<Rightarrow> string \<Rightarrow> string \<Rightarrow> descriptor \<Rightarrow> (fs, unit) io" where
  "write_process rm repo root rootfs cfg =
     io_bind (io_wrap (Wrapf ''pull config blob: %w'' []) (io_lift (fetch_all rm repo cfg))) (\<lambda>cfgBytes.
     io_bind (io_wrap (Wrapf ''save config.json: %w'' [])
       (os_write_file (path_join [root, ''config.json'']) cfgBytes 0x1A4)) (\<lambda>_.
     io_bind (io_wrap (Wrapf ''decode image config: %w'' []) (io_lift (unmarshal_image cfgBytes))) (\<lambda>img.
     io_bind (process_from_image_config_with_rootfs img rootfs) (\<lambda>proc.
     let out = marshal_config proc; microvmDir = path_join [rootfs, ''.weft-microvm''] in
     io_bind (io_wrap (Wrapf ''mkdir %s: %w'' [microvmDir]) (os_mkdir_all microvmDir 0x1ED)) (\<lambda>_.
     io_wrap (Wrapf ''write .weft-microvm/config.json: %w'' [])
       (os_write_file (path_join [microvmDir, ''config.json'']) out 0x1A4))))))"

text \<open>What is done when the image is not there yet.\<close>

definition pull_fresh :: "remote \<Rightarrow> repo \<Rightarrow> string \<Rightarrow> string \<Rightarrow> string \<Rightarrow> (fs, unit) io" where
  "pull_fresh rm repo img root rootfs =
     io_bind (io_wrap (Wrapf ''mkdir %s: %w'' [rootfs]) (os_mkdir_all rootfs 0x1ED)) (\<lambda>_.
     io_bind (io_lift (fetch_manifest rm repo img)) (\<lambda>(manifestBytes, manifest).
     io_bind (io_wrap (Wrapf ''save manifest: %w'' [])
       (os_write_file (path_join [root, ''manifest.json'']) manifestBytes 0x1A4)) (\<lambda>_.
     io_bind (pull_layers rm repo rootfs 0 (mf_layers manifest)) (\<lambda>_.
     write_process rm repo root rootfs (mf_config manifest)))))"

definition pull_image :: "remote \<Rightarrow> environ \<Rightarrow> string \<Rightarrow> (fs, unit) io" where
  "pull_image rm env img =
     (let canonical = canonical_ref env img in
      case new_repository canonical of
        Inl err \<Rightarrow> io_throw (Wrapf ''parse %q: %w'' [canonical] err)
      | Inr repo \<Rightarrow>
          (let rs = refsafe img;
               root = image_root env rs;
               rootfs = rootfs_path env rs;
               sentinel = path_join [rootfs, ''.weft-microvm'', ''config.json'']
           in io_bind (io_try (os_stat sentinel)) (\<lambda>st. case st of
                Inr _ \<Rightarrow> io_return ()
              | Inl _ \<Rightarrow> pull_fresh rm repo img root rootfs)))"

end
