(* ===== verification/Extract_Refine.thy ===== *)
theory Extract_Refine
  imports Extract_Correct
begin

text \<open>
  What extracting a layer means for the tree, and that \<open>extractTar\<close> does it.  The abstract tree
  maps paths to directories, file contents and link targets; \<open>spec_entry\<close> gives the effect of one
  entry on it, for entries that do not pass through symbolic links and do not turn a directory into
  something else (\<open>None\<close> otherwise, and for hard links); \<open>spec_stream\<close> takes the entries as they come.
\<close>

section \<open>The abstract tree\<close>

datatype anode = ADir | AFile string | ALink string

type_synonym tree = "path \<Rightarrow> anode option"

definition view :: "fs \<Rightarrow> tree" where
  "view s p =
     (case node_at s p of
        None \<Rightarrow> None
      | Some (Dir _) \<Rightarrow> Some ADir
      | Some (File i) \<Rightarrow> Some (AFile (i_data (fs_inodes s i)))
      | Some (Symlink t) \<Rightarrow> Some (ALink t))"

definition spec_clear :: "tree \<Rightarrow> path \<Rightarrow> bool" where
  "spec_clear t p = list_all (\<lambda>k. t (take k p) = None \<or> t (take k p) = Some ADir) [0 ..< Suc (length p)]"

definition spec_dirs :: "path \<Rightarrow> tree \<Rightarrow> tree" where
  "spec_dirs p t = (\<lambda>q. if prefix q p \<and> t q = None then Some ADir else t q)"

definition spec_prune :: "path \<Rightarrow> tree \<Rightarrow> tree" where
  "spec_prune p t = (\<lambda>q. if prefix p q then None else t q)"

definition spec_empty :: "path \<Rightarrow> tree \<Rightarrow> tree" where
  "spec_empty p t = (\<lambda>q. if strict_prefix p q then None else t q)"

definition spec_file :: "path \<Rightarrow> stream \<Rightarrow> tree \<Rightarrow> tree option" where
  "spec_file p r t =
     (if spec_clear t (butlast p) \<and> snd r = None \<and> (case t p of None \<Rightarrow> True | Some (AFile _) \<Rightarrow> True | _ \<Rightarrow> False)
      then Some ((spec_dirs (butlast p) t)(p \<mapsto> AFile (fst r))) else None)"

definition spec_link :: "path \<Rightarrow> string \<Rightarrow> tree \<Rightarrow> tree option" where
  "spec_link p l t =
     (if spec_clear t (butlast p) \<and> l \<noteq> [] \<and> t p \<noteq> Some ADir
      then Some ((spec_dirs (butlast p) t)(p \<mapsto> ALink l)) else None)"

definition spec_entry :: "path \<Rightarrow> tar_header \<Rightarrow> stream \<Rightarrow> tree \<Rightarrow> tree option" where
  "spec_entry D hdr r t =
     (if climbs 0 (split_chr slash (trim_left_chr slash (hName hdr))) then None
      else if entry_comps (hName hdr) = [] then
        (if hTypeflag hdr = TypeDir \<and> \<not> has_prefix (path_base (hName hdr)) ''.wh.'' \<and> spec_clear t D
         then Some (spec_dirs D t) else None)
      else let p = D @ entry_comps (hName hdr); par = butlast p; base = path_base (hName hdr) in
        if base = ''.wh..wh..opq'' then (if spec_clear t par then Some (spec_empty par t) else None)
        else if has_prefix base ''.wh.'' then
          (let x = trim_prefix base ''.wh.''
           in if plain x \<and> spec_clear t par then Some (spec_prune (par @ [x]) t) else None)
        else (case hTypeflag hdr of
          TypeDir \<Rightarrow> if spec_clear t p then Some (spec_dirs p t) else None
        | TypeReg \<Rightarrow> spec_file p r t
        | TypeRegA \<Rightarrow> spec_file p r t
        | TypeSymlink \<Rightarrow> spec_link p (hLinkname hdr) t
        | TypeLink \<Rightarrow> None
        | _ \<Rightarrow> Some t))"

fun spec_stream :: "path \<Rightarrow> tar_item list \<Rightarrow> tree \<Rightarrow> tree option" where
  "spec_stream D [] t = Some t"
| "spec_stream D (TarError _ # items) t = None"
| "spec_stream D (TarEntry hdr r # items) t = Option.bind (spec_entry D hdr r t) (spec_stream D items)"

section \<open>The operations refine the specification\<close>

lemma view_None [simp]: "view s p = None \<longleftrightarrow> node_at s p = None"
  by (auto simp: view_def split: option.splits node.splits)

lemma view_ADir [simp]: "view s p = Some ADir \<longleftrightarrow> is_dir_at s p"
  by (auto simp: view_def is_dir_at_def split: option.splits node.splits)

lemma view_AFile: "view s p = Some (AFile b) \<longleftrightarrow>
    (\<exists>i. node_at s p = Some (File i) \<and> i_data (fs_inodes s i) = b)"
  by (auto simp: view_def split: option.splits node.splits)

lemma spec_clear_view [simp]: "spec_clear (view s) p \<longleftrightarrow> clear_to s p"
  by (simp add: spec_clear_def clear_to_def)

lemma spec_clear_iff: "spec_clear t p \<longleftrightarrow> (\<forall>q. prefix q p \<longrightarrow> t q = None \<or> t q = Some ADir)"
  unfolding spec_clear_def by (rule list_all_takes)

lemma readyD: "ready s \<Longrightarrow> fs_super s" "ready s \<Longrightarrow> tree_ok s" "ready s \<Longrightarrow> sane s"
    "ready s \<Longrightarrow> unaliased s"
  by (simp_all add: ready_def)

text \<open>Directories.\<close>

lemma mkdir_all_view:
  assumes r: "ready s" and p: "plains p" "clear_to s p"
  obtains s' where "os_mkdir_all (abs_path p) mode s = (Inr (), s')" and "ready s'"
    and "view s' = spec_dirs p (view s)" and "with_dirs s p mode s'"
proof -
  obtain s' where run: "os_mkdir_all (abs_path p) mode s = (Inr (), s')" and w: "with_dirs s p mode s'"
    using mkdir_all_super [OF readyD(1,2) [OF r] p] .
  from w have s': "fs_next s' = fs_next s" "fs_super s' = fs_super s" "fs_inodes s' = fs_inodes s"
    by (auto simp: with_dirs_def)
  have node: "node_at s' q =
      (if prefix q p \<and> node_at s q = None then Some (Dir (created_mode s mode)) else node_at s q)" for q
    using w by (simp add: with_dirs_def)
  have "sane s'"
    using readyD(3) [OF r] p(1) by (auto simp: sane_def node s' prefix_def split: if_splits)
  moreover have "unaliased s'"
    using readyD(4) [OF r] by (auto simp: unaliased_def node split: if_splits)
  moreover have "fs_super s'" using readyD(1) [OF r] by (simp add: s')
  ultimately have "ready s'"
    using tree_ok_with_dirs [OF readyD(2) [OF r] p(2) w] by (simp add: ready_def)
  moreover have "view s' = spec_dirs p (view s)"
    by (rule ext) (auto simp: view_def node spec_dirs_def s' split: option.splits node.splits)
  ultimately show ?thesis using run w that by blast
qed

text \<open>The parent of a path is ready for a new name once its directories are made.\<close>

lemma parents_open:
  assumes r: "ready s" and p: "plains p" "p \<noteq> []" and d: "is_dir_at s (butlast p)"
  shows "path_open s p" and "may_edit s p"
proof -
  have "is_dir_at s q" if "strict_prefix q p" for q
  proof (cases "q = butlast p")
    case False
    with that p(2) have "strict_prefix q (butlast p)"
      using prefix_of_butlast by (auto simp: strict_prefix_def)
    with readyD(2) [OF r] d show ?thesis
      by (intro tree_ok_above) (auto simp: is_dir_at_node)
  qed (use d in simp)
  then show "path_open s p"
    using readyD(1) [OF r] by (simp add: path_open_iff searchable_super)
  show "may_edit s p"
    using d readyD(1) [OF r] by (auto simp: may_edit_def is_dir_at_node allowed_def)
qed

text \<open>Putting a node at a free or replaceable name.\<close>

lemma tree_ok_put:
  assumes t: "tree_ok s" and p: "p \<noteq> []" and d: "is_dir_at s (butlast p)" and nodir: "\<not> is_dir_at s p"
    and nodes: "\<And>q. node_at s' q = (if q = p then Some nd else node_at s q)"
  shows "tree_ok s'"
  unfolding tree_ok_def
proof (intro conjI allI impI)
  show "is_dir_at s' []"
    using t p by (simp add: tree_ok_def is_dir_at_def nodes)
  fix q assume q: "q \<noteq> []" "node_at s' q \<noteq> None"
  then have "is_dir_at s (butlast q)"
    using t d by (auto simp: tree_ok_def nodes split: if_splits)
  with nodir have "butlast q \<noteq> p" by auto
  with \<open>is_dir_at s (butlast q)\<close> show "is_dir_at s' (butlast q)"
    by (simp add: is_dir_at_def nodes)
qed

lemma ready_put:
  assumes r: "ready s" and p: "plains p" "p \<noteq> []" and d: "is_dir_at s (butlast p)"
    and nodir: "\<not> is_dir_at s p"
    and nodes: "\<And>q. node_at s' q = (if q = p then Some nd else node_at s q)"
    and super: "fs_super s'" and grow: "fs_next s \<le> fs_next s'"
    and fresh: "\<And>i. nd = File i \<Longrightarrow> i < fs_next s' \<and> (\<forall>q. q \<noteq> p \<longrightarrow> node_at s q \<noteq> Some (File i))"
  shows "ready s'"
proof -
  have "tree_ok s'" using tree_ok_put [OF readyD(2) [OF r] p(2) d nodir nodes] .
  moreover have "sane s'"
    using readyD(3) [OF r] p(1) fresh grow by (auto simp: sane_def nodes intro: less_le_trans)
  moreover have "unaliased s'"
    using readyD(4) [OF r] fresh by (auto simp: unaliased_def nodes split: if_splits)
  ultimately show ?thesis using super by (simp add: ready_def)
qed

lemma ready_inode: "ready s \<Longrightarrow> ready (set_inode i x s)"
  by (simp add: ready_def tree_ok_def sane_def unaliased_def is_dir_at_def fs_simps)

lemma fresh_inode: "ready s \<Longrightarrow> node_at s q \<noteq> Some (File (fs_next s))"
  using readyD(3) [of s] by (auto simp: sane_def)

lemma ready_put_file:
  assumes r: "ready s" and p: "plains p" "p \<noteq> []" and d: "is_dir_at s (butlast p)"
    and free: "node_at s p = None \<or> (\<exists>i. node_at s p = Some (File i))"
  shows "ready (put_file p b mode s)"
proof (rule ready_put [OF r p d])
  define nd where "nd = (case node_at s p of Some (File i) \<Rightarrow> File i | _ \<Rightarrow> File (fs_next s))"
  show "\<not> is_dir_at s p" using free by (auto simp: is_dir_at_def)
  show "node_at (put_file p b mode s) q = (if q = p then Some nd else node_at s q)" for q
    using free by (auto simp: fs_simps nd_def)
  show "fs_super (put_file p b mode s)" using readyD(1) [OF r] by (simp add: fs_simps)
  show "fs_next s \<le> fs_next (put_file p b mode s)"
    by (auto simp: put_file_def fd_write_def truncate_file_def create_file_def fs_simps
        split: option.splits node.splits)
  fix i assume "nd = File i"
  with free show "i < fs_next (put_file p b mode s) \<and> (\<forall>q. q \<noteq> p \<longrightarrow> node_at s q \<noteq> Some (File i))"
    using readyD(3,4) [OF r] fresh_inode [OF r]
    by (auto simp: nd_def put_file_def fd_write_def truncate_file_def create_file_def fs_simps
        sane_def unaliased_def)
qed

lemma view_put_file:
  assumes r: "ready s" and free: "node_at s p = None \<or> (\<exists>i. node_at s p = Some (File i))"
  shows "view (put_file p b mode s) = (view s)(p \<mapsto> AFile b)"
proof
  fix q
  show "view (put_file p b mode s) q = ((view s)(p \<mapsto> AFile b)) q"
    using free readyD(3,4) [OF r]
    by (auto simp: view_def put_file_def fd_write_def truncate_file_def create_file_def fs_simps
        sane_def unaliased_def split: option.splits node.splits)
qed

text \<open>The body of a regular entry.\<close>

lemma copy_to_run:
  assumes w: "writable_at s p"
  shows "io_bind (open_replacing (abs_path p) mode) (\<lambda>f. io_bind (io_copy f r) m) s =
    (case snd r of
       None \<Rightarrow> m () (put_file p (fst r) mode s)
     | Some e \<Rightarrow> (Inl e, put_file p (fst r) mode s))"
proof -
  obtain i where run: "os_open_trunc (abs_path p) mode s =
      (Inr i, case node_at s p of Some (File j) \<Rightarrow> truncate_file j s | _ \<Rightarrow> create_file p mode s)"
    and i: "i = (case node_at s p of Some (File j) \<Rightarrow> j | _ \<Rightarrow> fs_next s)"
    using open_trunc_run [OF w] .
  have "fd_write i (fst r) (case node_at s p of Some (File j) \<Rightarrow> truncate_file j s | _ \<Rightarrow> create_file p mode s)
      = (Inr (), put_file p (fst r) mode s)"
    by (simp add: i put_file_def fd_write_def split: option.splits node.splits)
  with run show ?thesis
    by (simp add: open_replacing_def io_copy_def io_bind_def io_try_def io_return_def io_throw_def
        split: option.splits)
qed

definition touch :: "path \<Rightarrow> int \<Rightarrow> fs \<Rightarrow> fs" where
  "touch p t s =
     (case node_at s p of
        Some (File i) \<Rightarrow> set_inode i ((fs_inodes s i)\<lparr>i_mtime := t\<rparr>) s | _ \<Rightarrow> s)"

lemma chtimes_run:
  assumes "plains p" and "p \<noteq> []" and "path_open s p" and "node_at s p = Some (File i)"
  shows "io_ignore (os_chtimes (abs_path p) t) s = (Inr (), touch p t s)"
  using assms by (simp add: io_ignore_def os_chtimes_def walk_open_Some touch_def)

lemma touch_simps:
  "view (touch p t s) = view s" "ready s \<Longrightarrow> ready (touch p t s)"
  "node_at (touch p t s) q = node_at s q" "mode_at (touch p t s) q = mode_at s q"
  by (auto simp: touch_def view_def fs_simps mode_at_def intro!: ext ready_inode
      split: option.splits node.splits)

definition file_entry :: "tar_header \<Rightarrow> bool" where
  "file_entry hdr =
     ((hTypeflag hdr = TypeReg \<or> hTypeflag hdr = TypeRegA) \<and> \<not> has_prefix (path_base (hName hdr)) ''.wh.'')"

lemma apply_file_entry:
  assumes "file_entry hdr" and "safe_join dest (hName hdr) = Inr name"
  shows "apply_entry r hdr dest =
    io_bind (os_mkdir_all (path_dir name) 0x1ED) (\<lambda>_.
    io_bind (open_replacing name (file_mode (hMode hdr))) (\<lambda>f.
    io_bind (io_copy f r) (\<lambda>_. io_ignore (os_chtimes name (hModTime hdr)))))"
proof -
  have "path_base (hName hdr) \<noteq> ''.wh..wh..opq''"
    using assms(1) by (auto simp: file_entry_def has_prefix_def)
  with assms show ?thesis
    by (auto simp: apply_entry_def file_entry_def)
qed

text \<open>A regular entry, with its directories in place: what the rest of the handler does.\<close>

lemma file_entry_run:
  assumes D: "plains D" and reg: "file_entry hdr"
    and name: "\<not> climbs 0 (split_chr slash (trim_left_chr slash (hName hdr)))"
    and p: "p = D @ entry_comps (hName hdr)" "p \<noteq> []"
    and s: "ready s" "clear_to s (butlast p)"
    and free: "node_at s p = None \<or> (\<exists>i. node_at s p = Some (File i))"
  obtains s1 where "with_dirs s (butlast p) 0x1ED s1" and "ready s1"
    and "view s1 = spec_dirs (butlast p) (view s)" and "node_at s1 p = node_at s p"
    and "fs_inodes s1 = fs_inodes s"
    and "ready (put_file p (fst r) (file_mode (hMode hdr)) s1)"
    and "apply_entry r hdr (abs_path D) s =
      (case snd r of
         None \<Rightarrow> (Inr (), touch p (hModTime hdr) (put_file p (fst r) (file_mode (hMode hdr)) s1))
       | Some e \<Rightarrow> (Inl e, put_file p (fst r) (file_mode (hMode hdr)) s1))"
proof -
  let ?mode = "file_mode (hMode hdr)"
  have sj: "safe_join (abs_path D) (hName hdr) = Inr (abs_path p)" and pl: "plains p"
    using safe_join_spec [OF D, of "hName hdr"] name D by (simp_all add: p)
  have pb: "plains (butlast p)" using pl by (rule list_all_butlast)
  obtain s1 where run: "os_mkdir_all (abs_path (butlast p)) 0x1ED s = (Inr (), s1)"
    and r1: "ready s1" and v1: "view s1 = spec_dirs (butlast p) (view s)"
    and w: "with_dirs s (butlast p) 0x1ED s1"
    using mkdir_all_view [OF s(1) pb s(2)] .
  have n1: "node_at s1 p = node_at s p" "fs_inodes s1 = fs_inodes s"
    using w not_prefix_butlast [OF p(2)] by (auto simp: with_dirs_def)
  have d1: "is_dir_at s1 (butlast p)"
    using s(2) v1 by (simp flip: view_ADir) (auto simp: spec_dirs_def clear_to_iff)
  note free1 = free [folded n1(1)]
  note po = parents_open [OF r1 pl p(2) d1]
  have wr: "writable_at s1 p"
    using po pl p(2) free1 readyD(1) [OF r1] by (auto simp: writable_at_def allowed_def)
  let ?s2 = "put_file p (fst r) ?mode s1"
  have r2: "ready ?s2" using ready_put_file [OF r1 pl p(2) d1 free1] .
  obtain i where "node_at ?s2 p = Some (File i)"
    using free1 that by (auto simp: fs_simps)
  then have ch: "io_ignore (os_chtimes (abs_path p) (hModTime hdr)) ?s2
      = (Inr (), touch p (hModTime hdr) ?s2)"
    using pl p(2) po(1) by (intro chtimes_run path_open_put) auto
  have "apply_entry r hdr (abs_path D) s =
      (case snd r of None \<Rightarrow> (Inr (), touch p (hModTime hdr) ?s2) | Some e \<Rightarrow> (Inl e, ?s2))"
    unfolding apply_file_entry [OF reg sj]
    by (simp only: path_dir_abs [OF pl] io_bind_ok [of "os_mkdir_all (abs_path (butlast p)) 0x1ED", OF run] copy_to_run [OF wr] ch)
  with w r1 v1 n1 r2 show ?thesis by (rule that)
qed

text \<open>
  A regular entry: the missing directories are made, the file then holds what the stream
  delivered (all of it, or up to the read error, which is returned), a new file has the entry's
  mode less the umask while an existing file keeps the mode it had, and every other name and
  content is as before.
\<close>

theorem regular_entry_effect:
  assumes "plains D" and "file_entry hdr"
    and "\<not> climbs 0 (split_chr slash (trim_left_chr slash (hName hdr)))"
    and "p = D @ entry_comps (hName hdr)" and "p \<noteq> []"
    and "ready s" and "clear_to s (butlast p)"
    and "node_at s p = None \<or> (\<exists>i. node_at s p = Some (File i))"
  shows "\<exists>s'. apply_entry r hdr (abs_path D) s = ((case snd r of None \<Rightarrow> Inr () | Some e \<Rightarrow> Inl e), s')
    \<and> view s' = (spec_dirs (butlast p) (view s))(p \<mapsto> AFile (fst r))
    \<and> mode_at s' p = Some (if node_at s p = None then created_mode s (file_mode (hMode hdr))
                          else the (mode_at s p))"
proof -
  let ?mode = "file_mode (hMode hdr)"
  obtain s1 where w: "with_dirs s (butlast p) 0x1ED s1" and r1: "ready s1"
    and v1: "view s1 = spec_dirs (butlast p) (view s)" and n1: "node_at s1 p = node_at s p"
    and i1: "fs_inodes s1 = fs_inodes s"
    and run: "apply_entry r hdr (abs_path D) s =
      (case snd r of
         None \<Rightarrow> (Inr (), touch p (hModTime hdr) (put_file p (fst r) ?mode s1))
       | Some e \<Rightarrow> (Inl e, put_file p (fst r) ?mode s1))"
    using file_entry_run [OF assms] by blast
  have v: "view (put_file p (fst r) ?mode s1) = (spec_dirs (butlast p) (view s))(p \<mapsto> AFile (fst r))"
    using view_put_file [OF r1 assms(8) [folded n1]] v1 by simp
  have "fs_umask s1 = fs_umask s" using w by (auto simp: with_dirs_def)
  then have m: "mode_at (put_file p (fst r) ?mode s1) p =
      Some (if node_at s p = None then created_mode s ?mode else the (mode_at s p))"
    using assms(8) n1 i1
    by (auto simp: mode_at_def put_file_def fd_write_def truncate_file_def create_file_def fs_simps
        created_mode_def)
  show ?thesis
    by (cases "snd r") (auto simp: run touch_simps v m)
qed

theorem regular_entry_effect_witness:
  "\<exists>s'. apply_entry (''new'', None) (sample_header ''a'' TypeReg []) (abs_path [''r'']) sample_fs = (Inr (), s')
    \<and> view s' [''r'', ''a''] = Some (AFile ''new'') \<and> mode_at s' [''r'', ''a''] = Some 0x1ED"
proof -
  let ?h = "sample_header ''a'' TypeReg []"
  have "plains [''r'']" "file_entry ?h"
      "\<not> climbs 0 (split_chr slash (trim_left_chr slash (hName ?h)))"
      "[''r'', ''a''] = [''r''] @ entry_comps (hName ?h)" "clear_to sample_fs (butlast [''r'', ''a''])"
      "node_at sample_fs [''r'', ''a''] = Some (File 0)" "mode_at sample_fs [''r'', ''a''] = Some 0x1ED"
    by code_simp+
  note facts = this
  show ?thesis
    using regular_entry_effect [OF facts(1-4) _ sample_fs_ready facts(5), of "(''new'', None)"] facts(6,7)
    by auto
qed

section \<open>Whiteouts\<close>

lemma remove_all_view:
  assumes r: "ready s" and p: "plains p" "p \<noteq> []" and av: "avoids (links s) False p"
  obtains s' where "io_ignore (os_remove_all (abs_path p)) s = (Inr (), s')" and "ready s'"
    and "view s' = spec_prune p (view s)"
proof (cases "node_at s p")
  case None
  note gone = tree_ok_gone [OF readyD(2) [OF r] None]
  have "os_remove_all (abs_path p) s \<in> {(x, y). y = s}"
    using walk_avoids [OF p(1) order_refl av] None
    by (auto simp: os_remove_all_def split: sum.splits place.splits errno.splits)
  then have "io_ignore (os_remove_all (abs_path p)) s = (Inr (), s)"
    by (auto simp: io_ignore_def)
  moreover have "view s = spec_prune p (view s)"
    using gone by (auto simp: spec_prune_def fun_eq_iff)
  ultimately show ?thesis using r that by blast
next
  case (Some nd)
  then have "path_open s p" using tree_ok_open [OF readyD(2,1) [OF r]] by simp
  then have run: "io_ignore (os_remove_all (abs_path p)) s = (Inr (), remove_tree p s)"
    using remove_all_run [OF readyD(1,2) [OF r] p(2,1)] Some by (simp add: io_ignore_def)
  note nodes = remove_tree_super [OF readyD(1,2) [OF r] p(2)]
  have nx: "fs_next (remove_tree p s) = fs_next s"
    by (rule remove_tree_keeps)
  have "ready (remove_tree p s)"
    using r tree_ok_remove [OF readyD(1,2) [OF r] p(2)]
    by (auto simp: ready_def sane_def unaliased_def nodes nx remove_tree_keeps split: if_splits)
  moreover have "view (remove_tree p s) = spec_prune p (view s)"
    by (rule ext) (auto simp: view_def nodes spec_prune_def remove_tree_keeps split: option.splits node.splits)
  ultimately show ?thesis using run that by blast
qed

text \<open>Every entry the name check lets through lands at \<open>p\<close> below the destination.\<close>

lemma entry_place:
  assumes "plains D" and "\<not> climbs 0 (split_chr slash (trim_left_chr slash (hName hdr)))"
    and "p = D @ entry_comps (hName hdr)"
  shows "safe_join (abs_path D) (hName hdr) = Inr (abs_path p)" and "plains p"
    and "plains (butlast p)" and "path_dir (abs_path p) = abs_path (butlast p)"
proof -
  show sj: "safe_join (abs_path D) (hName hdr) = Inr (abs_path p)" and pl: "plains p"
    using safe_join_spec [OF assms(1), of "hName hdr"] assms by simp_all
  show "plains (butlast p)" "path_dir (abs_path p) = abs_path (butlast p)"
    using pl by (simp_all add: list_all_butlast path_dir_abs)
qed

lemma clear_to_sibling: "clear_to s par \<Longrightarrow> avoids (links s) False (par @ [x])"
  by (auto simp: clear_to_iff avoids_def links_def is_dir_at_def)

lemma whiteout_run:
  assumes D: "plains D" "\<not> climbs 0 (split_chr slash (trim_left_chr slash (hName hdr)))"
      "p = D @ entry_comps (hName hdr)"
    and base: "path_base (hName hdr) = ''.wh.'' @ x" "x \<noteq> ''.wh..opq''"
  shows "apply_entry r hdr (abs_path D) =
    io_ignore (os_remove_all (path_join [abs_path (butlast p), x]))"
  using base entry_place [OF D]
  by (simp add: apply_entry_def trim_prefix_def has_prefix_def)

text \<open>
  A whiteout \<open>.wh.x\<close> removes the sibling \<open>x\<close> with everything under it, and nothing else,
  whatever the kind of the sibling and of the header; it is no error when there is none.
\<close>

theorem whiteout_effect:
  assumes "plains D" and "\<not> climbs 0 (split_chr slash (trim_left_chr slash (hName hdr)))"
    and "p = D @ entry_comps (hName hdr)"
    and "path_base (hName hdr) = ''.wh.'' @ x" and "x \<noteq> ''.wh..opq''" and "plain x"
    and "ready s" and "avoids (links s) False (butlast p @ [x])"
  shows "\<exists>s'. apply_entry r hdr (abs_path D) s = (Inr (), s') \<and> ready s'
    \<and> view s' = spec_prune (butlast p @ [x]) (view s)"
proof -
  have pl: "plains (butlast p @ [x])" using entry_place(3) [OF assms(1-3)] assms(6) by simp
  obtain s' where "io_ignore (os_remove_all (abs_path (butlast p @ [x]))) s = (Inr (), s')"
      "ready s'" "view s' = spec_prune (butlast p @ [x]) (view s)"
    using remove_all_view [OF assms(7) pl _ assms(8)] by auto
  then show ?thesis
    using entry_place(3) [OF assms(1-3)] assms(6)
    by (simp add: whiteout_run [OF assms(1-5)] path_join_plain)
qed

theorem whiteout_effect_witness:
  "\<exists>s'. apply_entry ([], None) (sample_header ''.wh.a'' TypeReg []) (abs_path [''r'']) sample_fs = (Inr (), s')
    \<and> ready s' \<and> view s' = spec_prune [''r'', ''a''] (view sample_fs)"
proof -
  let ?h = "sample_header ''.wh.a'' TypeReg []"
  have "plains [''r'']" "\<not> climbs 0 (split_chr slash (trim_left_chr slash (hName ?h)))"
      "[''r'', ''.wh.a''] = [''r''] @ entry_comps (hName ?h)" "path_base (hName ?h) = ''.wh.'' @ ''a''"
      "''a'' \<noteq> ''.wh..opq''" "plain ''a''" "clear_to sample_fs [''r'']"
    by code_simp+
  note facts = this
  have "avoids (links sample_fs) False (butlast [''r'', ''.wh.a''] @ [''a''])"
    using clear_to_sibling [OF facts(7)] by simp
  from whiteout_effect [OF facts(1-6) sample_fs_ready this] show ?thesis by simp
qed

lemma path_join_up:
  assumes "plains ds" and "c = ''..'' \<or> c = ''.''"
  shows "path_join [abs_path ds, c] = abs_path (if c = ''..'' then butlast ds else ds)"
proof -
  have split: "split_chr slash (slash # join_str ''/'' ds @ slash # c) = [] # (if ds = [] then [[]] else ds) @ [c]"
    using split_join_chr [of "ds @ [c]" slash] plains_sep_free [OF assms(1)] assms(2)
    by (cases "ds = []") (auto simp: join_str_snoc)
  have "clean_comps True ([] # (if ds = [] then [[]] else ds) @ [c]) = (if c = ''..'' then butlast ds else ds)"
    using assms by (cases ds rule: rev_cases)
      (auto simp: clean_comps_def path_simps foldl_plain clean_step.simps plain_def)
  with split show ?thesis
    by (simp add: path_join_def path_clean_def is_rooted_def abs_path_def Let_def)
qed

text \<open>
  C38. A whiteout whose name ends in \<open>.wh...\<close> passes the name check and removes the parent of the
  directory it is in: at the top of the layer that is the parent of the destination, the
  destination and its siblings included.
\<close>

theorem whiteout_escapes:
  assumes "ready s" and "plains D" and "1 < length D" and "dirs_to D s"
  shows "\<exists>s'. apply_entry r \<lparr>hName = ''.wh...'', hLinkname = l, hMode = m, hTypeflag = t, hModTime = d\<rparr>
           (abs_path D) s = (Inr (), s')
    \<and> view s' = spec_prune (butlast D) (view s)"
proof -
  let ?hdr = "\<lparr>hName = ''.wh...'', hLinkname = l, hMode = m, hTypeflag = t, hModTime = d\<rparr>"
  have base: "path_base (hName ?hdr) = ''.wh.'' @ ''..''" by simp code_simp
  have "\<not> climbs 0 (split_chr slash (trim_left_chr slash (hName ?hdr)))" by simp code_simp
  moreover have "D @ [''.wh...''] = D @ entry_comps (hName ?hdr)" by simp code_simp
  ultimately have "apply_entry r ?hdr (abs_path D) =
      io_ignore (os_remove_all (path_join [abs_path (butlast (D @ [''.wh...''])), ''..'']))"
    by (intro whiteout_run [OF assms(2) _ _ base]) simp_all
  then have run: "apply_entry r ?hdr (abs_path D) = io_ignore (os_remove_all (abs_path (butlast D)))"
    using path_join_up [OF assms(2), of "''..''"] by simp
  have "prefix q D" if "prefix q (butlast D)" for q
    using that assms(3) prefix_butlastD [of D q] by (cases D) auto
  then have av: "avoids (links s) False (butlast D)"
    using assms(4) by (force simp: avoids_def links_def dirs_to_def is_dir_at_def)
  have "butlast D \<noteq> []" using assms(3) by (cases D rule: rev_cases) auto
  with remove_all_view [OF assms(1) list_all_butlast [OF assms(2)] _ av]
  obtain s' where "io_ignore (os_remove_all (abs_path (butlast D))) s = (Inr (), s')"
      "view s' = spec_prune (butlast D) (view s)"
    by blast
  with run show ?thesis by auto
qed

theorem whiteout_escapes_witness:
  "\<exists>s'. apply_entry ([], None) (sample_header ''.wh...'' TypeReg []) (abs_path [''d'', ''r'']) sample_deep = (Inr (), s')
    \<and> view s' = spec_prune [''d''] (view sample_deep) \<and> view sample_deep [''d'', ''other''] = Some (AFile ''x'')"
proof -
  have "ready_check sample_deep" and pl: "plains [''d'', ''r'']"
      and "list_all (\<lambda>k. is_dir_at sample_deep (take k [''d'', ''r''])) [0 ..< Suc (length [''d'', ''r''])]"
      and v: "view sample_deep [''d'', ''other''] = Some (AFile ''x'')"
    by code_simp+
  then have "ready sample_deep" "dirs_to [''d'', ''r''] sample_deep"
    by (simp_all only: ready_check_ready dirs_to_check)
  from whiteout_escapes [OF this(1) pl _ this(2)] v show ?thesis
    by (simp add: sample_header_def)
qed

section \<open>Opaque markers\<close>

lemma remove_children_view:
  "ready s \<Longrightarrow> plains par \<Longrightarrow> clear_to s par \<Longrightarrow> plains es \<Longrightarrow>
   \<exists>s'. io_each (\<lambda>e. io_ignore (os_remove_all (path_join [abs_path par, e]))) es s = (Inr (), s')
     \<and> ready s' \<and> view s' = (\<lambda>q. if \<exists>e \<in> set es. prefix (par @ [e]) q then None else view s q)"
proof (induction es arbitrary: s)
  case Nil
  then show ?case by (auto simp: io_return_def)
next
  case (Cons e es)
  let ?m = "\<lambda>e. io_ignore (os_remove_all (path_join [abs_path par, e]))"
  have "avoids (links s) False (par @ [e])" using clear_to_sibling [OF Cons.prems(3)] .
  moreover have "plains (par @ [e])" "plain e" using Cons.prems by simp_all
  ultimately obtain s1 where run: "?m e s = (Inr (), s1)" and r1: "ready s1"
      and v1: "view s1 = spec_prune (par @ [e]) (view s)"
    using remove_all_view [OF Cons.prems(1)] path_join_plain [OF Cons.prems(2)]
    by (metis snoc_eq_iff_butlast)
  have "spec_clear (view s1) par"
    using Cons.prems(3) by (auto simp: v1 spec_prune_def spec_clear_def clear_to_def list_all_iff)
  then have "clear_to s1 par" by simp
  with Cons.IH [OF r1 Cons.prems(2)] Cons.prems(4)
  obtain s2 where "io_each ?m es s1 = (Inr (), s2)" and "ready s2"
      and "view s2 = (\<lambda>q. if \<exists>e \<in> set es. prefix (par @ [e]) q then None else view s1 q)"
    by auto
  with run show ?case
    by (auto simp: io_bind_ok v1 spec_prune_def intro!: exI [where x = s2])
qed

lemma read_dir_run:
  assumes r: "ready s" and p: "plains par" "clear_to s par" "par \<noteq> []"
  obtains (missing) e where "os_read_dir (abs_path par) s = (Inl e, s)" and "node_at s par = None"
  | (entries) es where "os_read_dir (abs_path par) s = (Inr es, s)" and "plains es"
      and "\<And>e. node_at s (par @ [e]) \<noteq> None \<Longrightarrow> e \<in> set es"
proof (cases "node_at s par")
  case None
  have "\<exists>e. os_read_dir (abs_path par) s = (Inl e, s)"
    using walk_avoids_At [OF p(1) order_refl clear_to_avoids [OF p(2)]] None
    by (auto simp: os_read_dir_def split: sum.splits place.splits)
  with None show ?thesis using missing by blast
next
  case (Some nd)
  with p(2) have "is_dir_at s par" by (auto simp: clear_to_iff)
  with Some obtain m where nd: "nd = Dir m" by (auto simp: is_dir_at_node)
  have "path_open s par" using tree_ok_open [OF readyD(2,1) [OF r]] Some by simp
  with Some nd have w: "walk s True (abs_path par) = Inr (At par (Dir m))"
    using p by (simp add: walk_open_Some)
  let ?es = "map last (filter (\<lambda>r. r \<noteq> [] \<and> butlast r = par) (map fst (fs_nodes s)))"
  have "os_read_dir (abs_path par) s = (Inr (sort ?es), s)"
    using w readyD(1) [OF r] by (simp add: os_read_dir_def allowed_def)
  moreover have "plains (sort ?es)"
  proof -
    have "plain (last q)" if "q \<in> fst ` set (fs_nodes s)" "q \<noteq> []" for q
    proof -
      have "plains q" using readyD(3) [OF r] that(1) by (simp add: sane_def node_at_key [symmetric])
      with that(2) show ?thesis by (simp add: list_all_iff)
    qed
    then have "\<forall>q \<in> set (filter (\<lambda>r. r \<noteq> [] \<and> butlast r = par) (map fst (fs_nodes s))). plain (last q)"
      by auto
    then show ?thesis unfolding list_all_iff by simp
  qed
  moreover have "e \<in> set (sort ?es)" if "node_at s (par @ [e]) \<noteq> None" for e
  proof -
    have "par @ [e] \<in> set (filter (\<lambda>r. r \<noteq> [] \<and> butlast r = par) (map fst (fs_nodes s)))"
      using that [unfolded node_at_key] by simp
    then show ?thesis unfolding set_sort set_map by (rule image_eqI [rotated]) simp
  qed
  ultimately show ?thesis by (rule entries)
qed

lemma opaque_run:
  assumes "plains D" and "\<not> climbs 0 (split_chr slash (trim_left_chr slash (hName hdr)))"
    and "p = D @ entry_comps (hName hdr)"
    and "path_base (hName hdr) = ''.wh..wh..opq''"
    and "ready s" and "clear_to s (butlast p)" and "butlast p \<noteq> []"
  shows "\<exists>s'. apply_entry r hdr (abs_path D) s = (Inr (), s') \<and> ready s'
    \<and> view s' = spec_empty (butlast p) (view s)"
proof -
  note place = entry_place [OF assms(1-3)]
  have run: "apply_entry r hdr (abs_path D) =
     io_bind (io_try (os_read_dir (abs_path (butlast p)))) (\<lambda>r. case r of
        Inl _ \<Rightarrow> io_return ()
      | Inr entries \<Rightarrow>
          io_each (\<lambda>e. io_ignore (os_remove_all (path_join [abs_path (butlast p), e]))) entries)"
    using place assms(4) by (simp add: apply_entry_def Let_def)
  show ?thesis
  proof (rule read_dir_run [OF assms(5) place(3) assms(6,7)])
    fix e assume e: "os_read_dir (abs_path (butlast p)) s = (Inl e, s)" "node_at s (butlast p) = None"
    then have "node_at s q = None" if "strict_prefix (butlast p) q" for q
      using that tree_ok_gone [OF readyD(2) [OF assms(5)]] by (auto simp: strict_prefix_def)
    then have "view s = spec_empty (butlast p) (view s)"
      by (auto simp: spec_empty_def fun_eq_iff)
    with e(1) assms(5) show ?thesis by (auto simp: run io_defs)
  next
    fix es
    assume es: "os_read_dir (abs_path (butlast p)) s = (Inr es, s)" "plains es"
      and all: "\<And>e. node_at s (butlast p @ [e]) \<noteq> None \<Longrightarrow> e \<in> set es"
    obtain s' where run': "io_each (\<lambda>e. io_ignore (os_remove_all (path_join [abs_path (butlast p), e]))) es s
          = (Inr (), s')" and r': "ready s'"
        and v: "view s' = (\<lambda>q. if \<exists>e \<in> set es. prefix (butlast p @ [e]) q then None else view s q)"
      using remove_children_view [OF assms(5) place(3) assms(6) es(2)] by auto
    have "view s' q = spec_empty (butlast p) (view s) q" for q
    proof (cases "strict_prefix (butlast p) q \<and> node_at s q \<noteq> None")
      case True
      then obtain y where "q = butlast p @ y" "y \<noteq> []" by (auto simp: strict_prefix_def prefix_def)
      then obtain e z where q: "q = (butlast p @ [e]) @ z" by (cases y) auto
      have "node_at s (butlast p @ [e]) \<noteq> None"
        using True tree_ok_gone [OF readyD(2) [OF assms(5)], of "butlast p @ [e]" q]
        unfolding q by fastforce
      then have "e \<in> set es" by (rule all)
      with q True show ?thesis by (auto simp: v spec_empty_def)
    next
      case False
      have "\<not> prefix (butlast p @ [e]) q" if "\<not> strict_prefix (butlast p) q" for e
        using that by (auto simp: strict_prefix_def prefix_def)
      with False show ?thesis by (auto simp: v spec_empty_def)
    qed
    with es(1) run' r' show ?thesis by (auto simp: run io_defs fun_eq_iff)
  qed
qed

text \<open>
  An opaque marker empties the directory it is in and changes nothing else.
\<close>

theorem opaque_effect:
  assumes "plains D" and "\<not> climbs 0 (split_chr slash (trim_left_chr slash (hName hdr)))"
    and "p = D @ entry_comps (hName hdr)"
    and "path_base (hName hdr) = ''.wh..wh..opq''"
    and "ready s" and "clear_to s (butlast p)" and "butlast p \<noteq> []"
  shows "\<exists>s'. apply_entry r hdr (abs_path D) s = (Inr (), s') \<and> ready s'
    \<and> view s' = spec_empty (butlast p) (view s)"
  using assms by (rule opaque_run)

theorem opaque_effect_witness:
  "\<exists>s'. apply_entry ([], None) (sample_header ''.wh..wh..opq'' TypeReg []) (abs_path [''r'']) sample_fs = (Inr (), s')
    \<and> ready s' \<and> view s' = spec_empty [''r''] (view sample_fs)"
proof -
  let ?h = "sample_header ''.wh..wh..opq'' TypeReg []"
  have "plains [''r'']" "\<not> climbs 0 (split_chr slash (trim_left_chr slash (hName ?h)))"
      "[''r'', ''.wh..wh..opq''] = [''r''] @ entry_comps (hName ?h)"
      "path_base (hName ?h) = ''.wh..wh..opq''" "clear_to sample_fs (butlast [''r'', ''.wh..wh..opq''])"
    by code_simp+
  from opaque_effect [OF this(1-4) sample_fs_ready this(5)] show ?thesis by simp
qed

section \<open>Symbolic links\<close>

definition link_entry :: "tar_header \<Rightarrow> bool" where
  "link_entry hdr = (hTypeflag hdr = TypeSymlink \<and> \<not> has_prefix (path_base (hName hdr)) ''.wh.'')"

lemma apply_link_entry:
  assumes "link_entry hdr" and "safe_join dest (hName hdr) = Inr name"
  shows "apply_entry r hdr dest =
    io_bind (io_ignore (os_mkdir_all (path_dir name) 0x1ED)) (\<lambda>_.
    io_bind (io_ignore (os_remove name)) (\<lambda>_. os_symlink (hLinkname hdr) name))"
proof -
  have "path_base (hName hdr) \<noteq> ''.wh..wh..opq''"
    using assms(1) by (auto simp: link_entry_def has_prefix_def)
  with assms show ?thesis by (auto simp: apply_entry_def link_entry_def)
qed

lemma remove_run:
  assumes r: "ready s" and p: "plains p" "p \<noteq> []" and d: "is_dir_at s (butlast p)" and nd: "\<not> is_dir_at s p"
  obtains s' where "io_ignore (os_remove (abs_path p)) s = (Inr (), s')" and "ready s'"
    and "view s' = (view s)(p := None)" and "\<And>q. node_at s' q = (if q = p then None else node_at s q)"
    and "fs_inodes s' = fs_inodes s"
proof (cases "node_at s p")
  case None
  have "io_ignore (os_remove (abs_path p)) s = (Inr (), s)"
    using None parents_open [OF r p d] p
    by (simp add: io_ignore_def os_remove_def walk_open_None)
  moreover have "view s = (view s)(p := None)" using None by (simp add: fun_eq_iff)
  ultimately show ?thesis using None by (intro that [of s]) (use r in auto)
next
  case (Some x)
  have "\<not> has_child s p"
    using readyD(2) [OF r] nd by (auto simp: has_child_iff tree_ok_def)
  then have "io_ignore (os_remove (abs_path p)) s = (Inr (), del_node p s)"
    using Some parents_open [OF r p d] p
    by (simp add: io_ignore_def os_remove_def walk_open_Some)
  moreover have "ready (del_node p s)"
  proof -
    have "node_at s q = None" if "q \<noteq> []" "butlast q = p" for q
      using that readyD(2) [OF r] nd by (auto simp: tree_ok_def)
    then have "tree_ok (del_node p s)"
      using readyD(2) [OF r] p(2) by (auto simp: tree_ok_def is_dir_at_node fs_simps)
    with r show ?thesis by (auto simp: ready_def sane_def unaliased_def fs_simps)
  qed
  moreover have "view (del_node p s) = (view s)(p := None)"
    by (auto simp: view_def fs_simps fun_eq_iff split: option.splits node.splits)
  ultimately show ?thesis by (rule that) (simp_all add: fs_simps)
qed

lemma symlink_run:
  assumes r: "ready s" and p: "plains p" "p \<noteq> []" and d: "is_dir_at s (butlast p)"
    and "node_at s p = None" and "l \<noteq> []"
  obtains s' where "os_symlink l (abs_path p) s = (Inr (), s')" and "ready s'"
    and "view s' = (view s)(p \<mapsto> ALink l)"
proof -
  have "os_symlink l (abs_path p) s = (Inr (), set_node p (Symlink l) s)"
    using assms parents_open [OF r p d] by (simp add: os_symlink_def walk_open_None)
  moreover have "ready (set_node p (Symlink l) s)"
    using assms readyD(1) [OF r]
    by (intro ready_put [OF r p d, where nd = "Symlink l"]) (auto simp: fs_simps is_dir_at_def)
  moreover have "view (set_node p (Symlink l) s) = (view s)(p \<mapsto> ALink l)"
    by (auto simp: view_def fs_simps fun_eq_iff split: option.splits node.splits)
  ultimately show ?thesis using that by blast
qed

lemma link_entry_run:
  assumes D: "plains D" and lnk: "link_entry hdr"
    and name: "\<not> climbs 0 (split_chr slash (trim_left_chr slash (hName hdr)))"
    and p: "p = D @ entry_comps (hName hdr)" "p \<noteq> []"
    and s: "ready s" "clear_to s (butlast p)" and nodir: "\<not> is_dir_at s p" and l: "hLinkname hdr \<noteq> []"
  shows "\<exists>s'. apply_entry r hdr (abs_path D) s = (Inr (), s') \<and> ready s'
    \<and> view s' = (spec_dirs (butlast p) (view s))(p \<mapsto> ALink (hLinkname hdr))"
proof -
  note place = entry_place [OF D name p(1)]
  obtain s1 where run1: "os_mkdir_all (abs_path (butlast p)) 0x1ED s = (Inr (), s1)"
    and r1: "ready s1" and v1: "view s1 = spec_dirs (butlast p) (view s)"
    using mkdir_all_view [OF s(1) place(3) s(2)] .
  have d1: "is_dir_at s1 (butlast p)" "\<not> is_dir_at s1 p"
    using s(2) nodir v1 not_prefix_butlast [OF p(2)]
    by (simp_all flip: view_ADir) (auto simp: spec_dirs_def clear_to_iff)
  obtain s2 where run2: "io_ignore (os_remove (abs_path p)) s1 = (Inr (), s2)" and r2: "ready s2"
    and v2: "view s2 = (view s1)(p := None)"
    using remove_run [OF r1 place(2) p(2) d1] .
  have "butlast p \<noteq> p" using p(2) by (metis not_prefix_butlast prefix_order.refl)
  then have d2: "is_dir_at s2 (butlast p)" and n2: "node_at s2 p = None"
    using d1 v2 by (simp_all flip: view_ADir view_None)
  obtain s3 where "os_symlink (hLinkname hdr) (abs_path p) s2 = (Inr (), s3)" and "ready s3"
    and "view s3 = (view s2)(p \<mapsto> ALink (hLinkname hdr))"
    using symlink_run [OF r2 place(2) p(2) d2 n2 l] .
  moreover have "io_ignore (os_mkdir_all (abs_path (butlast p)) 0x1ED) s = (Inr (), s1)"
    using run1 by (simp add: io_ignore_def)
  ultimately show ?thesis
    using run2 unfolding apply_link_entry [OF lnk place(1)] place(4)
    by (simp add: io_bind_def v1 v2)
qed

section \<open>The stream refines the specification\<close>

lemma spec_file_SomeD:
  assumes "spec_file p r (view s) = Some t"
  shows "clear_to s (butlast p)" and "snd r = None"
    and "node_at s p = None \<or> (\<exists>i. node_at s p = Some (File i))"
    and "t = (spec_dirs (butlast p) (view s))(p \<mapsto> AFile (fst r))"
  using assms by (auto simp: spec_file_def view_def split: if_splits option.splits node.splits)

lemma regular_entry_refines:
  assumes D: "plains D" and r: "ready s" and reg: "file_entry hdr"
    and name: "\<not> climbs 0 (split_chr slash (trim_left_chr slash (hName hdr)))"
    and p: "p = D @ entry_comps (hName hdr)" "p \<noteq> []" and f: "spec_file p b (view s) = Some t"
  shows "\<exists>s'. apply_entry b hdr (abs_path D) s = (Inr (), s') \<and> ready s' \<and> view s' = t"
proof -
  note g = spec_file_SomeD [OF f]
  obtain s1 where "ready s1" "view s1 = spec_dirs (butlast p) (view s)" "node_at s1 p = node_at s p"
    and "ready (put_file p (fst b) (file_mode (hMode hdr)) s1)"
    and "apply_entry b hdr (abs_path D) s =
      (Inr (), touch p (hModTime hdr) (put_file p (fst b) (file_mode (hMode hdr)) s1))"
    using file_entry_run [OF D reg name p r g(1,3), of b] g(2) by auto
  then show ?thesis using view_put_file [of s1 p] g(3,4) by (simp add: touch_simps)
qed

lemma made_entry_refines:
  assumes D: "plains D" and r: "ready s" and spec: "spec_entry D hdr b (view s) = Some t"
    and ne: "entry_comps (hName hdr) \<noteq> []" and plain: "\<not> has_prefix (path_base (hName hdr)) ''.wh.''"
  shows "\<exists>s'. apply_entry b hdr (abs_path D) s = (Inr (), s') \<and> ready s' \<and> view s' = t"
proof -
  define p where "p = D @ entry_comps (hName hdr)"
  have name: "\<not> climbs 0 (split_chr slash (trim_left_chr slash (hName hdr)))"
    using spec by (auto simp: spec_entry_def split: if_splits)
  have pne: "p \<noteq> []" using ne by (simp add: p_def)
  have nb: "path_base (hName hdr) \<noteq> ''.wh..wh..opq''" using plain by (auto simp: has_prefix_def)
  note place = entry_place [OF D name p_def]
  note sp = spec [unfolded spec_entry_def Let_def, folded p_def, simplified name ne plain nb if_False simp_thms]
  show ?thesis
  proof (cases "hTypeflag hdr")
    case TypeReg
    with sp plain show ?thesis
      by (intro regular_entry_refines [OF D r _ name p_def pne]) (simp_all add: file_entry_def)
  next
    case TypeRegA
    with sp plain show ?thesis
      by (intro regular_entry_refines [OF D r _ name p_def pne]) (simp_all add: file_entry_def)
  next
    case TypeDir
    with sp have "clear_to s p" "t = spec_dirs p (view s)" by (auto split: if_splits)
    with mkdir_all_view [OF r place(2)] place(1) plain nb TypeDir show ?thesis
      by (auto simp: apply_entry_def)
  next
    case TypeSymlink
    with sp plain have l: "link_entry hdr" "clear_to s (butlast p)" "hLinkname hdr \<noteq> []" "\<not> is_dir_at s p"
      and t: "t = (spec_dirs (butlast p) (view s))(p \<mapsto> ALink (hLinkname hdr))"
      by (auto simp: link_entry_def spec_link_def split: if_splits)
    from link_entry_run [OF D l(1) name p_def pne r l(2,4,3)] t show ?thesis by simp
  qed (use sp plain r place nb in \<open>auto simp: apply_entry_def io_return_def\<close>)
qed

lemma named_entry_refines:
  assumes D: "plains D" "D \<noteq> []" and r: "ready s" and spec: "spec_entry D hdr b (view s) = Some t"
    and ne: "entry_comps (hName hdr) \<noteq> []"
  shows "\<exists>s'. apply_entry b hdr (abs_path D) s = (Inr (), s') \<and> ready s' \<and> view s' = t"
proof -
  define p where "p = D @ entry_comps (hName hdr)"
  let ?base = "path_base (hName hdr)"
  have name: "\<not> climbs 0 (split_chr slash (trim_left_chr slash (hName hdr)))"
    using spec by (auto simp: spec_entry_def split: if_splits)
  note place = entry_place [OF D(1) name p_def]
  note sp = spec [unfolded spec_entry_def Let_def, folded p_def, simplified name ne if_False simp_thms]
  consider (opq) "?base = ''.wh..wh..opq''" | (wh) x where "?base = ''.wh.'' @ x" "x \<noteq> ''.wh..opq''"
    | (plain) "\<not> has_prefix ?base ''.wh.''"
    by (auto simp: has_prefix_def prefix_def)
  then show ?thesis
  proof cases
    case opq
    with sp have "clear_to s (butlast p)" "t = spec_empty (butlast p) (view s)"
      by (auto split: if_splits)
    moreover have "butlast p \<noteq> []" using ne \<open>D \<noteq> []\<close> by (auto simp: p_def butlast_append)
    ultimately show ?thesis using opaque_run [OF D(1) name p_def opq r] by simp
  next
    case (wh x)
    then have "has_prefix ?base ''.wh.''" "trim_prefix ?base ''.wh.'' = x"
      by (simp_all add: trim_prefix_def has_prefix_def)
    with sp wh have x: "plain x" "clear_to s (butlast p)" "t = spec_prune (butlast p @ [x]) (view s)"
      by (auto split: if_splits)
    have "plains (butlast p @ [x])" using place(3) x(1) by simp
    from remove_all_view [OF r this _ clear_to_sibling [OF x(2)]] x(1,3) place(3) show ?thesis
      by (auto simp: whiteout_run [OF D(1) name p_def wh] path_join_plain)
  next
    case plain
    then show ?thesis by (rule made_entry_refines [OF D(1) r spec ne])
  qed
qed

text \<open>The entry of the destination itself, as most archives have it.\<close>

lemma root_entry_refines:
  assumes D: "plains D" and r: "ready s" and spec: "spec_entry D hdr b (view s) = Some t"
    and ne: "entry_comps (hName hdr) = []"
  shows "\<exists>s'. apply_entry b hdr (abs_path D) s = (Inr (), s') \<and> ready s' \<and> view s' = t"
proof -
  from spec ne have name: "\<not> climbs 0 (split_chr slash (trim_left_chr slash (hName hdr)))"
    and dir: "hTypeflag hdr = TypeDir" "\<not> has_prefix (path_base (hName hdr)) ''.wh.''" "clear_to s D"
    and t: "t = spec_dirs D (view s)"
    by (auto simp: spec_entry_def split: if_splits)
  have "path_base (hName hdr) \<noteq> ''.wh..wh..opq''" using dir(2) by (auto simp: has_prefix_def)
  with mkdir_all_view [OF r D dir(3)] entry_place(1) [OF D name refl] dir(1,2) ne t show ?thesis
    by (auto simp: apply_entry_def)
qed

lemma entry_refines:
  assumes "plains D" "D \<noteq> []" and "ready s" and "spec_entry D hdr b (view s) = Some t"
  obtains s' where "apply_entry b hdr (abs_path D) s = (Inr (), s')" and "ready s'" and "view s' = t"
  using named_entry_refines [OF assms] root_entry_refines [OF assms(1,3,4)] by blast


lemma stream_refines:
  assumes "plains D" and "D \<noteq> []" and "ready s" and "spec_stream D items (view s) = Some t"
  shows "\<exists>s'. extract_tar items (abs_path D) s = (Inr (), s') \<and> ready s' \<and> view s' = t"
  using assms(3,4)
proof (induction items arbitrary: s)
  case Nil
  then show ?case by (simp add: io_return_def)
next
  case (Cons item items)
  from Cons.prems(2) obtain hdr b where item: "item = TarEntry hdr b" by (cases item) auto
  with Cons.prems(2) obtain u where u: "spec_entry D hdr b (view s) = Some u" "spec_stream D items u = Some t"
    by (auto simp: bind_eq_Some_conv)
  obtain s1 where "apply_entry b hdr (abs_path D) s = (Inr (), s1)" "ready s1" "view s1 = u"
    using entry_refines [OF assms(1,2) Cons.prems(1) u(1)] .
  with Cons.IH [of s1] u(2) show ?case
    by (simp add: item io_bind_def io_wrap_def)
qed

end
