(* ===== verification/Posix_Write.thy ===== *)
theory Posix_Write
  imports Posix_Open
begin

text \<open>
  Writing and then looking, through any path: whatever links a path goes through, a file that has
  just been written there is found there.  Resolution depends on the nodes only, and a name that was
  absent resolves, once it is created, to what was created.
\<close>

lemma resolve_cong:
  assumes "\<And>q. node_at s' q = node_at s q" and "fs_super s' = fs_super s"
  shows "resolve s' fl n cur cs = resolve s fl n cur cs"
  using assms
proof (induction s fl n cur cs rule: resolve.induct)
  case (2 s fl n cur c cs)
  show ?case
  proof (cases "\<exists>m. node_at s cur = Some (Dir m) \<and> allowed s x_bit m")
    case False
    with "2.prems" show ?thesis by (auto simp: allowed_def split: option.splits node.splits)
  next
    case True
    then obtain m where m: "node_at s cur = Some (Dir m)" "allowed s x_bit m" by blast
    then have m': "allowed s' x_bit m" using "2.prems"(2) by (simp add: allowed_def)
    show ?thesis
    proof (cases "c = [] \<or> c = ''.'' \<or> c = ''..''")
      case True
      with 2 m m' show ?thesis by auto
    next
      case False
      show ?thesis
      proof (cases "node_at s (cur @ [c])")
        case None
        with 2 m m' False show ?thesis by simp
      next
        case (Some x)
        show ?thesis
        proof (cases x)
          case (Symlink t)
          have "resolve s' fl (n - 1) (if is_rooted t then [] else cur) (split_chr slash t @ cs) =
              resolve s fl (n - 1) (if is_rooted t then [] else cur) (split_chr slash t @ cs)"
            if "\<not> (cs = [] \<and> \<not> fl)" "n \<noteq> 0"
            using "2.IH"(5) [of "Dir m" m "Symlink t" t] that "2.prems" m False Some Symlink by simp
          with "2.prems"(1) m m' False Some Symlink show ?thesis by simp
        qed (use 2 m m' False Some in auto)
      qed
    qed
  qed
qed simp

lemma walk_cong:
  assumes "\<And>q. node_at s' q = node_at s q" and "fs_super s' = fs_super s" and "fs_cwd s' = fs_cwd s"
  shows "walk s' fl p = walk s fl p"
  using assms(3) by (simp add: walk_def resolve_cong [OF assms(1,2)])

lemma resolve_dir:
  assumes "resolve s fl n cur (c # cs) = Inr pl"
  shows "\<exists>m. node_at s cur = Some (Dir m) \<and> allowed s x_bit m"
proof (cases "node_at s cur")
  case (Some x)
  show ?thesis
  proof (cases x)
    case (Dir m)
    with Some assms show ?thesis by (cases "allowed s x_bit m") simp_all
  qed (use Some assms in simp_all)
qed (use assms in simp)

lemma resolve_Absent: "resolve s fl n cur cs = Inr (Absent q) \<Longrightarrow> node_at s q = None"
proof (induction s fl n cur cs rule: resolve.induct)
  case (2 s fl n cur c cs)
  obtain m where m: "node_at s cur = Some (Dir m)" "allowed s x_bit m"
    using resolve_dir [OF "2.prems"] by blast
  show ?case
  proof (cases "c = [] \<or> c = ''.'' \<or> c = ''..''")
    case True
    with 2 m show ?thesis by auto
  next
    case False
    show ?thesis
    proof (cases "node_at s (cur @ [c])")
      case None
      with "2.prems" m False show ?thesis by (auto split: if_splits)
    next
      case (Some x)
      show ?thesis
      proof (cases x)
        case (Symlink t)
        then have "resolve s fl (n - 1) (if is_rooted t then [] else cur) (split_chr slash t @ cs) = Inr (Absent q)"
            "\<not> (cs = [] \<and> \<not> fl)" "n \<noteq> 0"
          using "2.prems" m False Some by (auto split: if_splits)
        then show ?thesis
          using "2.IH"(5) [of "Dir m" m "Symlink t" t] m False Some Symlink by simp
      qed (use 2 m False Some in auto)
    qed
  qed
qed (simp split: option.splits)

lemma resolve_create:
  assumes "resolve s fl n cur cs = Inr (Absent q)"
    and "\<And>r. node_at s' r = (if r = q then Some nd else node_at s r)" and "fs_super s' = fs_super s"
    and "\<nexists>t. nd = Symlink t"
  shows "resolve s' fl n cur cs = Inr (At q nd)"
  using assms
proof (induction s fl n cur cs rule: resolve.induct)
  case (1 s fl n cur)
  then show ?case by (simp split: option.splits)
next
  case (2 s fl n cur c cs)
  have q: "node_at s q = None" using resolve_Absent [OF "2.prems"(1)] .
  obtain m where m: "node_at s cur = Some (Dir m)" "allowed s x_bit m"
    using resolve_dir [OF "2.prems"(1)] by blast
  then have cur: "cur \<noteq> q" "allowed s' x_bit m" using q "2.prems"(3) by (auto simp: allowed_def)
  show ?case
  proof (cases "c = [] \<or> c = ''.'' \<or> c = ''..''")
    case True
    with 2 m cur show ?thesis by auto
  next
    case False
    show ?thesis
    proof (cases "node_at s (cur @ [c])")
      case None
      with "2.prems" m False have "cs = []" "q = cur @ [c]" by (auto split: if_splits)
      with "2.prems"(2,4) m cur False show ?thesis by (cases nd) auto
    next
      case (Some x)
      then have x: "cur @ [c] \<noteq> q" using q by auto
      show ?thesis
      proof (cases x)
        case (Symlink t)
        let ?cur = "if is_rooted t then [] else cur"
        have n: "\<not> (cs = [] \<and> \<not> fl)" "n \<noteq> 0" "resolve s fl (n - 1) ?cur (split_chr slash t @ cs) = Inr (Absent q)"
          using "2.prems"(1) m False Some Symlink by (auto split: if_splits)
        have "resolve s' fl (n - 1) ?cur (split_chr slash t @ cs) = Inr (At q nd)"
          using "2.IH"(5) [of "Dir m" m "Symlink t" t] n "2.prems"(2-) m False Some Symlink by simp
        with "2.prems"(2) m cur False Some x Symlink n(1,2) show ?thesis by simp
      qed (use 2 m cur False Some x in auto)
    qed
  qed
qed

lemma walk_create:
  assumes "walk s fl p = Inr (Absent q)"
    and "\<And>r. node_at s' r = (if r = q then Some nd else node_at s r)" and "fs_super s' = fs_super s"
    and "fs_cwd s' = fs_cwd s" and "\<nexists>t. nd = Symlink t"
  shows "walk s' fl p = Inr (At q nd)"
  using assms resolve_create [OF _ assms(2,3,5)] by (auto simp: walk_def split: if_splits)

section \<open>A file that was written\<close>

lemma cwd_simps [fs_simps]:
  "fs_cwd (set_node p nd s) = fs_cwd s" "fs_cwd (del_node p s) = fs_cwd s" "fs_cwd (set_inode i x s) = fs_cwd s"
  "fs_cwd (create_file p m s) = fs_cwd s" "fs_cwd (truncate_file i s) = fs_cwd s"
  "fs_cwd (snd (fd_write i b s)) = fs_cwd s"
  by (simp_all add: set_node_def del_node_def set_inode_def create_file_def truncate_file_def fd_write_def)

lemma file_simps [fs_simps]:
  "fs_super (create_file p m s) = fs_super s" "fs_super (truncate_file i s) = fs_super s"
  "fs_super (snd (fd_write i b s)) = fs_super s"
  "i_data (fs_inodes (create_file p m s) (fs_next s)) = []"
  "i_data (fs_inodes (truncate_file i s) i) = []"
  "i_data (fs_inodes (snd (fd_write i b s)) i) = i_data (fs_inodes s i) @ b"
  by (simp_all add: create_file_def truncate_file_def fd_write_def fs_simps)

text \<open>The name an open finds, what it stands for afterwards, and the frame.\<close>

lemma open_trunc_walk:
  assumes "os_open_trunc p mode s = (Inr i, s')"
  shows "\<exists>q. (walk s True p = Inr (Absent q) \<or> walk s True p = Inr (At q (File i)))
    \<and> walk s' True p = Inr (At q (File i)) \<and> i_data (fs_inodes s' i) = []
    \<and> fs_super s' = fs_super s \<and> (\<forall>r. r \<noteq> q \<longrightarrow> node_at s' r = node_at s r)"
proof (cases "walk s True p")
  case (Inr pl)
  show ?thesis
  proof (cases pl)
    case (Absent q)
    with assms Inr have s': "i = fs_next s" "s' = create_file q mode s"
      by (auto simp: os_open_trunc_def split: if_splits)
    have "walk s' True p = Inr (At q (File i))"
      by (rule walk_create [of s True]) (use Inr Absent s' in \<open>auto simp: fs_simps\<close>)
    with Inr Absent s' show ?thesis
      by (auto simp: fs_simps)
  next
    case (At q nd)
    with assms Inr obtain j where nd: "nd = File j" by (auto simp: os_open_trunc_def split: node.splits)
    with assms Inr At have s': "i = j" "s' = truncate_file i s"
      by (auto simp: os_open_trunc_def split: if_splits)
    have "walk s' True p = walk s True p"
      by (rule walk_cong) (simp_all add: s' fs_simps)
    with Inr At nd s' show ?thesis
      by (auto simp: fs_simps)
  qed
qed (use assms in \<open>simp add: os_open_trunc_def\<close>)

lemma open_trunc_err: "os_open_trunc p mode s = (Inl e, s') \<Longrightarrow> s' = s"
  by (auto simp: os_open_trunc_def split: sum.splits place.splits node.splits if_splits)

lemma walk_fd_write [simp]: "walk (snd (fd_write i b s)) fl p = walk s fl p"
  by (rule walk_cong) (simp_all add: fs_simps)

lemma write_file_walk:
  assumes "os_write_file p b mode s = (Inr (), s')"
  shows "\<exists>q i. walk s' True p = Inr (At q (File i)) \<and> i_data (fs_inodes s' i) = b \<and> fs_super s' = fs_super s"
proof -
  from assms obtain i s1 where o: "os_open_trunc p mode s = (Inr i, s1)" and s': "s' = snd (fd_write i b s1)"
    by (auto simp: os_write_file_def fd_write_def elim: io_bind_InrE)
  from open_trunc_walk [OF o] show ?thesis
    unfolding s' by (auto simp: fs_simps)
qed

lemma write_then_stat:
  assumes "os_write_file p b mode s = (Inr (), s')"
  shows "\<exists>i. os_stat p s' = (Inr (File i), s')"
  using write_file_walk [OF assms] by (auto simp: os_stat_def)

lemma write_then_read:
  assumes "os_write_file p b mode s = (Inr (), s')" and "fs_super s"
  shows "os_read_file p s' = (Inr b, s')"
  using write_file_walk [OF assms(1)] assms(2) by (auto simp: os_read_file_def allowed_def)

lemma write_file_err: "os_write_file p b mode s = (Inl e, s') \<Longrightarrow> s' = s"
  by (auto simp: os_write_file_def io_defs fd_write_def split: prod.splits sum.splits dest: open_trunc_err)

end
