(* ===== verification/Image_Ref_Correct.thy ===== *)
theory Image_Ref_Correct
  imports Image_Ref
begin

text \<open>
  The properties of references: shorthand follows its rules and is done once, the mirror replaces the
  registry and nothing else, and plain HTTP is for loopback hosts only.
\<close>

section \<open>Shorthand\<close>

text \<open>
  C31. Docker Hub shorthand is expanded by its rules: the four forms of Docker Hub names (a bare name,
  an owner and a name, each also under \<open>docker.io/\<close>) get the registry's host and, for a single
  component, \<open>library/\<close>; a name that already has a registry host is left alone.  The cases cover
  every string.
\<close>

theorem docker_hub_rules:
  assumes "name_ok n"
  shows "expand_docker_hub (show_name n) = canonical_name n \<and> (\<exists>n'. name_ok n' \<and> show_name n' = s)"
  using expand_show [OF assms] every_name by simp

theorem docker_hub_rules_witness:
  "expand_docker_hub ''docker.io/alpine:3.21'' = ''registry-1.docker.io/library/alpine:3.21''"
  using docker_hub_rules [of "Hub ''alpine'' '':3.21''"] by (simp add: suffix_ok_def)

lemma registry_host: "slash \<notin> set ''registry-1.docker.io''" "set ''registry-1.docker.io'' \<inter> set ''.:'' \<noteq> {}"
  "''registry-1.docker.io'' \<noteq> ''docker.io''"
  by auto

lemma canonical_form: "name_ok n \<Longrightarrow> \<exists>h r. canonical_name n = h @ ''/'' @ r \<and>
    slash \<notin> set h \<and> set h \<inter> set ''.:'' \<noteq> {} \<and> h \<noteq> ''docker.io''"
proof (cases "\<exists>h r. n = Hosted h r")
  case False
  then have "\<exists>x. canonical_name n = ''registry-1.docker.io'' @ ''/'' @ x" by (cases n) auto
  with registry_host show ?thesis by blast
next
  case True
  then obtain h r where "n = Hosted h r" by blast
  moreover assume "name_ok n"
  ultimately show ?thesis by (intro exI [of _ h] exI [of _ r]) simp
qed

lemma expand_form: "\<exists>h r. expand_docker_hub s = h @ ''/'' @ r \<and>
    slash \<notin> set h \<and> set h \<inter> set ''.:'' \<noteq> {} \<and> h \<noteq> ''docker.io''"
proof -
  obtain n where n: "name_ok n" "show_name n = s" using every_name [of s] by blast
  with canonical_form [OF n(1)] expand_show [OF n(1)] show ?thesis by simp
qed

text \<open>
  Expanding is idempotent, and what it gives always names a registry: a host with a dot or a
  colon, before the first slash.
\<close>

theorem expand_idempotent:
  "expand_docker_hub (expand_docker_hub s) = expand_docker_hub s
   \<and> (\<exists>h r. expand_docker_hub s = h @ ''/'' @ r \<and> slash \<notin> set h \<and> contains_any h ''.:'')"
proof -
  obtain h r where e: "expand_docker_hub s = h @ ''/'' @ r"
      "slash \<notin> set h" "set h \<inter> set ''.:'' \<noteq> {}" "h \<noteq> ''docker.io''"
    using expand_form [of s] by blast
  then have "contains_any h ''.:''" by (simp add: contains_any_def index_any_None_iff)
  moreover have "expand_docker_hub (h @ ''/'' @ r) = h @ ''/'' @ r"
    by (rule canonical_host [OF e(2-4)])
  ultimately show ?thesis using e(1,2) by auto
qed

section \<open>The mirror\<close>

lemma drop_to_slash: "slash \<notin> set h \<Longrightarrow> dropWhile (\<lambda>c. c \<noteq> slash) (h @ slash # r) = slash # r"
  by (induction h) auto

lemma cut_chr_take: "(case cut_chr c s of Some (h, _) \<Rightarrow> h | None \<Rightarrow> s) = takeWhile (\<lambda>x. x \<noteq> c) s"
  by (induction s) (auto split: option.splits)

lemma mirror_run: "slash \<notin> set h \<Longrightarrow>
  rewrite_for_mirror env (h @ ''/'' @ r) = (if mirror_host env = [] then h else mirror_host env) @ ''/'' @ r"
  using take_to_slash [of h r] by (simp add: rewrite_for_mirror_def Let_def)

text \<open>
  Routing through a mirror replaces everything before the first slash by the mirror's host and
  keeps the rest, also when it is done twice; without a mirror nothing changes.
\<close>

theorem mirror_keeps_path:
  "canonical_ref env img =
     (if mirror_host env = [] then expand_docker_hub img
      else mirror_host env @ dropWhile (\<lambda>c. c \<noteq> slash) (expand_docker_hub img))
   \<and> (slash \<in> set (mirror_host env) \<or> rewrite_for_mirror env (canonical_ref env img) = canonical_ref env img)"
proof -
  obtain h r where e: "expand_docker_hub img = h @ ''/'' @ r" "slash \<notin> set h"
    using expand_form [of img] by blast
  then have "dropWhile (\<lambda>c. c \<noteq> slash) (expand_docker_hub img) = ''/'' @ r"
    using drop_to_slash [of h r] by simp
  moreover have "canonical_ref env img = (if mirror_host env = [] then h else mirror_host env) @ ''/'' @ r"
    unfolding canonical_ref_def e(1) by (rule mirror_run [OF e(2)])
  ultimately show ?thesis
    using e mirror_run [of h env r] mirror_run [of "mirror_host env" env r] by (cases "mirror_host env = []") auto
qed

lemma registry_no_slash: "registry_ok m \<Longrightarrow> slash \<notin> set m"
proof
  assume ok: "registry_ok m" and s: "slash \<in> set m"
  have port: "port_ok p \<Longrightarrow> slash \<notin> set p" for p
    by (cases p) (auto simp: port_ok_def list_all_iff is_digit_def)
  show False
  proof (cases "hd m = CHR ''[''")
    case True
    with ok obtain a p where m: "m = CHR ''['' # a @ CHR '']'' # p" "list_all address_char a" "port_ok p"
      by (cases m) (auto simp: registry_ok_def cut_chr_Some_iff split: option.splits)
    have "slash \<notin> set a" using m(2) by (auto simp: list_all_iff address_char_def is_digit_def)
    with m(1) s port [OF m(3)] show False by auto
  next
    case False
    let ?h = "takeWhile (\<lambda>c. c \<noteq> CHR '':'') m"
    have "list_all host_char ?h" "port_ok (drop (length ?h) m)"
      using ok False by (simp_all add: registry_ok_def Let_def)
    moreover have "slash \<notin> set ?h"
      using calculation(1)
      by (auto simp: list_all_iff host_char_def word_char_def alnum_def is_digit_def)
    ultimately have "slash \<notin> set (?h @ drop (length ?h) m)" using port by auto
    then show False using s by (metis append_take_drop_id takeWhile_eq_take)
  qed
qed

text \<open>
  C32. The mirror serves the same repository: when the reference without a mirror is valid and the
  mirror is a valid registry, the reference with the mirror is valid too, with the same repository
  and the same tag or digest.
\<close>

theorem mirror_same_repository:
  assumes "parse_reference (expand_docker_hub img) = Inr ref"
    and "mirror_host env \<noteq> []" and "registry_ok (mirror_host env)"
  shows "parse_reference (canonical_ref env img) = Inr (ref\<lparr>rf_registry := mirror_host env\<rparr>)"
proof -
  obtain h r where e: "expand_docker_hub img = h @ slash # r" "slash \<notin> set h"
    using expand_form [of img] by auto
  have c: "canonical_ref env img = mirror_host env @ slash # r"
    using mirror_run [OF e(2), of env r] e(1) assms(2) by (simp add: canonical_ref_def)
  have "slash \<notin> set (mirror_host env)" by (rule registry_no_slash [OF assms(3)])
  then have m: "cut_chr slash (mirror_host env @ slash # r) = Some (mirror_host env, r)" by simp
  have h: "cut_chr slash (h @ slash # r) = Some (h, r)" using e(2) by simp
  define t where "t = (case cut_chr CHR ''@'' r of
      Some (l, r) \<Rightarrow> (case cut_chr CHR '':'' l of Some (n, _) \<Rightarrow> (n, r, False) | None \<Rightarrow> (l, r, False))
    | None \<Rightarrow> (case cut_chr CHR '':'' r of Some (l, r) \<Rightarrow> (l, r, True) | None \<Rightarrow> (r, [], False)))"
  obtain n q isTag where t: "t = (n, q, isTag)" by (cases t) auto
  from assms(1) have "repository_ok n" "q = [] \<or> (isTag \<and> tag_ok q) \<or> (\<not> isTag \<and> digest_ok q)"
      and ref: "ref = \<lparr>rf_registry = h, rf_repository = n, rf_reference = q\<rparr>"
    unfolding e(1) parse_reference_def h option.case prod.case t_def [symmetric] t Let_def
    by (auto split: if_splits)
  then show ?thesis
    using assms(3) unfolding c parse_reference_def m option.case prod.case t_def [symmetric] t Let_def ref
    by auto
qed

definition mirror_env :: environ where
  "mirror_env = (\<lambda>v. if v = ''WEFT_MICROVM_REGISTRY_MIRROR'' then ''http://10.255.2.30:8080/'' else [])"

theorem mirror_same_repository_witness:
  "parse_reference (canonical_ref mirror_env ''alpine:3'') =
     Inr \<lparr>rf_registry = ''10.255.2.30:8080'', rf_repository = ''library/alpine'', rf_reference = ''3''\<rparr>"
proof -
  have e: "parse_reference (expand_docker_hub ''alpine:3'') =
      Inr \<lparr>rf_registry = ''registry-1.docker.io'', rf_repository = ''library/alpine'', rf_reference = ''3''\<rparr>"
  proof -
    have x: "expand_docker_hub ''alpine:3'' = ''registry-1.docker.io/library/alpine:3''"
        "cut_chr slash ''registry-1.docker.io/library/alpine:3'' = Some (''registry-1.docker.io'', ''library/alpine:3'')"
        "cut_chr CHR ''@'' ''library/alpine:3'' = None"
        "cut_chr CHR '':'' ''library/alpine:3'' = Some (''library/alpine'', ''3'')"
        "split_chr slash ''library/alpine'' = [''library'', ''alpine'']"
      by code_simp+
    note chars = host_char_def word_char_def alnum_def is_digit_def
    have "registry_ok ''registry-1.docker.io''" by (simp add: registry_ok_def chars port_ok_def)
    moreover have "repository_ok ''library/alpine''"
      by (simp add: repository_ok_def x component_ok_def runs_ok.simps chars)
    moreover have "tag_ok ''3''" by (simp add: tag_ok_def chars)
    ultimately show ?thesis by (simp add: parse_reference_def x)
  qed
  have "trim_space ''http://10.255.2.30:8080/'' = ''http://10.255.2.30:8080/''"
    by (rule trim_space_graphic) (simp_all add: graphic_def)
  moreover have "mirror_env ''WEFT_MICROVM_REGISTRY_MIRROR'' = ''http://10.255.2.30:8080/''"
    by (simp add: mirror_env_def)
  moreover have "index_sub ''http://10.255.2.30:8080/'' ''://'' = Some 4"
      "trim_chr slash ''10.255.2.30:8080/'' = ''10.255.2.30:8080''" by code_simp+
  ultimately have m: "mirror_host mirror_env = ''10.255.2.30:8080''"
    by (simp add: mirror_host_def)
  have "registry_ok ''10.255.2.30:8080''"
    by (simp add: registry_ok_def host_char_def word_char_def alnum_def is_digit_def port_ok_def)
  then show ?thesis using mirror_same_repository [OF e, of mirror_env] by (simp add: m)
qed

section \<open>Plain HTTP\<close>

text \<open>
  Plain HTTP is used exactly for \<open>127.0.0.1\<close> and \<open>localhost\<close>, with or without a port; the
  third name the code lists, \<open>::1\<close>, is never the text before the first colon, so the IPv6 loopback
  address is not covered.
\<close>

theorem plain_http_loopback:
  "case new_repository canonical of
     Inr r \<Rightarrow> repo_plain r =
       (takeWhile (\<lambda>c. c \<noteq> CHR '':'') (rf_registry (repo_ref r)) \<in> {''127.0.0.1'', ''localhost''})
   | Inl _ \<Rightarrow> True"
proof (cases "parse_reference canonical")
  case (Inr ref)
  let ?g = "rf_registry ref"
  have "(case cut_chr CHR '':'' ?g of Some (h, _) \<Rightarrow> h | None \<Rightarrow> ?g) = takeWhile (\<lambda>c. c \<noteq> CHR '':'') ?g"
    by (rule cut_chr_take)
  moreover have "takeWhile (\<lambda>c. c \<noteq> CHR '':'') ?g \<noteq> ''::1''"
    by (metis list.set_intros(1) set_takeWhileD)
  ultimately show ?thesis using Inr by (simp add: new_repository_def Let_def)
qed (simp add: new_repository_def)

end
