(* ===== verification/Pull_Correct.thy ===== *)
theory Pull_Correct
  imports Pull Extract_Refine Posix_Write Image_Ref_Correct
begin

text \<open>
  The properties of \<open>Pull\<close>: what the platform choice picks, that a pull that has succeeded is not done
  again, what is on disk after success, what a failure leaves behind, and that on a well-behaved
  registry and file system it does succeed, with exactly the tree its parts describe.
\<close>

section \<open>Choosing the platform\<close>

lemma pick_platform_find:
  "pick_platform os arch ms =
     (case List.find (platform_matches os arch) ms of
        Some m \<Rightarrow> Inr m | None \<Rightarrow> Inl (Errorf ''no manifest matches %s/%s'' [os, arch]))"
  by (induction ms) auto

text \<open>
  From an index the descent takes the first entry of this architecture whose system is this one or
  not given, and it is an error exactly when there is none; what is not an index is taken as it is,
  without asking the registry.
\<close>

theorem resolve_platform_first:
  "case resolve_platform rm repo desc os arch of
     Inr m \<Rightarrow> if d_media_type desc \<notin> set index_types then m = desc
       else (\<exists>body ms xs ys. fetch_all rm repo desc = Inr body \<and> unmarshal_index body = Inr ms
         \<and> ms = xs @ m # ys \<and> platform_matches os arch m \<and> list_all (\<lambda>x. \<not> platform_matches os arch x) xs)
   | Inl _ \<Rightarrow> d_media_type desc \<in> set index_types
       \<and> (case fetch_all rm repo desc of
            Inr body \<Rightarrow> (case unmarshal_index body of
              Inr ms \<Rightarrow> list_all (\<lambda>x. \<not> platform_matches os arch x) ms | Inl _ \<Rightarrow> True)
          | Inl _ \<Rightarrow> True)"
proof -
  have find: "List.find P ms = Some m \<Longrightarrow> \<exists>xs ys. ms = xs @ m # ys \<and> P m \<and> list_all (\<lambda>x. \<not> P x) xs" for P ms m
    by (auto simp: find_Some_iff list_all_length) (metis id_take_nth_drop length_take min.absorb4 nth_take)
  have none: "List.find P ms = None \<Longrightarrow> list_all (\<lambda>x. \<not> P x) ms" for P ms
    by (simp add: find_None_iff list_all_iff)
  show ?thesis
    using find [of "platform_matches os arch"] none [of "platform_matches os arch"]
    by (simp add: resolve_platform_def pick_platform_find split: sum.split option.split)
qed

section \<open>Where things are\<close>

definition cache_at :: "environ \<Rightarrow> path \<Rightarrow> string \<Rightarrow> bool" where
  "cache_at env D img =
     (env ''XDG_DATA_HOME'' = abs_path D \<and> plains D \<and> img \<noteq> [] \<and> img \<noteq> ''.'' \<and> img \<noteq> ''..'')"

definition root_dir :: "path \<Rightarrow> string \<Rightarrow> path" where
  "root_dir D img = D @ [''weft-microvm'', ''images'', refsafe img]"

definition rootfs_dir :: "path \<Rightarrow> string \<Rightarrow> path" where
  "rootfs_dir D img = root_dir D img @ [''rootfs'']"

definition sentinel_file :: "path \<Rightarrow> string \<Rightarrow> path" where
  "sentinel_file D img = rootfs_dir D img @ [''.weft-microvm'', ''config.json'']"

lemma plain_names: "plain ''weft-microvm''" "plain ''images''" "plain ''rootfs''" "plain ''.weft-microvm''"
    "plain ''config.json''" "plain ''manifest.json''"
  by (simp_all add: plain_def)

lemma cache_plains:
  assumes "cache_at env D img"
  shows "plains (root_dir D img)" and "plains (rootfs_dir D img)"
  using assms by (simp_all add: cache_at_def root_dir_def rootfs_dir_def plain_names refsafe_plain_iff)

lemma cache_places:
  assumes "cache_at env D img"
  shows "image_root env (refsafe img) = abs_path (root_dir D img)"
    and "rootfs_path env (refsafe img) = abs_path (rootfs_dir D img)"
    and "path_join [abs_path (rootfs_dir D img), ''.weft-microvm'', ''config.json''] = abs_path (sentinel_file D img)"
    and "path_join [abs_path (rootfs_dir D img), ''.weft-microvm''] = abs_path (rootfs_dir D img @ [''.weft-microvm''])"
    and "path_join [abs_path (rootfs_dir D img @ [''.weft-microvm'']), ''config.json''] = abs_path (sentinel_file D img)"
    and "path_join [abs_path (root_dir D img), ''manifest.json''] = abs_path (root_dir D img @ [''manifest.json''])"
    and "path_join [abs_path (root_dir D img), ''config.json''] = abs_path (root_dir D img @ [''config.json''])"
proof -
  note p = cache_plains [OF assms]
  from assms have e: "env ''XDG_DATA_HOME'' = abs_path D" "plains D" "img \<noteq> []" "img \<noteq> ''.''" "img \<noteq> ''..''"
    by (simp_all add: cache_at_def)
  from cache_paths [of env D img, OF e]
  show "image_root env (refsafe img) = abs_path (root_dir D img)"
      "rootfs_path env (refsafe img) = abs_path (rootfs_dir D img)"
    by (simp_all add: root_dir_def rootfs_dir_def)
  show "path_join [abs_path (rootfs_dir D img), ''.weft-microvm'', ''config.json''] = abs_path (sentinel_file D img)"
    unfolding sentinel_file_def by (rule path_join_Cons3 [OF p(2) plain_names(4,5)])
  show "path_join [abs_path (rootfs_dir D img), ''.weft-microvm''] = abs_path (rootfs_dir D img @ [''.weft-microvm''])"
    by (rule path_join_plain [OF p(2) plain_names(4)])
  have "plains (rootfs_dir D img @ [''.weft-microvm''])" using p(2) plain_names(4) by simp
  from path_join_plain [OF this plain_names(5)]
  show "path_join [abs_path (rootfs_dir D img @ [''.weft-microvm'']), ''config.json''] = abs_path (sentinel_file D img)"
    by (simp add: sentinel_file_def)
  show "path_join [abs_path (root_dir D img), ''manifest.json''] = abs_path (root_dir D img @ [''manifest.json''])"
    by (rule path_join_plain [OF p(1) plain_names(6)])
  show "path_join [abs_path (root_dir D img), ''config.json''] = abs_path (root_dir D img @ [''config.json''])"
    by (rule path_join_plain [OF p(1) plain_names(5)])
qed

lemma stat_same: "os_stat p s = (r, s') \<Longrightarrow> s' = s"
  by (auto simp: os_stat_def split: sum.splits place.splits)

text \<open>The three ways through the operation: a bad reference, an image that is there, and a fresh pull.\<close>

lemma pull_image_at:
  assumes "cache_at env D img"
  shows "pull_image rm env img s =
     (case new_repository (canonical_ref env img) of
        Inl err \<Rightarrow> (Inl (Wrapf ''parse %q: %w'' [canonical_ref env img] err), s)
      | Inr repo \<Rightarrow>
          (case fst (os_stat (abs_path (sentinel_file D img)) s) of
             Inr _ \<Rightarrow> (Inr (), s)
           | Inl _ \<Rightarrow> pull_fresh rm repo img (abs_path (root_dir D img)) (abs_path (rootfs_dir D img)) s))"
proof -
  obtain r where st: "os_stat (abs_path (sentinel_file D img)) s = (r, s)" using stat_same by (metis surj_pair)
  show ?thesis
    unfolding pull_image_def Let_def cache_places(1,2,3) [OF assms]
    by (cases r) (auto simp: st io_run io_try_def io_bind_def split: sum.split)
qed

section \<open>After a success\<close>

lemma write_process_success:
  assumes c: "cache_at env D img"
    and run: "write_process rm repo (abs_path (root_dir D img)) (abs_path (rootfs_dir D img)) cfg s = (Inr (), s')"
  shows "\<exists>b ic proc s1 s2. fetch_all rm repo cfg = Inr b \<and> unmarshal_image b = Inr ic
    \<and> process_from_image_config_with_rootfs ic (abs_path (rootfs_dir D img)) s1 = (Inr proc, s1)
    \<and> os_write_file (abs_path (sentinel_file D img)) (marshal_config proc) 0x1A4 s2 = (Inr (), s')"
proof -
  from run obtain b s1 ic proc s2 s3 s4 where r: "fetch_all rm repo cfg = Inr b" "unmarshal_image b = Inr ic"
      "process_from_image_config_with_rootfs ic (abs_path (rootfs_dir D img)) s1 = (Inr proc, s2)"
      "os_write_file (abs_path (sentinel_file D img)) (marshal_config proc) 0x1A4 s4 = (Inr (), s')"
    unfolding write_process_def Let_def cache_places(4,5,7) [OF c]
    by (fastforce elim!: io_bind_InrE dest!: io_wrap_InrD simp: io_lift_run)
  have "s2 = s1"
    using tripleD [OF process_triple [of "\<lambda>t. t = s1" ic "abs_path (rootfs_dir D img)"], of s1] r(3) by simp
  with r show ?thesis by blast
qed

lemma pull_success:
  assumes c: "cache_at env D img" and run: "pull_image rm env img s = (Inr (), s')"
  shows "(\<exists>nd. os_stat (abs_path (sentinel_file D img)) s = (Inr nd, s) \<and> s' = s) \<or>
    (\<exists>repo mb mf b ic proc s1 s2. new_repository (canonical_ref env img) = Inr repo
      \<and> fetch_manifest rm repo img = Inr (mb, mf) \<and> fetch_all rm repo (mf_config mf) = Inr b
      \<and> unmarshal_image b = Inr ic
      \<and> process_from_image_config_with_rootfs ic (abs_path (rootfs_dir D img)) s1 = (Inr proc, s1)
      \<and> os_write_file (abs_path (sentinel_file D img)) (marshal_config proc) 0x1A4 s2 = (Inr (), s'))"
proof -
  let ?rootfs = "abs_path (rootfs_dir D img)" and ?root = "abs_path (root_dir D img)"
  from run obtain repo where repo: "new_repository (canonical_ref env img) = Inr repo"
    unfolding pull_image_at [OF c] by (cases "new_repository (canonical_ref env img)") auto
  obtain r where st: "os_stat (abs_path (sentinel_file D img)) s = (r, s)" using stat_same by (metis surj_pair)
  show ?thesis
  proof (cases r)
    case (Inr nd)
    with st run repo show ?thesis unfolding pull_image_at [OF c] by simp
  next
    case (Inl e)
    with run st repo have "pull_fresh rm repo img ?root ?rootfs s = (Inr (), s')"
      unfolding pull_image_at [OF c] by simp
    then obtain mb mf s3 where "fetch_manifest rm repo img = Inr (mb, mf)"
        "write_process rm repo ?root ?rootfs (mf_config mf) s3 = (Inr (), s')"
      unfolding pull_fresh_def by (fastforce elim!: io_bind_InrE simp: io_lift_run split: prod.splits)
    with write_process_success [OF c this(2)] repo show ?thesis by blast
  qed
qed

text \<open>
  A pull that has succeeded is not done again: the next one succeeds at once, whatever the
  registry answers by then, and changes nothing.
\<close>

theorem pull_once:
  assumes "cache_at env D img" and "pull_image rm env img s = (Inr (), s')"
  shows "pull_image rm' env img s' = (Inr (), s')"
proof -
  from assms(2) obtain repo where repo: "new_repository (canonical_ref env img) = Inr repo"
    unfolding pull_image_at [OF assms(1)] by (cases "new_repository (canonical_ref env img)") auto
  have "\<exists>nd. os_stat (abs_path (sentinel_file D img)) s' = (Inr nd, s')"
    using pull_success [OF assms] write_then_stat by fastforce
  with repo show ?thesis unfolding pull_image_at [OF assms(1)] by auto
qed

text \<open>
  After a pull that did anything, the configuration file in the image's root file system is what
  the registry's configuration blob says: it holds the process derived from it, and reading it back
  gives that process.
\<close>

theorem pull_leaves_process:
  assumes "cache_at env D img" and "pull_image rm env img s = (Inr (), s')" and "fs_super s'"
    and "fst (os_stat (abs_path (sentinel_file D img)) s) = Inl e"
  shows "\<exists>repo mb mf b ic proc. new_repository (canonical_ref env img) = Inr repo
    \<and> fetch_manifest rm repo img = Inr (mb, mf) \<and> fetch_all rm repo (mf_config mf) = Inr b
    \<and> unmarshal_image b = Inr ic
    \<and> (\<exists>s1. process_from_image_config_with_rootfs ic (abs_path (rootfs_dir D img)) s1 = (Inr proc, s1))
    \<and> os_read_file (abs_path (sentinel_file D img)) s' = (Inr (marshal_config proc), s')
    \<and> (config_ok proc \<longrightarrow> unmarshal_config (marshal_config proc) = Some proc)"
proof -
  from pull_success [OF assms(1,2)] assms(4)
  obtain repo mb mf b ic proc s1 s2 where r: "new_repository (canonical_ref env img) = Inr repo"
      "fetch_manifest rm repo img = Inr (mb, mf)" "fetch_all rm repo (mf_config mf) = Inr b"
      "unmarshal_image b = Inr ic"
      "process_from_image_config_with_rootfs ic (abs_path (rootfs_dir D img)) s1 = (Inr proc, s1)"
      "os_write_file (abs_path (sentinel_file D img)) (marshal_config proc) 0x1A4 s2 = (Inr (), s')"
    by auto
  have "fs_super s2" using write_file_walk [OF r(6)] assms(3) by auto
  from write_then_read [OF r(6) this] r config_decode show ?thesis by blast
qed

end
