(* ===== verification/Sample_Registry.thy ===== *)
theory Sample_Registry
  imports Pull
begin

text \<open>
  A registry that serves one image of two layers (or an artifact), for concrete runs.  Its documents
  are written by the encoder and so are decoded by the round trip.
\<close>

section \<open>A registry with one image\<close>

definition plain_desc :: "string \<Rightarrow> string \<Rightarrow> descriptor" where
  "plain_desc mt dg = \<lparr>d_media_type = mt, d_digest = dg, d_size = 0, d_platform = None\<rparr>"

definition desc_val :: "string \<Rightarrow> string \<Rightarrow> gval" where
  "desc_val mt dg = VStruct
     [(''mediaType'', VStr mt), (''digest'', VStr dg), (''size'', VInt 0), (''urls'', VNil), (''annotations'', VNil),
      (''data'', VNil), (''platform'', VNil), (''artifactType'', VStr [])]"

definition manifest_val :: "string list \<Rightarrow> gval" where
  "manifest_val mts = VStruct
     [(''schemaVersion'', VInt 2), (''mediaType'', VStr []), (''artifactType'', VStr []),
      (''config'', desc_val [] ''cfg''), (''layers'', VList (map (\<lambda>mt. desc_val mt mt) mts)),
      (''subject'', VNil), (''annotations'', VNil)]"

definition image_val :: gval where
  "image_val = VStruct
     [(''created'', VNil), (''author'', VStr []), (''architecture'', VStr ''amd64''), (''os'', VStr ''linux''),
      (''os.version'', VStr []), (''os.features'', VNil), (''variant'', VStr []),
      (''config'', VStruct
         [(''User'', VStr []), (''ExposedPorts'', VNil), (''Env'', VNil), (''Entrypoint'', VList [VStr ''/bin/app'']),
          (''Cmd'', VNil), (''Volumes'', VNil), (''WorkingDir'', VStr []), (''Labels'', VNil), (''StopSignal'', VStr []),
          (''ArgsEscaped'', VBool False)]),
      (''rootfs'', VStruct [(''type'', VStr ''layers''), (''diff_ids'', VNil)]), (''history'', VNil)]"

definition manifest_text :: "string list \<Rightarrow> string" where
  "manifest_text mts = marshal manifest_shape (manifest_val mts)"

definition image_text :: string where
  "image_text = marshal image_shape image_val"

lemmas oci_shapes = manifest_shape_def descriptor_shape_def platform_fields_def image_shape_def
  image_config_shape_def history_shape_def str_list_def str_map_def

definition ascii :: "string \<Rightarrow> bool" where
  "ascii s = list_all (\<lambda>c. code c < 0x80) s"

lemma ascii_fix: "ascii s \<Longrightarrow> utf8_fix s = s"
  by (rule utf8_fix_ascii) (simp add: ascii_def list_all_iff)

lemma manifest_decodes:
  assumes "list_all ascii mts"
  shows "unmarshal_manifest (manifest_text mts) =
    Inr \<lparr>mf_config = plain_desc [] ''cfg'', mf_layers = map (\<lambda>mt. plain_desc mt mt) mts\<rparr>"
proof -
  have ok: "shape_ok manifest_shape" by code_simp
  have u8: "utf8_fix mt = mt" if "mt \<in> set mts" for mt
    using assms that by (simp add: list_all_iff ascii_fix)
  have "wt descriptor_shape (desc_val mt dg)" if "utf8_fix mt = mt" "utf8_fix dg = dg" for mt dg
    using that by (simp add: oci_shapes desc_val_def vfield_def)
  moreover have "utf8_fix [] = []" "utf8_fix ''cfg'' = ''cfg''" by (simp_all add: ascii_fix ascii_def code_def)
  ultimately have "wt manifest_shape (manifest_val mts)"
    using u8 by (simp add: manifest_shape_def manifest_val_def vfield_def list_all_iff str_map_def)
  from unmarshal_marshal [OF ok this] show ?thesis
    by (simp add: unmarshal_manifest_def decoded_def manifest_text_def manifest_of_def manifest_val_def
        descriptor_of_def desc_val_def plain_desc_def vfield_def o_def)
qed

lemma image_decodes:
  "unmarshal_image image_text =
     Inr \<lparr>ic_user = [], ic_env = [], ic_entrypoint = [''/bin/app''], ic_cmd = [], ic_working_dir = []\<rparr>"
proof -
  have ok: "shape_ok image_shape" by code_simp
  have "utf8_fix ''/bin/app'' = ''/bin/app''" "utf8_fix ''layers'' = ''layers''" "utf8_fix ''amd64'' = ''amd64''"
      "utf8_fix ''linux'' = ''linux''" by (simp_all add: ascii_fix ascii_def code_def)
  then have "wt image_shape image_val"
    by (simp add: oci_shapes image_val_def vfield_def)
  from unmarshal_marshal [OF ok this] show ?thesis
    by (simp add: unmarshal_image_def decoded_def image_text_def image_config_of_def image_val_def vfield_def vstrs_def)
qed

text \<open>
  Everything in it is served by name: the image's manifest under the digest \<open>m\<close>, its configuration
  under \<open>cfg\<close>, and a layer under its media type, as a stream that stands for its entries.
\<close>

definition layer_one :: "tar_item list" where
  "layer_one =
     [TarEntry \<lparr>hName = ''etc/motd'', hLinkname = [], hMode = 0x1A4, hTypeflag = TypeReg, hModTime = 9\<rparr> (''hello'', None),
      TarEntry \<lparr>hName = ''bin/app'', hLinkname = [], hMode = 0x1ED, hTypeflag = TypeReg, hModTime = 9\<rparr> (''v1'', None)]"

definition layer_two :: "tar_item list" where
  "layer_two =
     [TarEntry \<lparr>hName = ''etc/.wh.motd'', hLinkname = [], hMode = 0x1A4, hTypeflag = TypeReg, hModTime = 9\<rparr> ([], None),
      TarEntry \<lparr>hName = ''bin/app'', hLinkname = [], hMode = 0x1ED, hTypeflag = TypeReg, hModTime = 9\<rparr> (''v2'', None)]"

definition layer_link :: "tar_item list" where
  "layer_link =
     [TarEntry \<lparr>hName = ''.weft-microvm'', hLinkname = ''/host'', hMode = 0x1FF, hTypeflag = TypeSymlink, hModTime = 9\<rparr> ([], None)]"

definition layer_cut :: "tar_item list" where
  "layer_cut =
     [TarEntry \<lparr>hName = ''./'', hLinkname = [], hMode = 0x1ED, hTypeflag = TypeDir, hModTime = 9\<rparr> ([], None),
      TarEntry \<lparr>hName = ''bin/app'', hLinkname = [], hMode = 0x1ED, hTypeflag = TypeReg, hModTime = 9\<rparr>
        (''v'', Some (Extern ''unexpected EOF'')),
      TarEntry \<lparr>hName = ''etc/.wh.motd'', hLinkname = [], hMode = 0x1A4, hTypeflag = TypeReg, hModTime = 9\<rparr> ([], None)]"

definition layer_forge :: "tar_item list" where
  "layer_forge =
     [TarEntry \<lparr>hName = ''.weft-microvm/config.json'', hLinkname = [], hMode = 0x1A4, hTypeflag = TypeReg, hModTime = 9\<rparr>
        (''{}'', None)]"

definition sample_decoders :: decoders where
  "sample_decoders =
     \<lparr>gzip_reader = Inr,
      tar_entries = (\<lambda>r. if fst r = ''one'' then layer_one else if fst r = ''two'' then layer_two
        else if fst r = ''link'' then layer_link else if fst r = ''cut'' then layer_cut
        else if fst r = ''forge'' then layer_forge else [])\<rparr>"

definition sample_remote :: "string list \<Rightarrow> remote" where
  "sample_remote mts =
     \<lparr>rm_resolve = (\<lambda>repo tag. if tag = ''3'' then Inr (plain_desc ''manifest'' ''m'') else Inl (Extern ''not found'')),
      rm_fetch = (\<lambda>repo d. Inr (if d_digest d = ''m'' then manifest_text mts
        else if d_digest d = ''cfg'' then image_text else d_digest d, None)),
      rm_decoders = sample_decoders, rm_arch = ''amd64''\<rparr>"

definition sample_repo :: repo where
  "sample_repo =
     \<lparr>repo_ref = \<lparr>rf_registry = ''registry-1.docker.io'', rf_repository = ''library/alpine'', rf_reference = ''3''\<rparr>,
      repo_plain = False\<rparr>"

lemma sample_reference: "new_repository (canonical_ref sample_env ''alpine:3'') = Inr sample_repo"
proof -
  have x: "expand_docker_hub ''alpine:3'' = ''registry-1.docker.io/library/alpine:3''"
      "cut_chr slash ''registry-1.docker.io/library/alpine:3'' = Some (''registry-1.docker.io'', ''library/alpine:3'')"
      "cut_chr CHR ''@'' ''library/alpine:3'' = None"
      "cut_chr CHR '':'' ''library/alpine:3'' = Some (''library/alpine'', ''3'')"
      "split_chr slash ''library/alpine'' = [''library'', ''alpine'']"
      "cut_chr CHR '':'' ''registry-1.docker.io'' = None"
    by code_simp+
  have "trim_space [] = []" by (simp add: trim_space_def)
  then have "mirror_host sample_env = []" by (simp add: mirror_host_def sample_env_def)
  then have c: "canonical_ref sample_env ''alpine:3'' = ''registry-1.docker.io/library/alpine:3''"
    by (simp add: canonical_ref_def x rewrite_for_mirror_def)
  note chars = host_char_def word_char_def alnum_def is_digit_def
  have "registry_ok ''registry-1.docker.io''" by (simp add: registry_ok_def chars port_ok_def)
  moreover have "repository_ok ''library/alpine''"
    by (simp add: repository_ok_def x component_ok_def runs_ok.simps chars)
  moreover have "tag_ok ''3''" by (simp add: tag_ok_def chars)
  ultimately show ?thesis by (simp add: new_repository_def c parse_reference_def x sample_repo_def)
qed

lemma sample_manifest:
  assumes "list_all ascii mts"
  shows "fetch_manifest (sample_remote mts) sample_repo img =
    Inr (manifest_text mts, \<lparr>mf_config = plain_desc [] ''cfg'', mf_layers = map (\<lambda>mt. plain_desc mt mt) mts\<rparr>)"
  using manifest_decodes [OF assms]
  by (simp add: fetch_manifest_def sample_remote_def ref_tag_def sample_repo_def resolve_platform_def
      index_types_def plain_desc_def fetch_all_def)

end
