(* ===== verification/Pull_Refine.thy ===== *)
theory Pull_Refine
  imports Pull_Correct Sample_Registry
begin

text \<open>
  \<open>Pull\<close> as a function on trees: the directory of the image, its manifest, the layers one after the
  other, its configuration, and the file for the guest.  On a file system with one name per file, as
  superuser, and with a registry that serves the image, the program computes that function.
\<close>

section \<open>The specification\<close>

definition spec_mkdirs :: "path \<Rightarrow> tree \<Rightarrow> tree option" where
  "spec_mkdirs p t = (if spec_clear t p then Some (spec_dirs p t) else None)"

definition spec_write :: "path \<Rightarrow> string \<Rightarrow> tree \<Rightarrow> tree option" where
  "spec_write p b t =
     (if p \<noteq> [] \<and> spec_clear t (butlast p) \<and> t (butlast p) = Some ADir
         \<and> (case t p of None \<Rightarrow> True | Some (AFile _) \<Rightarrow> True | _ \<Rightarrow> False)
      then Some (t(p \<mapsto> AFile b)) else None)"

fun spec_layers :: "path \<Rightarrow> tar_item list list \<Rightarrow> tree \<Rightarrow> tree option" where
  "spec_layers D [] t = Some t"
| "spec_layers D (l # ls) t = Option.bind (spec_stream D l t) (spec_layers D ls)"

definition spec_pull :: "path \<Rightarrow> string \<Rightarrow> string \<Rightarrow> tar_item list list \<Rightarrow> string \<Rightarrow> string \<Rightarrow> tree \<Rightarrow> tree option" where
  "spec_pull D img mb ls cb out t =
     Option.bind (spec_mkdirs (rootfs_dir D img) t) (\<lambda>t.
     Option.bind (spec_write (root_dir D img @ [''manifest.json'']) mb t) (\<lambda>t.
     Option.bind (spec_layers (rootfs_dir D img) ls t) (\<lambda>t.
     Option.bind (spec_write (root_dir D img @ [''config.json'']) cb t) (\<lambda>t.
     Option.bind (spec_mkdirs (rootfs_dir D img @ [''.weft-microvm'']) t) (\<lambda>t.
     spec_write (sentinel_file D img) out t)))))"

text \<open>What the registry has to serve: the manifest, every layer as a tar stream, the configuration.\<close>

definition layer_items :: "remote \<Rightarrow> repo \<Rightarrow> descriptor \<Rightarrow> tar_item list option" where
  "layer_items rm repo layer =
     (case rm_fetch rm repo layer of
        Inl _ \<Rightarrow> None
      | Inr rc \<Rightarrow> (case gzip_reader (rm_decoders rm) rc of
          Inl _ \<Rightarrow> None | Inr gz \<Rightarrow> Some (tar_entries (rm_decoders rm) gz)))"

definition serves :: "remote \<Rightarrow> repo \<Rightarrow> string \<Rightarrow> string \<Rightarrow> tar_item list list \<Rightarrow> string \<Rightarrow> process_spec \<Rightarrow> bool" where
  "serves rm repo img mb ls cb proc \<longleftrightarrow>
     (\<exists>mf ic. fetch_manifest rm repo img = Inr (mb, mf)
       \<and> map (layer_items rm repo) (mf_layers mf) = map Some ls
       \<and> fetch_all rm repo (mf_config mf) = Inr cb \<and> unmarshal_image cb = Inr ic
       \<and> process_from_image_config ic = (proc, None))"

section \<open>The steps\<close>

lemma mkdirs_refines:
  assumes "ready s" and "plains p" and "spec_mkdirs p (view s) = Some t"
  shows "\<exists>s'. os_mkdir_all (abs_path p) mode s = (Inr (), s') \<and> ready s' \<and> view s' = t"
proof -
  have "clear_to s p" "t = spec_dirs p (view s)"
    using assms(3) by (auto simp: spec_mkdirs_def split: if_splits)
  with mkdir_all_view [OF assms(1,2), of mode] show ?thesis by metis
qed

lemma write_refines:
  assumes "ready s" and "plains p" and "spec_write p b (view s) = Some t"
  shows "\<exists>s'. os_write_file (abs_path p) b mode s = (Inr (), s') \<and> ready s' \<and> view s' = t"
proof -
  have p: "p \<noteq> []" "is_dir_at s (butlast p)" and t: "t = (view s)(p \<mapsto> AFile b)"
    and free: "node_at s p = None \<or> (\<exists>i. node_at s p = Some (File i))"
    using assms(3) by (auto simp: spec_write_def view_def is_dir_at_def split: if_splits option.splits node.splits)
  have "writable_at s p"
    using assms(1,2) p free parents_open [OF assms(1,2) p] readyD(1) [OF assms(1)]
    by (auto simp: writable_at_def allowed_def)
  from write_file_run [OF this] show ?thesis
    using ready_put_file [OF assms(1,2) p free] view_put_file [OF assms(1) free] t by simp
qed

lemma layers_refine:
  assumes "plains D" and "D \<noteq> []" and "ready s"
    and "map (layer_items rm repo) layers = map Some ls" and "spec_layers D ls (view s) = Some t"
  shows "\<exists>s'. pull_layers rm repo (abs_path D) i layers s = (Inr (), s') \<and> ready s' \<and> view s' = t"
  using assms(3-)
proof (induction layers arbitrary: s ls i)
  case Nil
  then show ?case by (simp add: io_run)
next
  case (Cons layer layers)
  then obtain l ls' where ls: "ls = l # ls'" "layer_items rm repo layer = Some l"
      "map (layer_items rm repo) layers = map Some ls'" by (cases ls) auto
  then obtain rc gz where f: "rm_fetch rm repo layer = Inr rc" "gzip_reader (rm_decoders rm) rc = Inr gz"
      "l = tar_entries (rm_decoders rm) gz" by (auto simp: layer_items_def split: sum.splits)
  from Cons.prems(3) ls obtain u where u: "spec_stream D l (view s) = Some u" "spec_layers D ls' u = Some t"
    by (auto simp: bind_eq_Some_conv)
  obtain s1 where s1: "extract_tar l (abs_path D) s = (Inr (), s1)" "ready s1" "view s1 = u"
    using stream_refines [OF assms(1,2) Cons.prems(1) u(1)] by blast
  then have "pull_and_extract_layer rm repo layer (abs_path D) s = (Inr (), s1)"
    using f by (simp add: pull_and_extract_layer_def extract_layer_def io_defs)
  with Cons.IH [OF s1(2) ls(3), of "Suc i"] u(2) s1(3) show ?case
    by (simp add: io_bind_def io_wrap_def)
qed

lemma process_run: "process_from_image_config ic = (proc, None) \<Longrightarrow>
  process_from_image_config_with_rootfs ic rootfs s = (Inr proc, s)"
  by (simp add: process_from_image_config_with_rootfs_def io_run)

lemma pull_fresh_refines:
  assumes c: "cache_at env D img" and "ready s" and sv: "serves rm repo img mb ls cb proc"
    and "spec_pull D img mb ls cb (marshal_config proc) (view s) = Some t"
  shows "\<exists>s'. pull_fresh rm repo img (abs_path (root_dir D img)) (abs_path (rootfs_dir D img)) s = (Inr (), s')
    \<and> ready s' \<and> view s' = t"
proof -
  let ?R = "root_dir D img" and ?F = "rootfs_dir D img"
  note p = cache_plains [OF c]
  have pl: "plains (?R @ [''manifest.json''])" "plains (?R @ [''config.json''])" "plains (?F @ [''.weft-microvm''])"
      "plains (sentinel_file D img)" "?F \<noteq> []"
    using p by (simp_all add: plain_names sentinel_file_def) (simp add: rootfs_dir_def)
  from sv obtain mf ic where mf: "fetch_manifest rm repo img = Inr (mb, mf)"
      "map (layer_items rm repo) (mf_layers mf) = map Some ls" "fetch_all rm repo (mf_config mf) = Inr cb"
      "unmarshal_image cb = Inr ic" "process_from_image_config ic = (proc, None)"
    by (auto simp: serves_def)
  from assms(4) obtain t1 t2 t3 t4 t5 where t: "spec_mkdirs ?F (view s) = Some t1"
      "spec_write (?R @ [''manifest.json'']) mb t1 = Some t2" "spec_layers ?F ls t2 = Some t3"
      "spec_write (?R @ [''config.json'']) cb t3 = Some t4" "spec_mkdirs (?F @ [''.weft-microvm'']) t4 = Some t5"
      "spec_write (sentinel_file D img) (marshal_config proc) t5 = Some t"
    by (auto simp: spec_pull_def bind_eq_Some_conv)
  obtain s1 where s1: "os_mkdir_all (abs_path ?F) 0x1ED s = (Inr (), s1)" "ready s1" "view s1 = t1"
    using mkdirs_refines [OF assms(2) p(2) t(1)] by blast
  obtain s2 where s2: "os_write_file (abs_path (?R @ [''manifest.json''])) mb 0x1A4 s1 = (Inr (), s2)" "ready s2" "view s2 = t2"
    using write_refines [OF s1(2) pl(1)] t(2) s1(3) by blast
  obtain s3 where s3: "pull_layers rm repo (abs_path ?F) 0 (mf_layers mf) s2 = (Inr (), s3)" "ready s3" "view s3 = t3"
    using layers_refine [OF p(2) pl(5) s2(2) mf(2)] t(3) s2(3) by blast
  obtain s4 where s4: "os_write_file (abs_path (?R @ [''config.json''])) cb 0x1A4 s3 = (Inr (), s4)" "ready s4" "view s4 = t4"
    using write_refines [OF s3(2) pl(2)] t(4) s3(3) by blast
  obtain s5 where s5: "os_mkdir_all (abs_path (?F @ [''.weft-microvm''])) 0x1ED s4 = (Inr (), s5)" "ready s5" "view s5 = t5"
    using mkdirs_refines [OF s4(2) pl(3)] t(5) s4(3) by blast
  obtain s6 where s6: "os_write_file (abs_path (sentinel_file D img)) (marshal_config proc) 0x1A4 s5 = (Inr (), s6)"
      "ready s6" "view s6 = t"
    using write_refines [OF s5(2) pl(4)] t(6) s5(3) by blast
  have "write_process rm repo (abs_path ?R) (abs_path ?F) (mf_config mf) s3 = (Inr (), s6)"
    unfolding write_process_def Let_def cache_places(4,5,7) [OF c]
    by (simp add: io_defs mf s4 s5 s6 process_run [OF mf(5)])
  then have "pull_fresh rm repo img (abs_path ?R) (abs_path ?F) s = (Inr (), s6)"
    unfolding pull_fresh_def cache_places(6) [OF c]
    by (simp add: io_defs mf s1 s2 s3)
  with s6 show ?thesis by blast
qed

text \<open>The image is not there: nothing on the way to its sentinel but directories, and no sentinel.\<close>

definition not_pulled :: "path \<Rightarrow> string \<Rightarrow> tree \<Rightarrow> bool" where
  "not_pulled D img t = (spec_clear t (sentinel_file D img) \<and> t (sentinel_file D img) = None)"

lemma not_pulled_stat:
  assumes "cache_at env D img" and "not_pulled D img (view s)"
  shows "\<exists>e. fst (os_stat (abs_path (sentinel_file D img)) s) = Inl e"
proof -
  have "plains (sentinel_file D img)"
    using cache_plains(2) [OF assms(1)] by (simp add: sentinel_file_def plain_names)
  moreover have "clear_to s (sentinel_file D img)" "node_at s (sentinel_file D img) = None"
    using assms(2) by (simp_all add: not_pulled_def)
  ultimately obtain e where "os_stat (abs_path (sentinel_file D img)) s = (Inl e, s)"
    using stat_missing clear_to_avoids by metis
  then show ?thesis by simp
qed

lemma pull_runs:
  assumes "cache_at env D img" and "ready s" and "new_repository (canonical_ref env img) = Inr repo"
    and "not_pulled D img (view s)" and "serves rm repo img mb ls cb proc"
    and "spec_pull D img mb ls cb (marshal_config proc) (view s) = Some t"
  shows "\<exists>s'. pull_image rm env img s = (Inr (), s') \<and> ready s' \<and> view s' = t"
  using pull_fresh_refines [OF assms(1,2,5,6)] not_pulled_stat [OF assms(1,4)] assms(3)
  by (auto simp: pull_image_at [OF assms(1)])

text \<open>
  C2. Pull does what its parts describe: for an image that is not there yet, a registry that serves it
  and a reference that is valid, it succeeds, and the tree afterwards is the one before with the
  image's directory, its manifest, its layers in order, its configuration and the file for the guest.
\<close>

theorem pull_refines:
  assumes "cache_at env D img" and "ready s" and "new_repository (canonical_ref env img) = Inr repo"
    and "not_pulled D img (view s)" and "serves rm repo img mb ls cb proc"
    and "spec_pull D img mb ls cb (marshal_config proc) (view s) = Some t"
  shows "\<exists>s'. pull_image rm env img s = (Inr (), s') \<and> ready s' \<and> view s' = t"
  by (rule pull_runs [OF assms])

lemma failed_pull:
  assumes "cache_at env D img" and "ready s" and "new_repository (canonical_ref env img) = Inr repo"
    and "not_pulled D img (view s)" and "fetch_manifest rm repo img = Inl err"
  shows "\<exists>s'. pull_image rm env img s = (Inl err, s') \<and> ready s' \<and> view s' = spec_dirs (rootfs_dir D img) (view s)
    \<and> is_dir_at s' (rootfs_dir D img)"
proof -
  have clear: "clear_to s (rootfs_dir D img)"
    using assms(4) by (auto simp: not_pulled_def clear_to_iff sentinel_file_def)
  obtain s1 where s1: "os_mkdir_all (abs_path (rootfs_dir D img)) 0x1ED s = (Inr (), s1)" "ready s1"
      "view s1 = spec_dirs (rootfs_dir D img) (view s)"
    using mkdir_all_view [OF assms(2) cache_plains(2) [OF assms(1)] clear] by blast
  have "view s1 (rootfs_dir D img) = Some ADir"
    using clear s1(3) by (auto simp: spec_dirs_def clear_to_iff)
  then have "is_dir_at s1 (rootfs_dir D img)" by (simp only: view_ADir)
  moreover have "pull_fresh rm repo img (abs_path (root_dir D img)) (abs_path (rootfs_dir D img)) s = (Inl err, s1)"
    by (simp add: pull_fresh_def io_defs s1 assms(5))
  ultimately show ?thesis
    using s1(2,3) not_pulled_stat [OF assms(1,4)] assms(3) by (auto simp: pull_image_at [OF assms(1)])
qed

text \<open>
  A pull that fails at the registry leaves an empty root file system behind: the error is
  returned, and of all that was done only the directories remain, among them the root file system,
  which is what later runs take as the sign that the image has been pulled.
\<close>

theorem failed_pull_leaves_rootfs:
  assumes "cache_at env D img" and "ready s" and "new_repository (canonical_ref env img) = Inr repo"
    and "not_pulled D img (view s)" and "fetch_manifest rm repo img = Inl err"
  shows "\<exists>s'. pull_image rm env img s = (Inl err, s') \<and> view s' = spec_dirs (rootfs_dir D img) (view s)
    \<and> is_dir_at s' (rootfs_dir D img)"
  using failed_pull [OF assms] by blast

section \<open>A concrete pull\<close>

text \<open>Looking up a path once per operation, for evaluation.\<close>

lemma spec_dirs_code [code]:
  "spec_dirs p t q = (case t q of None \<Rightarrow> if prefix q p then Some ADir else None | Some x \<Rightarrow> Some x)"
  by (simp add: spec_dirs_def split: option.split)

lemma spec_clear_code [code]:
  "spec_clear t p = list_all (\<lambda>k. case t (take k p) of None \<Rightarrow> True | Some x \<Rightarrow> x = ADir) [0 ..< Suc (length p)]"
proof -
  have "(\<lambda>k. t (take k p) = None \<or> t (take k p) = Some ADir) =
      (\<lambda>k. case t (take k p) of None \<Rightarrow> True | Some x \<Rightarrow> x = ADir)"
    by (auto simp: fun_eq_iff split: option.split)
  then show ?thesis by (simp only: spec_clear_def)
qed

abbreviation sample_layers :: "string list" where
  "sample_layers \<equiv> [''one'', ''two'']"

definition sample_proc :: process_spec where
  "sample_proc =
     \<lparr>ps_args = [''/bin/app''], ps_env = [''PATH=/usr/local/sbin:/usr/local/bin:/usr/sbin:/usr/bin:/sbin:/bin''],
      ps_cwd = ''/'', ps_uid = 0, ps_gid = 0\<rparr>"

lemma sample_cache: "cache_at sample_env [''d''] ''alpine:3''"
  by code_simp

lemma sample_deep_ready: "ready sample_deep"
  by (rule ready_check_ready) code_simp

lemma sample_layers_ascii: "list_all ascii sample_layers"
  by (simp add: ascii_def code_def)

lemma sample_serves:
  "serves (sample_remote sample_layers) sample_repo ''alpine:3'' (manifest_text sample_layers) [layer_one, layer_two] image_text sample_proc"
proof -
  have items: "map (layer_items (sample_remote sample_layers) sample_repo) (map (\<lambda>mt. plain_desc mt mt) sample_layers) =
      map Some [layer_one, layer_two]"
    by (simp add: layer_items_def sample_remote_def sample_decoders_def plain_desc_def)
  have cfg: "fetch_all (sample_remote sample_layers) sample_repo (plain_desc [] ''cfg'') = Inr image_text"
    by (simp add: fetch_all_def sample_remote_def plain_desc_def)
  have proc: "process_from_image_config
      \<lparr>ic_user = [], ic_env = [], ic_entrypoint = [''/bin/app''], ic_cmd = [], ic_working_dir = []\<rparr> = (sample_proc, None)"
    by (simp add: process_from_image_config_def sample_proc_def)
  show ?thesis
    unfolding serves_def
    by (intro exI conjI, rule sample_manifest [OF sample_layers_ascii], simp only: manifest.simps items,
        simp only: manifest.simps cfg, rule image_decodes, rule proc)
qed

lemma sample_spec:
  "\<exists>t. spec_pull [''d''] ''alpine:3'' mb [layer_one, layer_two] cb out (view sample_deep) = Some t
     \<and> t (rootfs_dir [''d''] ''alpine:3'' @ [''bin'', ''app'']) = Some (AFile ''v2'')
     \<and> t (rootfs_dir [''d''] ''alpine:3'' @ [''etc'', ''motd'']) = None
     \<and> t (sentinel_file [''d''] ''alpine:3'') = Some (AFile out)"
proof -
  let ?t = "the (spec_pull [''d''] ''alpine:3'' mb [layer_one, layer_two] cb out (view sample_deep))"
  have "spec_pull [''d''] ''alpine:3'' mb [layer_one, layer_two] cb out (view sample_deep) \<noteq> None"
      "?t (rootfs_dir [''d''] ''alpine:3'' @ [''bin'', ''app'']) = Some (AFile ''v2'')"
      "?t (rootfs_dir [''d''] ''alpine:3'' @ [''etc'', ''motd'']) = None"
      "?t (sentinel_file [''d''] ''alpine:3'') = Some (AFile out)"
    by code_simp+
  then show ?thesis by (metis option.collapse)
qed

lemma sample_not_pulled: "not_pulled [''d''] ''alpine:3'' (view sample_deep)"
  by code_simp

theorem pull_refines_witness:
  "\<exists>s'. pull_image (sample_remote sample_layers) sample_env ''alpine:3'' sample_deep = (Inr (), s')
    \<and> view s' (rootfs_dir [''d''] ''alpine:3'' @ [''bin'', ''app'']) = Some (AFile ''v2'')
    \<and> view s' (rootfs_dir [''d''] ''alpine:3'' @ [''etc'', ''motd'']) = None
    \<and> view s' (sentinel_file [''d''] ''alpine:3'') = Some (AFile (marshal_config sample_proc))"
  using pull_refines [OF sample_cache sample_deep_ready sample_reference sample_not_pulled sample_serves]
    sample_spec [of "manifest_text sample_layers" image_text "marshal_config sample_proc"]
  by metis

definition broken_remote :: remote where
  "broken_remote = (sample_remote [])\<lparr>rm_resolve := (\<lambda>repo tag. Inl (Extern ''connection refused''))\<rparr>"

lemma sample_broken:
  "fetch_manifest broken_remote sample_repo ''alpine:3'' =
     Inl (Wrapf ''resolve %s: %w'' [''alpine:3''] (Extern ''connection refused''))"
  by (simp add: fetch_manifest_def broken_remote_def)

theorem failed_pull_leaves_rootfs_witness:
  "\<exists>s'. pull_image broken_remote sample_env ''alpine:3'' sample_deep =
      (Inl (Wrapf ''resolve %s: %w'' [''alpine:3''] (Extern ''connection refused'')), s')
    \<and> is_dir_at s' (rootfs_dir [''d''] ''alpine:3'')"
  using failed_pull_leaves_rootfs [OF sample_cache sample_deep_ready sample_reference sample_not_pulled sample_broken]
  by blast

text \<open>The run above, for the properties of what success leaves.\<close>

lemma sample_pull:
  obtains s' where "pull_image (sample_remote sample_layers) sample_env ''alpine:3'' sample_deep = (Inr (), s')"
    and "ready s'"
proof -
  obtain t where t: "spec_pull [''d''] ''alpine:3'' (manifest_text sample_layers) [layer_one, layer_two] image_text
      (marshal_config sample_proc) (view sample_deep) = Some t"
    using sample_spec by blast
  obtain e where "fst (os_stat (abs_path (sentinel_file [''d''] ''alpine:3'')) sample_deep) = Inl e"
    using not_pulled_stat [OF sample_cache sample_not_pulled] by blast
  with pull_fresh_refines [OF sample_cache sample_deep_ready sample_serves t] that show ?thesis
    by (auto simp: pull_image_at [OF sample_cache] sample_reference)
qed

theorem pull_once_witness:
  "\<exists>s'. pull_image (sample_remote sample_layers) sample_env ''alpine:3'' sample_deep = (Inr (), s')
    \<and> pull_image broken_remote sample_env ''alpine:3'' s' = (Inr (), s')"
proof -
  obtain s' where "pull_image (sample_remote sample_layers) sample_env ''alpine:3'' sample_deep = (Inr (), s')"
    using sample_pull .
  with pull_once [OF sample_cache this] show ?thesis by blast
qed

theorem pull_leaves_process_witness:
  "\<exists>s' proc. pull_image (sample_remote sample_layers) sample_env ''alpine:3'' sample_deep = (Inr (), s')
    \<and> os_read_file (abs_path (sentinel_file [''d''] ''alpine:3'')) s' = (Inr (marshal_config proc), s')"
proof -
  obtain s' where s': "pull_image (sample_remote sample_layers) sample_env ''alpine:3'' sample_deep = (Inr (), s')" "ready s'"
    using sample_pull .
  obtain e where "fst (os_stat (abs_path (sentinel_file [''d''] ''alpine:3'')) sample_deep) = Inl e"
    using not_pulled_stat [OF sample_cache sample_not_pulled] by blast
  with pull_leaves_process [OF sample_cache s'(1) readyD(1) [OF s'(2)]] s' show ?thesis by blast
qed

end
