(* ===== verification/Posix_Way.thy ===== *)
theory Posix_Way
  imports Posix_Frame
begin

text \<open>
  The way to a directory.  Whatever the permissions, \<open>MkdirAll\<close> on a path without symbolic links adds
  directories on that path and nothing else; when it succeeds the whole path is made of directories.
\<close>

section \<open>What a path that resolves goes through\<close>

lemma resolve_above:
  assumes "links s \<subseteq> L" and "avoids L fl (cur @ cs)" and "plains cs"
    and "resolve s fl n cur cs = Inr pl" and "strict_prefix r cs"
  shows "is_dir_at s (cur @ r)"
  using assms
proof (induction cs arbitrary: cur r)
  case (Cons c cs)
  have "plain c" and cs: "plains cs" using Cons.prems(3) by simp_all
  then have c: "c \<noteq> []" "c \<noteq> ''.''" "c \<noteq> ''..''" "plains cs" by (simp_all add: plain_def)
  obtain m where m: "node_at s cur = Some (Dir m)" using resolve_step [OF Cons.prems(4)] .
  show ?case
  proof (cases r)
    case Nil
    with m show ?thesis by (simp add: is_dir_at_node)
  next
    case (Cons c' r')
    with Cons.prems(5) have r: "r = c # r'" "strict_prefix r' cs" by (auto simp: strict_prefix_def)
    then have "cs \<noteq> []" by auto
    with Cons.prems(4) c m have x: "resolve s fl n (cur @ [c]) cs = Inr pl"
      if "\<nexists>t. node_at s (cur @ [c]) = Some (Symlink t)"
      using that by (auto split: option.splits node.splits if_splits)
    have "\<nexists>t. node_at s (cur @ [c]) = Some (Symlink t)"
    proof (intro notI, elim exE)
      fix t assume "node_at s (cur @ [c]) = Some (Symlink t)"
      then have "cur @ [c] \<in> L" using Cons.prems(1) by (auto simp: links_def)
      moreover have "prefix (cur @ [c]) (cur @ c # cs)" by (simp add: prefix_def)
      ultimately have "cur @ [c] = cur @ c # cs" using Cons.prems(2) unfolding avoids_def by blast
      with \<open>cs \<noteq> []\<close> show False by simp
    qed
    from Cons.IH [of "cur @ [c]" r', OF Cons.prems(1) _ c(4) x [OF this] r(2)] Cons.prems(2) r(1) show ?thesis
      by simp
  qed
qed simp

lemma walk_above:
  assumes "plains p" and "links s \<subseteq> L" and "avoids L fl p" and "walk s fl (abs_path p) = Inr pl"
    and "strict_prefix q p"
  shows "is_dir_at s q"
proof -
  have "p \<noteq> []" using assms(5) by auto
  then have "resolve s fl max_links [] ([] # p) = Inr pl"
    using assms(4) by (simp add: walk_def path_simps assms(1))
  then have "resolve s fl max_links [] p = Inr pl"
    by (auto dest!: resolve_skip simp del: resolve.simps)
  from resolve_above [OF assms(2) _ assms(1) this assms(5)] assms(3) show ?thesis by simp
qed

lemma walk_dirs:
  assumes "plains p" and "links s \<subseteq> L" and "avoids L fl p"
    and "walk s fl (abs_path p) = Inr (At q (Dir m))"
  shows "dirs_to p s"
proof -
  have "node_at s p = Some (Dir m)" using walk_avoids_At [OF assms] by simp
  moreover have "is_dir_at s r" if "strict_prefix r p" for r
    using walk_above [OF assms that] .
  ultimately show ?thesis by (auto simp: dirs_to_def is_dir_at_node strict_prefix_def)
qed

section \<open>Growing by directories\<close>

definition grown :: "path \<Rightarrow> fs \<Rightarrow> fs \<Rightarrow> bool" where
  "grown p s s' \<longleftrightarrow>
     (\<forall>q. node_at s' q = node_at s q \<or> node_at s q = None \<and> prefix q p \<and> is_dir_at s' q)
     \<and> (\<exists>ns. s' = s\<lparr>fs_nodes := ns\<rparr>)"

lemma grown_refl: "grown p s s"
  unfolding grown_def by (intro conjI exI [where x = "fs_nodes s"]) simp_all

lemma grownD:
  assumes "grown p s s'"
  shows "node_at s' q = node_at s q \<or> node_at s q = None \<and> prefix q p \<and> is_dir_at s' q"
    and "fs_inodes s' = fs_inodes s" and "fs_next s' = fs_next s"
  using assms by (auto simp: grown_def)

lemma grown_File: "grown p s s' \<Longrightarrow> node_at s' q = Some (File i) \<longleftrightarrow> node_at s q = Some (File i)"
  using grownD(1) [of p s s' q] by (auto simp: is_dir_at_node)

lemma grown_links: "grown p s s' \<Longrightarrow> links s' = links s"
  unfolding links_def
proof (intro Collect_cong)
  fix q assume "grown p s s'"
  from grownD(1) [OF this, of q] show "(\<exists>t. node_at s' q = Some (Symlink t)) = (\<exists>t. node_at s q = Some (Symlink t))"
    by (elim disjE conjE) (simp, force simp: is_dir_at_node)
qed

lemma grown_dir:
  assumes g: "grown p s0 s" and "prefix q p" and "node_at s q = None"
  shows "grown p s0 (set_node q (Dir m) s)"
proof -
  have "node_at s0 q = None" using grownD(1) [OF g, of q] assms(3) by auto
  moreover obtain ns where "s = s0\<lparr>fs_nodes := ns\<rparr>" using g by (auto simp: grown_def)
  then have "\<exists>ns. set_node q (Dir m) s = s0\<lparr>fs_nodes := ns\<rparr>" by (auto simp: set_node_def)
  ultimately show ?thesis
    using grownD(1) [OF g] assms(2) by (auto simp: grown_def fs_simps is_dir_at_def)
qed

lemma grown_sane:
  assumes "grown p s s'" and "plains p" and "sane s"
  shows "sane s'"
proof -
  have "plains q" if "node_at s' q \<noteq> None" for q
    using grownD(1) [OF assms(1), of q] that assms(2,3) by (auto simp: sane_def prefix_def)
  with assms(3) show ?thesis
    unfolding sane_def grown_File [OF assms(1)] grownD(3) [OF assms(1)] by blast
qed

section \<open>The call\<close>

definition looks_dir :: "(fs, node) io \<Rightarrow> path \<Rightarrow> path \<Rightarrow> fs \<Rightarrow> bool" where
  "looks_dir m P q s0 \<longleftrightarrow> triple (grown P s0) m (\<lambda>nd s. grown P s0 s \<and> (\<forall>x. nd = Dir x \<longrightarrow> dirs_to q s)) (\<lambda>_. grown P s0)"

lemma stat_grown:
  assumes "plains q" and "links s0 \<subseteq> L" and "avoids L True q"
  shows "looks_dir (os_stat (abs_path q)) P q s0" and "looks_dir (os_lstat (abs_path q)) P q s0"
  using walk_dirs [OF assms(1) _ assms(3)] walk_dirs [OF assms(1) _ avoids_weaken [OF assms(3)], of _ False] assms(2)
  by (auto simp: looks_dir_def triple_def os_stat_def os_lstat_def grown_links split: sum.splits place.splits)

lemma mkdir_grown:
  assumes q: "plains q" "prefix q P" and L: "links s0 \<subseteq> L" "avoids L False q"
  shows "triple (grown P s0) (os_mkdir (abs_path q) mode) (\<lambda>_ s. grown P s0 s \<and> dirs_to q s) (\<lambda>_. grown P s0)"
  unfolding triple_def
proof (intro allI impI)
  fix s assume g: "grown P s0 s"
  then have lk: "links s \<subseteq> L" using L(1) by (simp add: grown_links)
  show "case os_mkdir (abs_path q) mode s of
      (Inl e, s') \<Rightarrow> grown P s0 s' | (Inr x, s') \<Rightarrow> grown P s0 s' \<and> dirs_to q s'"
  proof (cases "\<exists>r. walk s False (abs_path q) = Inr (Absent r) \<and> may_edit s r")
    case False
    with g show ?thesis by (auto simp: os_mkdir_def split: sum.splits place.splits)
  next
    case True
    then obtain r where r: "walk s False (abs_path q) = Inr (Absent r)" "may_edit s r" by blast
    then have at: "r = q" "node_at s q = None" using walk_avoids_Absent [OF q(1) lk L(2)] by simp_all
    let ?s' = "set_node q (Dir (created_mode s mode)) s"
    have "dirs_to q ?s'"
      using walk_above [OF q(1) lk L(2) r(1)] by (auto simp: dirs_to_def is_dir_at_def fs_simps strict_prefix_def)
    with r at grown_dir [OF g q(2) at(2)] show ?thesis by (simp add: os_mkdir_def)
  qed
qed

lemma mkdir_all_rev_grown:
  assumes L: "links s0 \<subseteq> L" "avoids L True P"
  shows "plains (rev cs) \<Longrightarrow> prefix (rev cs) P \<Longrightarrow>
    triple (grown P s0) (mkdir_all_rev True cs mode)
      (\<lambda>_ s. grown P s0 s \<and> (cs \<noteq> [] \<longrightarrow> dirs_to (rev cs) s)) (\<lambda>_. grown P s0)"
proof (induction cs)
  case Nil
  have "keeps (grown P s0) (os_stat (build_path True []))" by (rule keepsI) (simp add: reads_only)
  then show ?case by (auto intro!: triple_bind triple_return)
next
  case (Cons c cs)
  let ?q = "rev (c # cs)" and ?G = "grown P s0"
  have pre: "prefix (rev cs) P" "plains (rev cs)"
    using Cons.prems by (auto dest: append_prefixD)
  have av: "avoids L True ?q"
    unfolding avoids_def
  proof (intro ballI impI)
    fix q assume q: "q \<in> L" "prefix q ?q"
    with L(2) prefix_order.trans [OF q(2) Cons.prems(2)] show "\<not> True \<and> q = ?q"
      by (simp add: avoids_def)
  qed
  note look = stat_grown [OF Cons.prems(1) L(1) av, of P, unfolded looks_dir_def]
  note mk = mkdir_grown [OF Cons.prems L(1) avoids_weaken [OF av]]
  have rec: "keeps ?G (mkdir_all_rev True cs mode)"
    using Cons.IH [OF pre(2,1)] by (rule triple_weaken) auto
  have last: "triple ?G (io_bind (io_try (os_mkdir (abs_path ?q) mode)) (\<lambda>r. case r of
        Inr _ \<Rightarrow> io_return ()
      | Inl e \<Rightarrow> io_bind (io_try (os_lstat (abs_path ?q))) (\<lambda>l. case l of
          Inr (Dir _) \<Rightarrow> io_return ()
        | _ \<Rightarrow> io_throw e))) (\<lambda>_ s. ?G s \<and> (c # cs \<noteq> [] \<longrightarrow> dirs_to ?q s)) (\<lambda>_. ?G)"
  proof (rule triple_bind [OF triple_try [OF mk]], goal_cases)
    case (1 r)
    show ?case
    proof (cases r)
      case (Inl e)
      show ?thesis
        unfolding Inl sum.case
        by (rule triple_bind [OF triple_try [OF look(2)]])
          (auto intro!: triple_throw triple_return simp del: rev.simps split: sum.splits node.splits)
    qed (auto intro!: triple_return simp del: rev.simps)
  qed
  show ?case
    unfolding mkdir_all_rev.simps Let_def build_path_def if_True
  proof (rule triple_bind [OF triple_try [OF look(1)]], goal_cases)
    case (1 r)
    show ?case
    proof (cases r)
      case (Inl e)
      show ?thesis
        unfolding Inl sum.case
        by (rule triple_bind [OF rec last])
    next
      case (Inr nd)
      then show ?thesis
        by (cases nd) (auto intro!: triple_throw triple_return simp del: rev.simps)
    qed
  qed
qed

lemma mkdir_all_grown:
  assumes "links s \<subseteq> L" and "avoids L True p" and "plains p" and "p \<noteq> []"
  shows "triple (grown p s) (os_mkdir_all (abs_path p) mode) (\<lambda>_ s'. grown p s s' \<and> dirs_to p s') (\<lambda>_. grown p s)"
  using mkdir_all_rev_grown [OF assms(1,2), of "rev p" mode] assms(3,4) by (simp add: mkdir_all_abs)

end
