(* ===== verification/Pull_Safe.thy ===== *)
theory Pull_Safe
  imports Pull_Refine Posix_Way
begin

text \<open>
  Where \<open>Pull\<close> writes: the confinement of extraction carried through the whole operation, over every
  layer and the three files, on success and on every error; and the layer that shows why its condition
  on links also has to speak of the place of the guest configuration.
\<close>

section \<open>Layers that stay below the image directory\<close>

text \<open>
  The layers one after another, each over the links those before it may have left.  The sentinel is
  written after the last layer, through the root file system the layers have made.
\<close>

fun layers_ok :: "remote \<Rightarrow> repo \<Rightarrow> path \<Rightarrow> path list \<Rightarrow> descriptor list \<Rightarrow> bool" where
  "layers_ok rm repo R L [] = avoids (set L) True (R @ [''.weft-microvm'', ''config.json''])"
| "layers_ok rm repo R L (layer # layers) =
     (case layer_items rm repo layer of
        None \<Rightarrow> True
      | Some items \<Rightarrow> stream_ok R L items \<and> layers_ok rm repo R (stream_links R L items) layers)"

lemma stream_links_below:
  assumes "set M \<subseteq> set L \<union> {p. prefix R p}"
  shows "set (stream_links R M items) \<subseteq> set L \<union> {p. prefix R p}"
  using assms
proof (induction items arbitrary: M)
  case (Cons item items)
  show ?case
  proof (cases item)
    case (TarEntry hdr tr)
    have "set (entry_links R M hdr) \<subseteq> set L \<union> {p. prefix R p}"
      using entry_links_bound [of R M hdr] Cons.prems by auto
    with Cons.IH TarEntry show ?thesis by simp
  qed (use Cons.prems in simp)
qed simp

lemma confined_layer:
  assumes R: "plains R" "prefix C R" and ok: "\<And>items. layer_items rm repo layer = Some items \<Longrightarrow> stream_ok R L items"
  shows "triple (confined C (set L) s0) (pull_and_extract_layer rm repo layer (abs_path R))
    (\<lambda>_ s. \<exists>items. layer_items rm repo layer = Some items \<and> confined C (set (stream_links R L items)) s0 s)
    (\<lambda>_. same_outside C s0)"
  unfolding triple_def
proof (intro allI impI)
  fix s assume c: "confined C (set L) s0 s"
  show "case pull_and_extract_layer rm repo layer (abs_path R) s of
      (Inl e, s') \<Rightarrow> same_outside C s0 s'
    | (Inr x, s') \<Rightarrow> \<exists>items. layer_items rm repo layer = Some items \<and> confined C (set (stream_links R L items)) s0 s'"
  proof (cases "layer_items rm repo layer")
    case None
    with confinedD(1) [OF c] show ?thesis
      by (auto simp: layer_items_def pull_and_extract_layer_def extract_layer_def io_defs split: sum.splits)
  next
    case (Some items)
    then obtain rc gz where f: "rm_fetch rm repo layer = Inr rc" "gzip_reader (rm_decoders rm) rc = Inr gz"
        "items = tar_entries (rm_decoders rm) gz" by (auto simp: layer_items_def split: sum.splits)
    then have "pull_and_extract_layer rm repo layer (abs_path R) =
        io_wrap (Wrapf ''extract: %w'' []) (extract_tar items (abs_path R))"
      by (simp add: pull_and_extract_layer_def extract_layer_def io_defs)
    with confined_extract_tar [OF R ok [OF Some] c] Some show ?thesis
      by (auto simp: io_wrap_def dest: confinedD(1) split: prod.splits sum.splits)
  qed
qed

text \<open>What the layers leave when all were there, and what an error leaves.\<close>

lemma confined_layers:
  assumes R: "plains R" "prefix C R"
  shows "layers_ok rm repo R L layers \<Longrightarrow> set L \<subseteq> set L0 \<union> {p. prefix R p} \<Longrightarrow>
    triple (confined C (set L) s0) (pull_layers rm repo (abs_path R) i layers)
      (\<lambda>_ s. \<exists>M. confined C (set M) s0 s \<and> set M \<subseteq> set L0 \<union> {p. prefix R p}
         \<and> avoids (set M) True (R @ [''.weft-microvm'', ''config.json'']))
      (\<lambda>_. same_outside C s0)"
proof (induction layers arbitrary: L i)
  case Nil
  then show ?case by (auto intro!: triple_return)
next
  case (Cons layer layers)
  have ok: "stream_ok R L items" "layers_ok rm repo R (stream_links R L items) layers"
    if "layer_items rm repo layer = Some items" for items
    using Cons.prems(1) that by simp_all
  show ?case
    unfolding pull_layers.simps
  proof (rule triple_bind [OF triple_wrap [OF confined_layer [OF R ok(1)]]])
    show "triple (\<lambda>s. \<exists>items. layer_items rm repo layer = Some items \<and> confined C (set (stream_links R L items)) s0 s)
        (pull_layers rm repo (abs_path R) (Suc i) layers)
        (\<lambda>_ s. \<exists>M. confined C (set M) s0 s \<and> set M \<subseteq> set L0 \<union> {p. prefix R p}
           \<and> avoids (set M) True (R @ [''.weft-microvm'', ''config.json'']))
        (\<lambda>_. same_outside C s0)"
    proof (cases "layer_items rm repo layer")
      case (Some items)
      then show ?thesis using Cons.IH [OF ok(2) stream_links_below [OF Cons.prems(2)], of items] by simp
    qed (simp add: triple_def)
  qed
qed

section \<open>The files around them\<close>

lemma keeps_write_file:
  assumes "plains p" and "avoids L True p" and "prefix C p \<or> prefix p C"
  shows "keeps (confined C L s0) (os_write_file (abs_path p) b mode)"
  unfolding os_write_file_def
proof (rule triple_bind [OF triple_open_trunc [OF assms]])
  fix i
  show "triple (\<lambda>s. confined C L s0 s \<and> owned C i s) (fd_write i b) (\<lambda>_. confined C L s0) (\<lambda>_. confined C L s0)"
    by (rule triple_weaken [OF keeps_fd_write]) auto
qed

lemma keeps_write_process:
  assumes c: "cache_at env D img" and C: "prefix C (root_dir D img)"
    and av: "avoids M True (sentinel_file D img)" "avoids M True (root_dir D img @ [''config.json''])"
  shows "keeps (confined C M s0) (write_process rm repo (abs_path (root_dir D img)) (abs_path (rootfs_dir D img)) cfg)"
proof -
  note p = cache_plains [OF c]
  have pl: "plains (root_dir D img @ [''config.json''])" "plains (sentinel_file D img)"
      "plains (rootfs_dir D img @ [''.weft-microvm''])"
    using p plain_names by (simp_all add: sentinel_file_def)
  have pre: "prefix C (root_dir D img @ [''config.json''])" "prefix C (sentinel_file D img)"
      "prefix C (rootfs_dir D img @ [''.weft-microvm''])"
    using C by (simp_all add: sentinel_file_def rootfs_dir_def)
  have "avoids M False (rootfs_dir D img @ [''.weft-microvm''])"
    by (rule avoids_prefix [OF av(1)]) (simp add: sentinel_file_def strict_prefix_def)
  note files = keeps_write_file [OF pl(1) av(2)] keeps_write_file [OF pl(2) av(1)]
      keeps_mkdir_all [OF pl(3) _ this]
  have proc: "keeps (confined C M s0) (process_from_image_config_with_rootfs ic rootfs)" for ic rootfs
    using process_triple [of "confined C M s0" ic rootfs] by (rule triple_weaken) auto
  show ?thesis
    unfolding write_process_def Let_def cache_places(4,5,7) [OF c]
    by (intro keeps_bind keeps_wrap proc files) (use pre in \<open>auto intro!: triple_intros\<close>)
qed

lemma keeps_outside:
  "keeps (confined C L s) m \<Longrightarrow> triple (confined C L s) m (\<lambda>_. confined C L s) (\<lambda>_. same_outside C s)"
  by (erule triple_weaken) (auto dest: confinedD(1))

lemma confined_write_process:
  assumes c: "cache_at env D img" and C: "prefix C (root_dir D img)"
    and L: "avoids (set L) True (root_dir D img @ [''config.json''])"
  shows "triple (\<lambda>s'. \<exists>M. confined C (set M) s s' \<and> set M \<subseteq> set L \<union> {p. prefix (rootfs_dir D img) p}
       \<and> avoids (set M) True (rootfs_dir D img @ [''.weft-microvm'', ''config.json'']))
     (write_process rm repo (abs_path (root_dir D img)) (abs_path (rootfs_dir D img)) cfg)
     (\<lambda>_. same_outside C s) (\<lambda>_. same_outside C s)"
proof (rule triple_exists)
  let ?root = "root_dir D img" and ?R = "rootfs_dir D img"
  fix M
  assume M: "set M \<subseteq> set L \<union> {p. prefix ?R p} \<and> avoids (set M) True (?R @ [''.weft-microvm'', ''config.json''])"
  have "avoids (set M) True (?root @ [''config.json''])"
    unfolding avoids_def
  proof (intro ballI impI)
    fix q assume q: "q \<in> set M" "prefix q (?root @ [''config.json''])"
    have "\<not> prefix ?R q"
      using q(2) by (auto simp: rootfs_dir_def dest: prefix_order.trans)
    with M q L show "\<not> True \<and> q = ?root @ [''config.json'']" by (auto simp: avoids_def)
  qed
  moreover have "avoids (set M) True (sentinel_file D img)" using M by (simp add: sentinel_file_def)
  ultimately have "keeps (confined C (set M) s) (write_process rm repo (abs_path ?root) (abs_path ?R) cfg)"
    by (intro keeps_write_process [OF c C])
  then show "triple (confined C (set M) s) (write_process rm repo (abs_path ?root) (abs_path ?R) cfg)
      (\<lambda>_. same_outside C s) (\<lambda>_. same_outside C s)"
    by (rule triple_weaken) (auto dest: confinedD(1))
qed

text \<open>The links a file system may have before an image is pulled: none on the way to its files.\<close>

definition clear_for :: "path list \<Rightarrow> path \<Rightarrow> string \<Rightarrow> bool" where
  "clear_for L D img =
     (avoids (set L) True (rootfs_dir D img) \<and> avoids (set L) True (root_dir D img @ [''config.json''])
      \<and> avoids (set L) True (root_dir D img @ [''manifest.json'']))"

text \<open>Everything after the root file system has been made.\<close>

definition pull_rest :: "remote \<Rightarrow> repo \<Rightarrow> path \<Rightarrow> string \<Rightarrow> (fs, unit) io" where
  "pull_rest rm repo D img =
     io_bind (io_lift (fetch_manifest rm repo img)) (\<lambda>(b, m).
     io_bind (io_wrap (Wrapf ''save manifest: %w'' []) (os_write_file (abs_path (root_dir D img @ [''manifest.json''])) b 0x1A4)) (\<lambda>_.
     io_bind (pull_layers rm repo (abs_path (rootfs_dir D img)) 0 (mf_layers m)) (\<lambda>_.
     write_process rm repo (abs_path (root_dir D img)) (abs_path (rootfs_dir D img)) (mf_config m))))"

lemma confined_rest:
  assumes c: "cache_at env D img" and C: "prefix C (root_dir D img)" and L: "clear_for L D img"
    and ok: "\<And>mb mf. fetch_manifest rm repo img = Inr (mb, mf) \<Longrightarrow>
      layers_ok rm repo (rootfs_dir D img) L (mf_layers mf)"
  shows "triple (confined C (set L) s) (pull_rest rm repo D img) (\<lambda>_. same_outside C s) (\<lambda>_. same_outside C s)"
proof -
  let ?root = "root_dir D img" and ?R = "rootfs_dir D img"
  note p = cache_plains [OF c]
  from L have av: "avoids (set L) True (?root @ [''config.json''])" "avoids (set L) True (?root @ [''manifest.json''])"
    by (simp_all add: clear_for_def)
  have R: "prefix C ?R" using C by (simp add: rootfs_dir_def)
  have pm: "plains (?root @ [''manifest.json''])" "prefix C (?root @ [''manifest.json''])"
    using p(1) C plain_names(6) by simp_all
  note mf = keeps_outside [OF keeps_write_file [OF pm(1) av(2) disjI1 [OF pm(2)]]]
  show ?thesis
  proof (cases "fetch_manifest rm repo img")
    case (Inl e)
    then show ?thesis by (simp add: pull_rest_def triple_def io_defs confinedD(1))
  next
    case (Inr r)
    obtain b m where r: "r = (b, m)" by fastforce
    show ?thesis
      unfolding pull_rest_def Inr r io_bind_lift prod.case
      by (rule triple_bind [OF triple_wrap [OF mf]],
          rule triple_bind [OF confined_layers [OF p(2) R ok [OF Inr [unfolded r]]] confined_write_process [OF c C av(1)]])
        simp
  qed
qed

section \<open>Beside the directory of the image\<close>

text \<open>
  Everything that is not below \<open>R\<close> is as it was, except that \<open>R\<close> itself and directories missing on
  the way to it may have been made.
\<close>

definition beside :: "path \<Rightarrow> fs \<Rightarrow> fs \<Rightarrow> bool" where
  "beside R s s' \<longleftrightarrow>
     (\<forall>q. \<not> strict_prefix R q \<longrightarrow>
        (node_at s' q = node_at s q \<or> node_at s q = None \<and> prefix q R \<and> is_dir_at s' q)
        \<and> (\<forall>i. node_at s q = Some (File i) \<longrightarrow> fs_inodes s' i = fs_inodes s i))"

lemma beside_refl: "beside R s s"
  by (simp add: beside_def)

lemma grown_beside:
  assumes "grown (R @ [x]) s s1"
  shows "beside R s s1"
proof -
  have "prefix q R" if "prefix q (R @ [x])" "\<not> strict_prefix R q" for q
    using that by (auto simp: strict_prefix_def)
  then show ?thesis
    using grownD(1,2) [OF assms] unfolding beside_def by auto
qed

lemma beside_outside:
  assumes "beside R s s1" and "same_outside R s1 s'"
  shows "beside R s s'"
  unfolding beside_def
proof (intro allI impI conjI)
  fix q assume q: "\<not> strict_prefix R q"
  then have same: "node_at s' q = node_at s1 q" using assms(2) by (simp add: same_outside_def)
  then show "node_at s' q = node_at s q \<or> node_at s q = None \<and> prefix q R \<and> is_dir_at s' q"
    using assms(1) q by (auto simp: beside_def is_dir_at_def)
  fix i assume i: "node_at s q = Some (File i)"
  then have "node_at s1 q = Some (File i)" "fs_inodes s1 i = fs_inodes s i"
    using assms(1) q by (auto simp: beside_def)
  with assms(2) q show "fs_inodes s' i = fs_inodes s i" by (simp add: same_outside_def)
qed

lemma fresh_beside:
  assumes c: "cache_at env D img" and s: "names_check (root_dir D img) L s" and L: "clear_for L D img"
    and ok: "\<And>mb mf. fetch_manifest rm repo img = Inr (mb, mf) \<Longrightarrow>
      layers_ok rm repo (rootfs_dir D img) L (mf_layers mf)"
  shows "beside (root_dir D img) s (snd (pull_fresh rm repo img (abs_path (root_dir D img)) (abs_path (rootfs_dir D img)) s))"
proof -
  let ?root = "root_dir D img" and ?R = "rootfs_dir D img"
  note p = cache_plains [OF c] and facts = names_check_facts [OF s]
  obtain x s1 where run: "os_mkdir_all (abs_path ?R) 0x1ED s = (x, s1)" by fastforce
  have "avoids (set L) True ?R" using L by (simp add: clear_for_def)
  moreover have "?R \<noteq> []" by (simp add: rootfs_dir_def)
  ultimately have "case os_mkdir_all (abs_path ?R) 0x1ED s of
      (Inl e, s') \<Rightarrow> grown ?R s s' | (Inr x, s') \<Rightarrow> grown ?R s s' \<and> dirs_to ?R s'"
    by (intro tripleD [OF mkdir_all_grown [OF facts(3) _ p(2)]] grown_refl)
  then have g: "grown ?R s s1" and d: "x = Inr () \<Longrightarrow> dirs_to ?R s1"
    by (auto simp: run split: sum.splits)
  have b: "beside ?root s s1" using grown_beside [of ?root] g by (simp add: rootfs_dir_def)
  have "pull_fresh rm repo img (abs_path ?root) (abs_path ?R) =
      io_bind (io_wrap (Wrapf ''mkdir %s: %w'' [abs_path ?R]) (os_mkdir_all (abs_path ?R) 0x1ED)) (\<lambda>_. pull_rest rm repo D img)"
    by (simp only: pull_fresh_def pull_rest_def cache_places(6) [OF c])
  then have fresh: "pull_fresh rm repo img (abs_path ?root) (abs_path ?R) s =
      (case x of Inl e \<Rightarrow> (Inl (Wrapf ''mkdir %s: %w'' [abs_path ?R] e), s1) | Inr _ \<Rightarrow> pull_rest rm repo D img s1)"
    by (simp add: io_bind_def io_wrap_def run split: sum.split)
  show ?thesis
  proof (cases x)
    case (Inr u)
    then have "dirs_to ?root s1" using d by (simp add: dirs_to_def rootfs_dir_def)
    moreover have "unshared ?root s1"
      using facts(2) by (simp add: unshared_def owned_def grown_File [OF g])
    ultimately have "confined ?root (set L) s1 s1"
      using grown_sane [OF g p(2) facts(1)] facts(3) by (intro confined_start) (simp_all add: grown_links [OF g])
    from triple_snd [OF confined_rest [OF c prefix_order.refl L ok] this] beside_outside [OF b] show ?thesis
      by (simp add: fresh Inr)
  qed (use b in \<open>simp add: fresh\<close>)
qed

text \<open>
  C9. \<open>Pull\<close> is confined, whatever the permissions: with no file below the image's directory hard-linked
  from outside and no link among those of \<open>L\<close> in the way of its files, layers that pass the check of
  names, and leave no link in the way of the guest configuration, make the whole operation change no
  name and no content outside the directory of the image, but for that directory and those missing on
  the way to it, which are made: when it succeeds, and at whatever point the registry, a layer or the
  file system stops it.
\<close>

theorem pull_confined:
  assumes "cache_at env D img" and "names_check (root_dir D img) L s" and "clear_for L D img"
    and "\<And>repo mb mf. new_repository (canonical_ref env img) = Inr repo \<Longrightarrow>
      fetch_manifest rm repo img = Inr (mb, mf) \<Longrightarrow> layers_ok rm repo (rootfs_dir D img) L (mf_layers mf)"
  shows "beside (root_dir D img) s (snd (pull_image rm env img s))"
  using fresh_beside [OF assms(1-3)] assms(4) beside_refl
  by (simp add: pull_image_at [OF assms(1)] split: sum.split)

text \<open>Two layers, the second with a whiteout, into an empty cache beside a neighbour.\<close>

theorem pull_confined_witness:
  "beside (root_dir [''d''] ''alpine:3'') sample_deep
     (snd (pull_image (sample_remote sample_layers) sample_env ''alpine:3'' sample_deep))"
proof (rule pull_confined [OF sample_cache])
  show "names_check (root_dir [''d''] ''alpine:3'') [] sample_deep" "clear_for [] [''d''] ''alpine:3''" by code_simp+
  fix repo mb mf
  assume "new_repository (canonical_ref sample_env ''alpine:3'') = Inr repo"
    and "fetch_manifest (sample_remote sample_layers) repo ''alpine:3'' = Inr (mb, mf)"
  then have mf: "repo = sample_repo" "mf_layers mf = map (\<lambda>mt. plain_desc mt mt) sample_layers"
    using sample_manifest [OF sample_layers_ascii] by (auto simp: sample_reference)
  have "stream_ok (rootfs_dir [''d''] ''alpine:3'') [] layer_one" "stream_ok (rootfs_dir [''d''] ''alpine:3'') [] layer_two"
      "stream_links (rootfs_dir [''d''] ''alpine:3'') [] layer_one = []"
      "stream_links (rootfs_dir [''d''] ''alpine:3'') [] layer_two = []"
    by code_simp+
  then show "layers_ok (sample_remote sample_layers) repo (rootfs_dir [''d''] ''alpine:3'') [] (mf_layers mf)"
    unfolding mf
    by (simp add: layer_items_def sample_remote_def sample_decoders_def plain_desc_def avoids_def)
qed

section \<open>A link in the place of the guest configuration\<close>

definition sample_host :: fs where
  "sample_host =
     \<lparr>fs_nodes = [([], Dir 0x1ED), ([''host''], Dir 0x1C0), ([''host'', ''config.json''], File 0), ([''d''], Dir 0x1ED),
        ([''d'', ''weft-microvm''], Dir 0x1ED), ([''d'', ''weft-microvm'', ''images''], Dir 0x1ED),
        ([''d'', ''weft-microvm'', ''images'', ''alpine_3''], Dir 0x1ED),
        ([''d'', ''weft-microvm'', ''images'', ''alpine_3'', ''rootfs''], Dir 0x1ED)],
      fs_inodes = (\<lambda>i. \<lparr>i_data = ''private'', i_mode = 0x180, i_mtime = 1\<rparr>),
      fs_next = 1, fs_cwd = [], fs_super = True, fs_umask = 0x12, fs_now = 7\<rparr>"

text \<open>The calls of the fresh pull, one after another; the third group is the layer's only entry.\<close>

definition host_root :: path where "host_root = root_dir [''d''] ''alpine:3''"

definition host_rootfs :: path where "host_rootfs = rootfs_dir [''d''] ''alpine:3''"

definition link_calls :: "fs \<Rightarrow> (error + unit) \<times> fs" where
  "link_calls s =
     (case os_mkdir_all (abs_path host_rootfs) 0x1ED s of (_, s) \<Rightarrow>
      case os_remove (abs_path (host_rootfs @ [''.weft-microvm''])) s of (_, s) \<Rightarrow>
      os_symlink ''/host'' (abs_path (host_rootfs @ [''.weft-microvm''])) s)"

definition host_pull :: "string \<Rightarrow> string \<Rightarrow> string \<Rightarrow> (error + unit) \<times> fs" where
  "host_pull mb cb out =
     (case os_mkdir_all (abs_path host_rootfs) 0x1ED sample_host of (Inl e, s) \<Rightarrow> (Inl e, s) | (Inr _, s) \<Rightarrow>
      case os_write_file (abs_path (host_root @ [''manifest.json''])) mb 0x1A4 s of (Inl e, s) \<Rightarrow> (Inl e, s) | (Inr _, s) \<Rightarrow>
      case link_calls s of (Inl e, s) \<Rightarrow> (Inl e, s) | (Inr _, s) \<Rightarrow>
      case os_write_file (abs_path (host_root @ [''config.json''])) cb 0x1A4 s of (Inl e, s) \<Rightarrow> (Inl e, s) | (Inr _, s) \<Rightarrow>
      case os_mkdir_all (abs_path (host_rootfs @ [''.weft-microvm''])) 0x1ED s of (Inl e, s) \<Rightarrow> (Inl e, s) | (Inr _, s) \<Rightarrow>
      os_write_file (abs_path (sentinel_file [''d''] ''alpine:3'')) out 0x1A4 s)"

lemma link_layer_run:
  assumes "link_calls s = (Inr (), s')"
  shows "extract_tar layer_link (abs_path host_rootfs) s = (Inr (), s')"
proof -
  have p: "safe_join (abs_path host_rootfs) ''.weft-microvm'' = Inr (abs_path (host_rootfs @ [''.weft-microvm'']))"
      "path_dir (abs_path (host_rootfs @ [''.weft-microvm''])) = abs_path host_rootfs"
      "path_base ''.weft-microvm'' = ''.weft-microvm''" "\<not> has_prefix ''.weft-microvm'' ''.wh.''"
    by code_simp+
  from assms show ?thesis
    by (auto simp: layer_link_def apply_entry_def p Let_def link_calls_def io_bind_def io_ignore_def io_wrap_def io_return_def
        split: prod.splits sum.splits)
qed

lemma host_pull_run:
  "case host_pull mb cb out of
     (r, s') \<Rightarrow> r = Inr () \<and> content_at s' [''host'', ''config.json''] = Some out"
  by code_simp

text \<open>
  C37. Without the last condition the image directory does not hold: a layer of a single entry, a link
  named \<open>.weft-microvm\<close> to a directory of the host, passes every condition on extraction and changes
  nothing outside; but the guest configuration is then written through it, over the file of that name
  in the host's directory, and \<open>Pull\<close> reports success.
\<close>

theorem layer_redirects_config:
  "stream_ok host_rootfs [] layer_link \<and> content_at sample_host [''host'', ''config.json''] = Some ''private''
   \<and> (\<exists>s'. pull_image (sample_remote [''link'']) sample_env ''alpine:3'' sample_host = (Inr (), s')
       \<and> content_at s' [''host'', ''config.json''] = Some (marshal_config sample_proc))"
proof (intro conjI)
  have "list_all ascii [''link'']" by (simp add: ascii_def code_def)
  note mf = sample_manifest [OF this]
  have no: "fst (os_stat (abs_path (sentinel_file [''d''] ''alpine:3'')) sample_host) = Inl (Sys ENOENT (abs_path (sentinel_file [''d''] ''alpine:3'')))"
    by code_simp
  have proc: "process_from_image_config
      \<lparr>ic_user = [], ic_env = [], ic_entrypoint = [''/bin/app''], ic_cmd = [], ic_working_dir = []\<rparr> = (sample_proc, None)"
    by (simp add: process_from_image_config_def sample_proc_def)
  have layer: "pull_layers (sample_remote [''link'']) sample_repo dest 0 [plain_desc ''link'' ''link''] s = (Inr (), s'')"
    if "extract_tar layer_link dest s = (Inr (), s'')" for dest s s''
    using that
    by (simp add: pull_and_extract_layer_def extract_layer_def sample_remote_def sample_decoders_def plain_desc_def io_defs)
  have cfg: "fetch_all (sample_remote [''link'']) sample_repo (plain_desc [] ''cfg'') = Inr image_text"
    by (simp add: fetch_all_def sample_remote_def plain_desc_def)
  obtain s' where s': "host_pull (manifest_text [''link'']) image_text (marshal_config sample_proc) = (Inr (), s')"
      "content_at s' [''host'', ''config.json''] = Some (marshal_config sample_proc)"
    using host_pull_run [where mb = "manifest_text [''link'']" and cb = image_text and out = "marshal_config sample_proc"] by (auto split: prod.splits)
  from s'(1) obtain s1 s2 s3 s4 s5 where st:
      "os_mkdir_all (abs_path (rootfs_dir [''d''] ''alpine:3'')) 0x1ED sample_host = (Inr (), s1)"
      "os_write_file (abs_path (root_dir [''d''] ''alpine:3'' @ [''manifest.json''])) (manifest_text [''link'']) 0x1A4 s1 = (Inr (), s2)"
      "link_calls s2 = (Inr (), s3)"
      "os_write_file (abs_path (root_dir [''d''] ''alpine:3'' @ [''config.json''])) image_text 0x1A4 s3 = (Inr (), s4)"
      "os_mkdir_all (abs_path (rootfs_dir [''d''] ''alpine:3'' @ [''.weft-microvm''])) 0x1ED s4 = (Inr (), s5)"
      "os_write_file (abs_path (sentinel_file [''d''] ''alpine:3'')) (marshal_config sample_proc) 0x1A4 s5 = (Inr (), s')"
    unfolding host_pull_def host_root_def host_rootfs_def by (auto split: prod.splits sum.splits)
  have "write_process (sample_remote [''link'']) sample_repo (abs_path (root_dir [''d''] ''alpine:3''))
      (abs_path (rootfs_dir [''d''] ''alpine:3'')) (plain_desc [] ''cfg'') s3 = (Inr (), s')"
    unfolding write_process_def Let_def cache_places(4,5,7) [OF sample_cache] cfg image_decodes
    by (simp add: io_wrap_lift io_run io_wrap_ok st image_decodes process_run [OF proc])
  then have "pull_fresh (sample_remote [''link'']) sample_repo ''alpine:3'' (abs_path (root_dir [''d''] ''alpine:3''))
      (abs_path (rootfs_dir [''d''] ''alpine:3'')) sample_host = (Inr (), s')"
    unfolding pull_fresh_def cache_places(6) [OF sample_cache]
    by (simp add: mf io_run io_wrap_ok st layer [OF link_layer_run [OF st(3), unfolded host_rootfs_def]] del: pull_layers.simps)
  then have "pull_image (sample_remote [''link'']) sample_env ''alpine:3'' sample_host = (Inr (), s')"
    by (simp add: pull_image_at [OF sample_cache] sample_reference no)
  with s'(2) show "\<exists>s'. pull_image (sample_remote [''link'']) sample_env ''alpine:3'' sample_host = (Inr (), s')
       \<and> content_at s' [''host'', ''config.json''] = Some (marshal_config sample_proc)" by blast
  show "stream_ok host_rootfs [] layer_link" "content_at sample_host [''host'', ''config.json''] = Some ''private''"
    by code_simp+
qed

end
