(* ===== verification/Layer_Order.thy ===== *)
theory Layer_Order
  imports Extract_Refine
begin

text \<open>
  The order of a layer.  The image format, and the comment at the head of \<open>extract.go\<close>, let the
  whiteouts of a layer act on what is below the layer: all whiteouts first, then the other entries.
  \<open>extractTar\<close> takes the entries as they come.  This theory gives the condition under which the two are
  the same, by moving whiteouts past entries they do not touch, and a layer for which they are not.
\<close>

section \<open>The layer format\<close>

definition marker :: "tar_header \<Rightarrow> bool" where
  "marker hdr = has_prefix (path_base (hName hdr)) ''.wh.''"

fun marks :: "tar_item \<Rightarrow> bool" where
  "marks (TarEntry hdr _) = marker hdr"
| "marks (TarError _) = False"

text \<open>Whiteouts and opaque markers first, then the rest.\<close>

definition spec_layer :: "path \<Rightarrow> tar_item list \<Rightarrow> tree \<Rightarrow> tree option" where
  "spec_layer D items t = spec_stream D (filter marks items @ filter (\<lambda>it. \<not> marks it) items) t"

text \<open>Where an entry is, the directory it is in, and what a whiteout or marker removes.\<close>

definition place :: "path \<Rightarrow> tar_header \<Rightarrow> path" where
  "place D hdr = D @ entry_comps (hName hdr)"

definition removes :: "path \<Rightarrow> tar_header \<Rightarrow> path \<Rightarrow> bool" where
  "removes D w q =
     (if path_base (hName w) = ''.wh..wh..opq'' then strict_prefix (butlast (place D w)) q
      else prefix (butlast (place D w) @ [trim_prefix (path_base (hName w)) ''.wh.'']) q)"

text \<open>
  A whiteout disturbs an entry when it removes the entry's place, or when the entry puts something
  that is no directory on the way to the whiteout.
\<close>

definition disturbs :: "path \<Rightarrow> tar_header \<Rightarrow> tar_header \<Rightarrow> bool" where
  "disturbs D w e =
     (removes D w (place D e) \<or> hTypeflag e \<noteq> TypeDir \<and> prefix (place D e) (butlast (place D w)))"

text \<open>No whiteout disturbs an entry before it in the same layer.\<close>

fun undisturbed :: "path \<Rightarrow> tar_item list \<Rightarrow> bool" where
  "undisturbed D [] = True"
| "undisturbed D (TarError _ # items) = undisturbed D items"
| "undisturbed D (TarEntry e _ # items) =
     ((marker e \<or> list_all (\<lambda>it. case it of TarEntry w _ \<Rightarrow> marker w \<longrightarrow> \<not> disturbs D w e | _ \<Rightarrow> True) items)
      \<and> undisturbed D items)"

section \<open>Removing and making\<close>

text \<open>A tree with everything in \<open>K\<close> taken out; \<open>K\<close> holds with a name everything below it.\<close>

definition without :: "(path \<Rightarrow> bool) \<Rightarrow> tree \<Rightarrow> tree" where
  "without K t = (\<lambda>q. if K q then None else t q)"

definition downward :: "(path \<Rightarrow> bool) \<Rightarrow> bool" where
  "downward K \<longleftrightarrow> (\<forall>p q. K p \<longrightarrow> prefix p q \<longrightarrow> K q)"

lemma removes_downward: "downward (removes D w)"
  by (auto simp: downward_def removes_def dest: prefix_order.trans prefix_order.less_le_trans)

lemma without_free: "downward K \<Longrightarrow> \<not> K p \<Longrightarrow> prefix q p \<Longrightarrow> without K t q = t q"
  by (auto simp: without_def downward_def)

lemma without_dirs:
  "downward K \<Longrightarrow> \<not> K p \<Longrightarrow> spec_dirs p (without K t) = without K (spec_dirs p t)"
  by (auto simp: spec_dirs_def without_def downward_def fun_eq_iff)

lemma without_upd: "\<not> K p \<Longrightarrow> (without K t)(p \<mapsto> x) = without K (t(p \<mapsto> x))"
  by (auto simp: without_def)

lemma without_clear: "downward K \<Longrightarrow> \<not> K p \<Longrightarrow> spec_clear (without K t) p = spec_clear t p"
  by (simp add: spec_clear_iff without_free)

lemma clear_dirs [simp]: "spec_clear (spec_dirs p t) q = spec_clear t q"
  by (auto simp: spec_clear_iff spec_dirs_def)

lemma clear_upd: "\<not> prefix p q \<Longrightarrow> spec_clear (t(p \<mapsto> x)) q = spec_clear t q"
  by (auto simp: spec_clear_iff)

lemma not_butlast: "downward K \<Longrightarrow> \<not> K p \<Longrightarrow> \<not> K (butlast p)"
  by (cases p rule: rev_cases) (auto simp: downward_def)

lemma without_file:
  "downward K \<Longrightarrow> \<not> K p \<Longrightarrow> spec_file p r (without K t) = map_option (without K) (spec_file p r t)"
  using without_free [of K p p t]
  by (simp add: spec_file_def without_clear not_butlast without_dirs without_upd)

lemma without_link:
  "downward K \<Longrightarrow> \<not> K p \<Longrightarrow> spec_link p l (without K t) = map_option (without K) (spec_link p l t)"
  using without_free [of K p p t]
  by (simp add: spec_link_def without_clear not_butlast without_dirs without_upd)

section \<open>A whiteout and an entry it does not disturb\<close>

lemma marker_entry:
  assumes "marker w"
  obtains ok where "\<And>b t. spec_entry D w b t =
    (if ok \<and> spec_clear t (butlast (place D w)) then Some (without (removes D w) t) else None)"
proof (cases "climbs 0 (split_chr slash (trim_left_chr slash (hName w))) \<or> entry_comps (hName w) = []")
  case True
  then show ?thesis
    using assms by (intro that [of False]) (auto simp: spec_entry_def marker_def)
next
  case False
  let ?x = "trim_prefix (path_base (hName w)) ''.wh.''"
  show ?thesis
  proof (rule that [of "path_base (hName w) = ''.wh..wh..opq'' \<or> plain ?x"])
    fix b t
    show "spec_entry D w b t =
      (if (path_base (hName w) = ''.wh..wh..opq'' \<or> plain ?x) \<and> spec_clear t (butlast (place D w))
       then Some (without (removes D w) t) else None)"
    proof (cases "path_base (hName w) = ''.wh..wh..opq''")
      case True
      with False show ?thesis
        by (simp add: spec_entry_def Let_def place_def removes_def without_def spec_empty_def)
    next
      case no: False
      with False assms show ?thesis
        by (simp add: spec_entry_def Let_def place_def removes_def without_def spec_prune_def marker_def)
    qed
  qed
qed

lemma entry_without:
  assumes "\<not> marker e" and "downward K" and "\<not> K (place D e)"
  shows "spec_entry D e b (without K t) = map_option (without K) (spec_entry D e b t)"
proof -
  have "path_base (hName e) \<noteq> ''.wh..wh..opq''"
    using assms(1) by (auto simp: marker_def has_prefix_def)
  note base = this assms(1) [unfolded marker_def]
  show ?thesis
  proof (cases "entry_comps (hName e) = []")
    case True
    with assms(3) have "\<not> K D" by (simp add: place_def)
    with base assms(2) True show ?thesis by (simp add: spec_entry_def without_clear without_dirs)
  next
    case False
    with base assms(2,3) show ?thesis
      by (cases "hTypeflag e")
        (simp_all add: spec_entry_def Let_def place_def without_clear without_dirs without_file without_link)
  qed
qed

lemma entry_clear:
  assumes "\<not> marker e" and "hTypeflag e = TypeDir \<or> \<not> prefix (place D e) par" and "spec_entry D e b t = Some u"
  shows "spec_clear u par = spec_clear t par"
proof -
  have "path_base (hName e) \<noteq> ''.wh..wh..opq''"
    using assms(1) by (auto simp: marker_def has_prefix_def)
  with assms show ?thesis
    by (cases "hTypeflag e")
      (auto simp: spec_entry_def Let_def marker_def place_def spec_file_def spec_link_def clear_upd split: if_splits)
qed

lemma entry_marker_swap:
  assumes w: "marker w" and e: "\<not> marker e" and apart: "\<not> disturbs D w e"
  shows "Option.bind (spec_entry D e b t) (spec_entry D w c) = Option.bind (spec_entry D w c t) (spec_entry D e b)"
proof -
  obtain ok where m: "\<And>b t. spec_entry D w b t =
      (if ok \<and> spec_clear t (butlast (place D w)) then Some (without (removes D w) t) else None)"
    using marker_entry [OF w] by blast
  have "\<not> removes D w (place D e)" using apart by (simp add: disturbs_def)
  note cut = entry_without [OF e removes_downward this]
  have "spec_clear u (butlast (place D w)) = spec_clear t (butlast (place D w))" if "spec_entry D e b t = Some u" for u
    using entry_clear [OF e _ that] apart by (auto simp: disturbs_def)
  then show ?thesis
    by (cases "spec_entry D e b t") (auto simp: m cut)
qed

section \<open>Whole layers\<close>

lemma spec_stream_append:
  "spec_stream D (xs @ ys) t = Option.bind (spec_stream D xs t) (spec_stream D ys)"
  by (induction D xs t rule: spec_stream.induct) (auto split: bind_splits)

lemma spec_stream_fun:
  "spec_stream D (TarEntry w c # ws) = (\<lambda>t. Option.bind (spec_entry D w c t) (spec_stream D ws))"
  "spec_stream D (TarError err # ws) = (\<lambda>t. None)"
  "spec_stream D [] = Some"
  by (simp_all add: fun_eq_iff)

lemma entry_markers_swap:
  assumes e: "\<not> marker e"
    and ws: "list_all marks ws" "list_all (\<lambda>it. case it of TarEntry w _ \<Rightarrow> marker w \<longrightarrow> \<not> disturbs D w e | _ \<Rightarrow> True) ws"
  shows "Option.bind (spec_entry D e b t) (spec_stream D ws) = Option.bind (spec_stream D ws t) (spec_entry D e b)"
  using ws
proof (induction ws arbitrary: t)
  case (Cons it ws)
  then obtain w c where it: "it = TarEntry w c" and w: "marker w" "\<not> disturbs D w e"
    by (cases it) auto
  have "Option.bind (spec_entry D e b t) (spec_stream D (it # ws)) =
      Option.bind (Option.bind (spec_entry D e b t) (spec_entry D w c)) (spec_stream D ws)"
    by (simp add: it spec_stream_fun)
  also have "\<dots> = Option.bind (spec_entry D w c t) (\<lambda>u. Option.bind (spec_entry D e b u) (spec_stream D ws))"
    by (simp add: entry_marker_swap [OF w(1) e w(2)])
  also have "\<dots> = Option.bind (spec_stream D (it # ws) t) (spec_entry D e b)"
    using Cons by (simp add: it)
  finally show ?case .
qed (simp add: spec_stream_fun)

lemma undisturbed_layer: "undisturbed D items \<Longrightarrow> spec_layer D items t = spec_stream D items t"
proof (induction D items arbitrary: t rule: undisturbed.induct)
  case (2 D err items)
  then show ?case by (simp add: spec_layer_def spec_stream_append spec_stream_fun)
next
  case (3 D e b items)
  let ?ws = "filter marks items" and ?es = "filter (\<lambda>it. \<not> marks it) items"
  have IH: "spec_stream D (?ws @ ?es) = spec_stream D items"
    using 3 by (simp add: fun_eq_iff flip: spec_layer_def)
  show ?case
  proof (cases "marker e")
    case True
    then show ?thesis by (simp add: spec_layer_def spec_stream_fun IH)
  next
    case False
    have "list_all marks ?ws"
        "list_all (\<lambda>it. case it of TarEntry w _ \<Rightarrow> marker w \<longrightarrow> \<not> disturbs D w e | _ \<Rightarrow> True) ?ws"
      using 3 False by (auto simp: list_all_iff)
    note swap = entry_markers_swap [OF False this]
    have "spec_layer D (TarEntry e b # items) t =
        Option.bind (Option.bind (spec_stream D ?ws t) (spec_entry D e b)) (spec_stream D ?es)"
      using False by (simp add: spec_layer_def spec_stream_append spec_stream_fun)
    also have "\<dots> = Option.bind (spec_entry D e b t) (spec_stream D (?ws @ ?es))"
      by (simp add: swap [symmetric] spec_stream_append [abs_def])
    finally show ?thesis by (simp add: IH)
  qed
qed (simp add: spec_layer_def)

text \<open>
  C1. Extraction gives the tree its entries describe, in the order of the stream: on a file system with
  one name per file and as superuser, a stream the specification accepts (no hard links, no way through
  symbolic links, nothing in the place of a directory) is extracted without error, and the tree of
  directories, file contents and links that results is the one specified.  It is also the tree of the
  layer format, all whiteouts applied first, to what was there before the layer, and then all other
  entries, when no whiteout disturbs an entry before it: removes what the entry made, or is below
  something it made that is no directory.  For other layers the two differ, see \<open>late_marker_removes\<close>.
\<close>

theorem extract_refines:
  assumes "plains D" and "D \<noteq> []" and "ready s" and "spec_stream D items (view s) = Some t"
  shows "\<exists>s'. extract_tar items (abs_path D) s = (Inr (), s') \<and> ready s' \<and> view s' = t
    \<and> (undisturbed D items \<longrightarrow> spec_layer D items (view s) = Some t)"
  using stream_refines [OF assms] assms(4) by (auto simp: undisturbed_layer)

theorem extract_refines_witness:
  "\<exists>s'. extract_tar sample_stream (abs_path [''r'']) sample_fs = (Inr (), s')
    \<and> spec_layer [''r''] sample_stream (view sample_fs) = Some (view s')
    \<and> view s' [''r'', ''d'', ''e'', ''f''] = Some (AFile ''data'') \<and> view s' [''r'', ''a''] = None
    \<and> view s' [''r'', ''l''] = Some (ALink ''d/e'')"
proof -
  let ?t = "the (spec_stream [''r''] sample_stream (view sample_fs))"
  have "spec_stream [''r''] sample_stream (view sample_fs) \<noteq> None" "plains [''r'']"
      "?t [''r'', ''d'', ''e'', ''f''] = Some (AFile ''data'')" "?t [''r'', ''a''] = None"
      "?t [''r'', ''l''] = Some (ALink ''d/e'')" "undisturbed [''r''] sample_stream"
    by code_simp+
  with extract_refines [of "[''r'']" sample_fs sample_stream ?t] sample_fs_ready show ?thesis by auto
qed

section \<open>A layer where the order shows\<close>

text \<open>
  An opaque marker that comes after a file of its own layer: the layer format keeps the file, which is
  an entry of the layer and not of what is below it; the code removes it.
\<close>

definition late_stream :: "tar_item list" where
  "late_stream =
     [TarEntry (sample_header ''d/f'' TypeReg []) (''data'', None),
      TarEntry (sample_header ''d/.wh..wh..opq'' TypeReg []) ([], None)]"

theorem late_marker_removes:
  "case extract_tar late_stream ''/r'' sample_fs of (x, s') \<Rightarrow>
     x = Inr () \<and> view s' [''r'', ''d'', ''f''] = None
     \<and> the (spec_layer [''r''] late_stream (view sample_fs)) [''r'', ''d'', ''f''] = Some (AFile ''data'')"
  by code_simp

end
