(* ===== verification/Hard_Link.thy ===== *)
theory Hard_Link
  imports Extract_Refine
begin

text \<open>
  Hard links.  After a \<open>TypeLink\<close> entry two names share one file, which the specification on trees does
  not cover.  This theory gives the exact effect of such an entry, and of a regular entry that later
  names one of the two: \<open>O_TRUNC\<close> opens the file that is there, so the other name changes with it.
\<close>

section \<open>Trees with shared files\<close>

text \<open>What is left of \<open>ready\<close> when files may have several names.\<close>

definition steady :: "fs \<Rightarrow> bool" where
  "steady s \<longleftrightarrow> fs_super s \<and> tree_ok s"

lemma ready_steady: "ready s \<Longrightarrow> steady s"
  by (simp add: steady_def ready_def)

lemma steady_open: "steady s \<Longrightarrow> node_at s p \<noteq> None \<Longrightarrow> path_open s p"
  by (simp add: steady_def tree_ok_open)

lemma steady_same:
  assumes "steady s" and "\<And>q. node_at s' q = node_at s q" and "fs_super s' = fs_super s"
  shows "steady s'"
  using assms by (simp add: steady_def tree_ok_def is_dir_at_def)

text \<open>The directories of a node that is there are there: \<open>MkdirAll\<close> has nothing to make.\<close>

lemma mkdir_all_idle:
  assumes s: "steady s" and p: "plains p" "node_at s p \<noteq> None" "p \<noteq> []"
  obtains s' where "os_mkdir_all (abs_path (butlast p)) mode s = (Inr (), s')"
    and "\<And>q. node_at s' q = node_at s q" and "fs_inodes s' = fs_inodes s" and "steady s'"
proof -
  have above: "is_dir_at s q" if "prefix q (butlast p)" for q
    using that s p(2,3) tree_ok_above [of s p q] strict_prefix_butlast [of p]
    by (meson prefix_order.le_less_trans steady_def)
  then have "clear_to s (butlast p)" by (simp add: clear_to_def list_all_iff take_is_prefix)
  with s p(1) obtain s' where run: "os_mkdir_all (abs_path (butlast p)) mode s = (Inr (), s')"
      and w: "with_dirs s (butlast p) mode s'"
    using mkdir_all_super [of s "butlast p"] by (auto simp: steady_def list_all_butlast)
  have same: "node_at s' q = node_at s q" for q
    using w above by (auto simp: with_dirs_def is_dir_at_node)
  moreover have "fs_inodes s' = fs_inodes s" "fs_super s' = fs_super s"
    using w by (auto simp: with_dirs_def)
  ultimately show ?thesis using run steady_same [OF s] that by blast
qed

section \<open>The link\<close>

definition hard_entry :: "tar_header \<Rightarrow> bool" where
  "hard_entry hdr = (hTypeflag hdr = TypeLink \<and> \<not> has_prefix (path_base (hName hdr)) ''.wh.'')"

lemma apply_hard_entry:
  assumes "hard_entry hdr" and "safe_join dest (hName hdr) = Inr name"
    and "safe_join dest (hLinkname hdr) = Inr target"
  shows "apply_entry r hdr dest =
    io_bind (io_ignore (os_mkdir_all (path_dir name) 0x1ED)) (\<lambda>_.
    io_bind (io_ignore (os_remove name)) (\<lambda>_. os_link target name))"
proof -
  have "path_base (hName hdr) \<noteq> ''.wh..wh..opq''"
    using assms(1) by (auto simp: hard_entry_def has_prefix_def)
  with assms show ?thesis by (auto simp: apply_entry_def hard_entry_def)
qed

text \<open>Names that pass the check, and where they point.\<close>

definition lands :: "path \<Rightarrow> string \<Rightarrow> path \<Rightarrow> bool" where
  "lands D name p \<longleftrightarrow> \<not> climbs 0 (split_chr slash (trim_left_chr slash name)) \<and> p = D @ entry_comps name"

lemma lands_join:
  assumes "plains D" and "lands D name p"
  shows "safe_join (abs_path D) name = Inr (abs_path p)" and "plains p"
    and "path_dir (abs_path p) = abs_path (butlast p)"
  using assms safe_join_spec [OF assms(1), of name] by (auto simp: lands_def path_dir_abs)

lemma link_put:
  assumes s: "ready s" and p: "plains p" "p \<noteq> []" "node_at s p = None" "is_dir_at s (butlast p)"
    and q: "plains q" "node_at s q = Some (File i)"
  shows "os_link (abs_path q) (abs_path p) s = (Inr (), set_node p (File i) s)"
    and "steady (set_node p (File i) s)"
proof -
  have "q \<noteq> []" using q(2) readyD(2) [OF s] by (auto simp: tree_ok_def is_dir_at_node)
  moreover have "path_open s q" using steady_open [OF ready_steady [OF s]] q(2) by simp
  ultimately show "os_link (abs_path q) (abs_path p) s = (Inr (), set_node p (File i) s)"
    using p q parents_open [OF s p(1,2,4)]
    by (simp add: os_link_def walk_open_Some walk_open_None)
  have "tree_ok (set_node p (File i) s)"
    by (rule tree_ok_put [OF readyD(2) [OF s] p(2,4), where nd = "File i"])
      (use p(3) in \<open>simp_all add: is_dir_at_def fs_simps\<close>)
  then show "steady (set_node p (File i) s)"
    using readyD(1) [OF s] by (simp add: steady_def fs_simps)
qed

text \<open>The name \<open>p\<close> becomes a second name of the file at \<open>q\<close>, and nothing else changes but for the
  directories that were missing.\<close>

lemma hard_entry_run:
  assumes D: "plains D" and h: "hard_entry hdr" "lands D (hName hdr) p" "lands D (hLinkname hdr) q"
    and s: "ready s" "clear_to s (butlast p)" and p: "p \<noteq> []" "\<not> is_dir_at s p" "p \<noteq> q"
    and q: "node_at s q = Some (File i)"
  obtains s' where "apply_entry r hdr (abs_path D) s = (Inr (), s')" and "steady s'"
    and "node_at s' p = Some (File i)" and "fs_inodes s' = fs_inodes s"
    and "view s' = (spec_dirs (butlast p) (view s))(p \<mapsto> AFile (i_data (fs_inodes s i)))"
    and "\<And>x. node_at s' x = Some (File i) \<longleftrightarrow> x = p \<or> x = q"
proof -
  note at_p = lands_join [OF D h(2)] and at_q = lands_join [OF D h(3)]
  have pb: "plains (butlast p)" using at_p(2) by (rule list_all_butlast)
  obtain s1 where run1: "os_mkdir_all (abs_path (butlast p)) 0x1ED s = (Inr (), s1)"
    and r1: "ready s1" and v1: "view s1 = spec_dirs (butlast p) (view s)" and w: "with_dirs s (butlast p) 0x1ED s1"
    using mkdir_all_view [OF s(1) pb s(2)] .
  have d1: "is_dir_at s1 (butlast p)" "\<not> is_dir_at s1 p"
    using s(2) p(2) v1 not_prefix_butlast [OF p(1)]
    by (simp_all flip: view_ADir) (auto simp: spec_dirs_def clear_to_iff)
  have n1: "node_at s1 q = Some (File i)" "fs_inodes s1 = fs_inodes s"
    using w q by (auto simp: with_dirs_def)
  obtain s2 where run2: "io_ignore (os_remove (abs_path p)) s1 = (Inr (), s2)" and r2: "ready s2"
    and v2: "view s2 = (view s1)(p := None)" and n2: "\<And>x. node_at s2 x = (if x = p then None else node_at s1 x)"
    and i2: "fs_inodes s2 = fs_inodes s1"
    using remove_run [OF r1 at_p(2) p(1) d1] by blast
  have "butlast p \<noteq> p" using p(1) by (metis not_prefix_butlast prefix_order.refl)
  then have d2: "is_dir_at s2 (butlast p)" and q2: "node_at s2 q = Some (File i)"
    using d1 n1 p(3) by (simp_all add: is_dir_at_def n2)
  let ?s3 = "set_node p (File i) s2"
  have lk: "os_link (abs_path q) (abs_path p) s2 = (Inr (), ?s3)" "steady ?s3"
    using link_put [OF r2 at_p(2) p(1) _ d2 at_q(2) q2] by (simp_all add: n2)
  have "apply_entry r hdr (abs_path D) s = (Inr (), ?s3)"
    using run1 run2 lk(1) unfolding apply_hard_entry [OF h(1) at_p(1) at_q(1)] at_p(3)
    by (simp add: io_bind_def io_ignore_def)
  moreover have "view ?s3 = (spec_dirs (butlast p) (view s))(p \<mapsto> AFile (i_data (fs_inodes s i)))"
    by (rule ext) (auto simp: view_def fs_simps n2 i2 n1(2) simp flip: v1 split: option.splits node.splits)
  moreover have "node_at ?s3 x = Some (File i) \<longleftrightarrow> x = p \<or> x = q" for x
    using readyD(4) [OF r2] q2 by (auto simp: fs_simps unaliased_def)
  ultimately show ?thesis
    using lk(2) n1(2) i2 by (intro that [of ?s3]) (auto simp: fs_simps)
qed

section \<open>The write\<close>

lemma shared_entry_run:
  assumes D: "plains D" and h: "file_entry hdr" "lands D (hName hdr) p"
    and s: "steady s" and p: "node_at s p = Some (File i)"
  obtains s' where "apply_entry (b, None) hdr (abs_path D) s = (Inr (), s')"
    and "\<And>x. node_at s' x = node_at s x"
    and "\<And>j. i_data (fs_inodes s' j) = (if j = i then b else i_data (fs_inodes s j))"
    and "\<And>j. i_mode (fs_inodes s' j) = i_mode (fs_inodes s j)"
proof -
  note at_p = lands_join [OF D h(2)]
  have ne: "p \<noteq> []" using p s by (auto simp: steady_def tree_ok_def is_dir_at_node)
  obtain s1 where run1: "os_mkdir_all (abs_path (butlast p)) 0x1ED s = (Inr (), s1)"
    and n1: "\<And>x. node_at s1 x = node_at s x" and i1: "fs_inodes s1 = fs_inodes s" and s1: "steady s1"
    using mkdir_all_idle [OF s at_p(2) _ ne] p by auto
  have po: "path_open s1 p" using steady_open [OF s1] p by (simp add: n1)
  then have wr: "writable_at s1 p"
    using ne at_p(2) p s1 by (simp add: writable_at_def n1 allowed_def steady_def)
  let ?s2 = "put_file p b (file_mode (hMode hdr)) s1"
  have n2: "node_at ?s2 x = node_at s x" for x using p by (auto simp: put_file_def fs_simps n1)
  have "io_ignore (os_chtimes (abs_path p) (hModTime hdr)) ?s2 = (Inr (), touch p (hModTime hdr) ?s2)"
    using at_p(2) ne p po by (intro chtimes_run path_open_put) (auto simp: n2)
  then have "apply_entry (b, None) hdr (abs_path D) s = (Inr (), touch p (hModTime hdr) ?s2)"
    unfolding apply_file_entry [OF h(1) at_p(1)]
    by (simp add: at_p(3) io_bind_ok [of "os_mkdir_all (abs_path (butlast p)) 0x1ED", OF run1] copy_to_run [OF wr])
  moreover have "i_data (fs_inodes (touch p t ?s2) j) = (if j = i then b else i_data (fs_inodes s j))"
      "i_mode (fs_inodes (touch p t ?s2) j) = i_mode (fs_inodes s j)" for t j
    using p by (simp_all add: touch_def n2) (simp_all add: put_file_def n1 i1 fd_write_def truncate_file_def set_inode_def)
  ultimately show ?thesis using n2 by (intro that [of "touch p (hModTime hdr) ?s2"]) (simp_all add: touch_simps)
qed

text \<open>
  C29. Writing to one name of a hard link writes to the other: a later entry that replaces the linked
  name changes the target too.  The image format has the entry make a new file and the target keep its
  content.
\<close>

theorem hard_link_overwritten:
  assumes "plains D" and "ready s"
    and "hard_entry lnk" and "lands D (hName lnk) p" and "lands D (hLinkname lnk) q"
    and "node_at s q = Some (File i)" and "p \<noteq> []" and "p \<noteq> q"
    and "clear_to s (butlast p)" and "\<not> is_dir_at s p"
    and "file_entry hdr" and "lands D (hName hdr) p"
  shows "\<exists>s1 s2. extract_tar [TarEntry lnk r] (abs_path D) s = (Inr (), s1)
    \<and> view s1 = (spec_dirs (butlast p) (view s))(p := view s q)
    \<and> extract_tar [TarEntry hdr (b, None)] (abs_path D) s1 = (Inr (), s2)
    \<and> view s2 = (spec_dirs (butlast p) (view s))(p \<mapsto> AFile b, q \<mapsto> AFile b)
    \<and> mode_at s2 p = mode_at s q"
proof -
  obtain s1 where run1: "apply_entry r lnk (abs_path D) s = (Inr (), s1)" and s1: "steady s1"
    and p1: "node_at s1 p = Some (File i)" and i1: "fs_inodes s1 = fs_inodes s"
    and v1: "view s1 = (spec_dirs (butlast p) (view s))(p \<mapsto> AFile (i_data (fs_inodes s i)))"
    and only: "\<And>x. node_at s1 x = Some (File i) \<longleftrightarrow> x = p \<or> x = q"
    using hard_entry_run [OF assms(1,3-5,2,9,7,10,8,6), where r = r] by blast
  obtain s2 where run2: "apply_entry (b, None) hdr (abs_path D) s1 = (Inr (), s2)"
    and n2: "\<And>x. node_at s2 x = node_at s1 x"
    and d2: "\<And>j. i_data (fs_inodes s2 j) = (if j = i then b else i_data (fs_inodes s1 j))"
    and m2: "\<And>j. i_mode (fs_inodes s2 j) = i_mode (fs_inodes s1 j)"
    using shared_entry_run [OF assms(1,11,12) s1 p1, where b = b] by blast
  have "view s2 = (view s1)(p \<mapsto> AFile b, q \<mapsto> AFile b)"
  proof
    fix x
    show "view s2 x = ((view s1)(p \<mapsto> AFile b, q \<mapsto> AFile b)) x"
    proof (cases "node_at s1 x = Some (File i)")
      case True
      then show ?thesis using only [of x] by (auto simp: view_def n2 d2)
    next
      case False
      then have "x \<noteq> p" "x \<noteq> q" using only [of x] by simp_all
      with False show ?thesis by (simp add: view_def n2 d2 split: option.split node.split)
    qed
  qed
  moreover have "mode_at s2 p = mode_at s q"
    using p1 assms(6) by (simp add: mode_at_def n2 m2 i1)
  moreover have "view s q = Some (AFile (i_data (fs_inodes s i)))"
    using assms(6) by (simp add: view_def)
  moreover have "extract_tar [TarEntry lnk r] (abs_path D) s = (Inr (), s1)"
    using run1 by (simp add: io_bind_def io_wrap_def io_return_def)
  moreover have "extract_tar [TarEntry hdr (b, None)] (abs_path D) s1 = (Inr (), s2)"
    using run2 by (simp add: io_bind_def io_wrap_def io_return_def)
  ultimately show ?thesis using v1 by auto
qed

theorem hard_link_overwritten_witness:
  "\<exists>s1 s2. extract_tar [TarEntry (sample_header ''b'' TypeLink ''a'') ([], None)] (abs_path [''r'']) sample_fs = (Inr (), s1)
    \<and> view s1 [''r'', ''b''] = Some (AFile ''old'')
    \<and> extract_tar [TarEntry (sample_header ''b'' TypeReg []) (''new'', None)] (abs_path [''r'']) s1 = (Inr (), s2)
    \<and> view s2 [''r'', ''a''] = Some (AFile ''new'')"
proof -
  let ?l = "sample_header ''b'' TypeLink ''a''" and ?h = "sample_header ''b'' TypeReg []"
  have "plains [''r'']" "hard_entry ?l" "lands [''r''] (hName ?l) [''r'', ''b'']"
      "lands [''r''] (hLinkname ?l) [''r'', ''a'']" "node_at sample_fs [''r'', ''a''] = Some (File 0)"
      "clear_to sample_fs (butlast [''r'', ''b''])" "\<not> is_dir_at sample_fs [''r'', ''b'']"
      "file_entry ?h" "lands [''r''] (hName ?h) [''r'', ''b'']" "view sample_fs [''r'', ''a''] = Some (AFile ''old'')"
    by code_simp+
  note f = this
  from hard_link_overwritten [OF f(1) sample_fs_ready f(2-5) _ _ f(6-9), of "([], None)" "''new''"] f(10)
  show ?thesis by fastforce
qed

end
