(* ===== verification/Cpio.thy ===== *)
theory Cpio
  imports Go_Strings "HOL-Library.Signed_Division"
begin

unbundle bit_operations_syntax

text \<open>
  The \<open>newc\<close> archive writer (\<open>cpio/cpio.go\<close>) over an arbitrary \<open>io.Writer\<close>.  The writer underneath
  is the locale \<open>byte_sink\<close>: one \<open>Write\<close> call with Go's contract (all bytes accepted, or an error
  after a prefix of them).  Its lemmas say what has reached that writer after each operation, on
  success and on failure; the interpretation is a writer with room for a given number of bytes.
\<close>

section \<open>The writer underneath\<close>

type_synonym 'w writer = "string \<Rightarrow> 'w \<Rightarrow> (nat \<times> error option) \<times> 'w"

locale byte_sink =
  fixes W :: "'w writer"
    and has :: "string \<Rightarrow> 'w \<Rightarrow> bool"
    and part :: "string \<Rightarrow> 'w \<Rightarrow> bool"
  assumes write_ok: "has b w \<Longrightarrow> W c w = ((n, None), w') \<Longrightarrow> n = length c \<and> has (b @ c) w'"
    and write_err: "has b w \<Longrightarrow> W c w = ((n, Some e), w') \<Longrightarrow> \<exists>d. prefix d c \<and> part (b @ d) w'"

section \<open>The code\<close>

record 'w cpio_writer =
  cw_w :: 'w
  cw_ino :: u32
  cw_pos :: u64

definition new_writer :: "'w \<Rightarrow> 'w cpio_writer" where
  "new_writer w = \<lparr>cw_w = w, cw_ino = 721, cw_pos = 0\<rparr>"

record header =
  h_name :: string
  h_mode :: u32
  h_size :: u32
  h_uid :: u32
  h_gid :: u32
  h_mtim :: u32
  h_link :: string

definition header0 :: header where
  "header0 = \<lparr>h_name = [], h_mode = 0, h_size = 0, h_uid = 0, h_gid = 0, h_mtim = 0, h_link = []\<rparr>"

definition magic :: string where "magic = ''070701''"
definition trailer :: string where "trailer = ''TRAILER!!!''"

definition zeros :: "nat \<Rightarrow> string" where
  "zeros n = replicate n (char_of (0 :: nat))"

definition cw_write :: "'w writer \<Rightarrow> string \<Rightarrow> ('w cpio_writer, unit) io" where
  "cw_write W b = (\<lambda>cw. case W b (cw_w cw) of
     ((n, err), w') \<Rightarrow>
       (case err of None \<Rightarrow> Inr () | Some e \<Rightarrow> Inl e,
        cw\<lparr>cw_w := w', cw_pos := cw_pos cw + of_nat n\<rparr>))"

text \<open>\<open>(m - int(pos % m)) % m\<close> on signed 64-bit integers.\<close>

definition pad_to :: "nat \<Rightarrow> u64 \<Rightarrow> nat" where
  "pad_to m pos = nat ((int m - sint pos smod int m) smod int m)"

definition pad4 :: "'w writer \<Rightarrow> ('w cpio_writer, unit) io" where
  "pad4 W = (\<lambda>cw. let pad = pad_to 4 (cw_pos cw)
     in if pad = 0 then (Inr (), cw) else cw_write W (zeros pad) cw)"

definition header_fields :: "u32 \<Rightarrow> header \<Rightarrow> u32 \<Rightarrow> u32 \<Rightarrow> u32 \<Rightarrow> u32 list" where
  "header_fields ino h nlink rmaj rmin =
     [ino, h_mode h, h_uid h, h_gid h, nlink, h_mtim h, h_size h, 0, 0, rmaj, rmin,
      of_nat (length (h_name h)) + 1, 0]"

definition write_header_full ::
  "'w writer \<Rightarrow> header \<Rightarrow> u32 \<Rightarrow> u32 \<Rightarrow> u32 \<Rightarrow> ('w cpio_writer, unit) io" where
  "write_header_full W h nlink rmaj rmin = (\<lambda>cw.
     let cw = cw\<lparr>cw_ino := cw_ino cw + 1\<rparr>;
         hdr = magic @ concat (map fmt_08x (header_fields (cw_ino cw) h nlink rmaj rmin))
     in io_bind (cw_write W hdr) (\<lambda>_.
        io_bind (cw_write W (h_name h)) (\<lambda>_.
        io_bind (cw_write W (zeros 1)) (\<lambda>_.
        pad4 W))) cw)"

definition write_header :: "'w writer \<Rightarrow> header \<Rightarrow> u32 \<Rightarrow> ('w cpio_writer, unit) io" where
  "write_header W h nlink = write_header_full W h nlink 0 0"

definition write_body :: "'w writer \<Rightarrow> string \<Rightarrow> ('w cpio_writer, unit) io" where
  "write_body W data = io_bind (cw_write W data) (\<lambda>_. pad4 W)"

definition write_file :: "'w writer \<Rightarrow> header \<Rightarrow> string \<Rightarrow> ('w cpio_writer, unit) io" where
  "write_file W h data =
     (let h = h\<lparr>h_size := of_nat (length data)\<rparr>
      in io_bind (write_header W h 1) (\<lambda>_. write_body W data))"

definition write_dir :: "'w writer \<Rightarrow> string \<Rightarrow> u32 \<Rightarrow> ('w cpio_writer, unit) io" where
  "write_dir W name mode =
     write_header W (header0\<lparr>h_name := name, h_mode := 0x4000 OR (mode AND 0xFFF)\<rparr>) 1"

definition write_symlink :: "'w writer \<Rightarrow> string \<Rightarrow> string \<Rightarrow> u32 \<Rightarrow> ('w cpio_writer, unit) io" where
  "write_symlink W name target mode =
     io_bind (write_header W
       (header0\<lparr>h_name := name, h_mode := 0xA000 OR (mode AND 0xFFF),
                h_size := of_nat (length target)\<rparr>) 1) (\<lambda>_.
     write_body W target)"

definition write_nod :: "'w writer \<Rightarrow> string \<Rightarrow> u32 \<Rightarrow> u32 \<Rightarrow> u32 \<Rightarrow> ('w cpio_writer, unit) io" where
  "write_nod W name mode major minor =
     write_header_full W (header0\<lparr>h_name := name, h_mode := mode\<rparr>) 1 major minor"

text \<open>The final padding goes straight to the writer underneath.\<close>

definition cw_close :: "'w writer \<Rightarrow> ('w cpio_writer, unit) io" where
  "cw_close W =
     io_bind (write_header W (header0\<lparr>h_name := trailer\<rparr>) 1) (\<lambda>_ cw.
       let pad = pad_to 512 (cw_pos cw)
       in if pad > 0
          then (case W (zeros pad) (cw_w cw) of
                  ((_, err), w') \<Rightarrow> (case err of None \<Rightarrow> Inr () | Some e \<Rightarrow> Inl e, cw\<lparr>cw_w := w'\<rparr>))
          else (Inr (), cw))"

text \<open>A program using the writer: a list of calls, then \<open>Close\<close>.\<close>

datatype cpio_op =
    OpFile header string
  | OpDir string u32
  | OpSymlink string string u32
  | OpNod string u32 u32 u32

fun run_op :: "'w writer \<Rightarrow> cpio_op \<Rightarrow> ('w cpio_writer, unit) io" where
  "run_op W (OpFile h data) = write_file W h data"
| "run_op W (OpDir name mode) = write_dir W name mode"
| "run_op W (OpSymlink name target mode) = write_symlink W name target mode"
| "run_op W (OpNod name mode major minor) = write_nod W name mode major minor"

definition write_archive :: "'w writer \<Rightarrow> cpio_op list \<Rightarrow> 'w \<Rightarrow> (error + unit) \<times> 'w" where
  "write_archive W ops w =
     (case io_bind (io_each (run_op W) ops) (\<lambda>_. cw_close W) (new_writer w) of (r, cw) \<Rightarrow> (r, cw_w cw))"

section \<open>The format\<close>

definition pad_len :: "nat \<Rightarrow> nat \<Rightarrow> nat" where
  "pad_len m n = (m - n mod m) mod m"

definition padded :: "nat \<Rightarrow> string \<Rightarrow> string" where
  "padded m b = b @ zeros (pad_len m (length b))"

definition enc_header :: "u32 \<Rightarrow> header \<Rightarrow> u32 \<Rightarrow> u32 \<Rightarrow> string" where
  "enc_header ino h rmaj rmin =
     padded 4 (magic @ concat (map fmt_08x (header_fields ino h 1 rmaj rmin)) @ h_name h @ zeros 1)"

text \<open>The header and the payload of each call.\<close>

fun op_header :: "cpio_op \<Rightarrow> header" where
  "op_header (OpFile h data) = h\<lparr>h_size := of_nat (length data)\<rparr>"
| "op_header (OpDir name mode) = header0\<lparr>h_name := name, h_mode := 0x4000 OR (mode AND 0xFFF)\<rparr>"
| "op_header (OpSymlink name target mode) =
     header0\<lparr>h_name := name, h_mode := 0xA000 OR (mode AND 0xFFF), h_size := of_nat (length target)\<rparr>"
| "op_header (OpNod name mode major minor) = header0\<lparr>h_name := name, h_mode := mode\<rparr>"

fun op_data :: "cpio_op \<Rightarrow> string" where
  "op_data (OpFile h data) = data"
| "op_data (OpSymlink name target mode) = target"
| "op_data _ = []"

fun op_rdev :: "cpio_op \<Rightarrow> u32 \<times> u32" where
  "op_rdev (OpNod name mode major minor) = (major, minor)"
| "op_rdev _ = (0, 0)"

definition enc_op :: "u32 \<Rightarrow> cpio_op \<Rightarrow> string" where
  "enc_op ino op =
     (case op_rdev op of (rmaj, rmin) \<Rightarrow> enc_header ino (op_header op) rmaj rmin) @ padded 4 (op_data op)"

fun enc_ops :: "u32 \<Rightarrow> cpio_op list \<Rightarrow> string" where
  "enc_ops ino [] = []"
| "enc_ops ino (op # ops) = enc_op (ino + 1) op @ enc_ops (ino + 1) ops"

definition enc_archive :: "cpio_op list \<Rightarrow> string" where
  "enc_archive ops =
     padded 512 (enc_ops 721 ops @ enc_header (722 + of_nat (length ops)) (header0\<lparr>h_name := trailer\<rparr>) 0 0)"

section \<open>Padding\<close>

lemma length_zeros [simp]: "length (zeros n) = n"
  by (simp add: zeros_def)

lemma zeros_0 [simp]: "zeros 0 = []"
  by (simp add: zeros_def)

lemma smod_nonneg: "0 \<le> k \<Longrightarrow> 0 < l \<Longrightarrow> k smod l = k mod (l :: int)"
  by (simp add: signed_modulo_int_def sgn_if)

lemma sint_of_small: "n < 2 ^ 63 \<Longrightarrow> sint (of_nat n :: u64) = int n"
  by (simp add: signed_of_nat signed_take_bit_int_eq_self)

lemma smod_of_nat: "0 < m \<Longrightarrow> int k smod int m = int (k mod m)"
  by (simp add: smod_nonneg of_nat_mod)

lemma pad_to_len:
  assumes "n < 2 ^ 63" and "0 < m"
  shows "pad_to m (of_nat n) = pad_len m n"
proof -
  have "int m - int (n mod m) = int (m - n mod m)"
    using assms(2) mod_le_divisor [of m n] by (simp add: of_nat_diff)
  then show ?thesis
    unfolding pad_to_def pad_len_def sint_of_small [OF assms(1)] smod_of_nat [OF assms(2)]
    by (simp only: smod_of_nat [OF assms(2)] nat_int)
qed

lemma length_padded:
  assumes "0 < m"
  shows "length (padded m b) mod m = 0"
proof (cases "length b mod m = 0")
  case False
  have "length b + (m - length b mod m) = m * (length b div m) + m"
    using assms mult_div_mod_eq [of m "length b"] mod_less_divisor [of m "length b"] by linarith
  then have "(length b + (m - length b mod m)) mod m = 0" by simp
  moreover have "(m - length b mod m) mod m = m - length b mod m"
    using False assms by simp
  ultimately show ?thesis by (simp only: padded_def pad_len_def length_append length_zeros)
qed (simp add: padded_def pad_len_def)

lemma padded_append: "length a mod m = 0 \<Longrightarrow> a @ padded m b = padded m (a @ b)"
  by (simp add: padded_def pad_len_def mod_add_left_eq [symmetric])

lemma length_padded_le: "0 < m \<Longrightarrow> length (padded m b) \<le> length b + m"
  by (simp add: padded_def pad_len_def less_imp_le)

lemma aligned_append: "length a mod 4 = 0 \<Longrightarrow> length b mod 4 = 0 \<Longrightarrow> length (a @ b) mod (4 :: nat) = 0"
  by (simp add: mod_add_eq [symmetric])

lemmas aligned_length = aligned_append [unfolded length_append]

lemma enc_aligned: "length (enc_header ino h rmaj rmin) mod 4 = 0" "length (enc_op ino op) mod 4 = 0"
  unfolding enc_op_def enc_header_def
  by (auto intro!: length_padded aligned_length split: prod.splits)

section \<open>What reaches the writer underneath\<close>

context byte_sink
begin

definition at :: "string \<Rightarrow> u32 \<Rightarrow> 'w cpio_writer \<Rightarrow> bool" where
  "at b ino cw \<longleftrightarrow> has b (cw_w cw) \<and> cw_pos cw = of_nat (length b) \<and> cw_ino cw = ino"

definition stopped :: "string \<Rightarrow> error \<Rightarrow> 'w cpio_writer \<Rightarrow> bool" where
  "stopped T e cw \<longleftrightarrow> (\<exists>d. prefix d T \<and> part d (cw_w cw))"

lemma cw_write_triple:
  assumes "prefix (b @ c) T"
  shows "triple (at b ino) (cw_write W c) (\<lambda>_. at (b @ c) ino) (stopped T)"
  unfolding triple_def
proof (intro allI impI)
  fix cw assume cw: "at b ino cw"
  obtain n err w' where W: "W c (cw_w cw) = ((n, err), w')" by (metis prod.exhaust)
  show "case cw_write W c cw of (Inl e, s') \<Rightarrow> stopped T e s' | (Inr x, s') \<Rightarrow> at (b @ c) ino s'"
  proof (cases err)
    case None
    with cw W write_ok [of b "cw_w cw" c n w'] show ?thesis
      by (auto simp: cw_write_def at_def)
  next
    case (Some e)
    with cw W write_err [of b "cw_w cw" c n e w'] obtain d where "prefix d c" "part (b @ d) w'"
      by (auto simp: at_def)
    moreover have "prefix (b @ d) T"
      using \<open>prefix d c\<close> assms by (meson prefix_order.trans same_prefix_prefix)
    ultimately show ?thesis using W Some by (auto simp: cw_write_def stopped_def)
  qed
qed

lemma pad4_triple:
  assumes "prefix (padded 4 b) T" and "length b < 2 ^ 63"
  shows "triple (at b ino) (pad4 W) (\<lambda>_. at (padded 4 b) ino) (stopped T)"
proof -
  have "at b ino cw \<Longrightarrow> pad4 W cw =
      (if pad_len 4 (length b) = 0 then (Inr (), cw) else cw_write W (zeros (pad_len 4 (length b))) cw)" for cw
    using assms(2) by (simp add: pad4_def at_def pad_to_len Let_def)
  with cw_write_triple [of b "zeros (pad_len 4 (length b))" T ino] assms(1) show ?thesis
    by (cases "pad_len 4 (length b) = 0") (auto simp: triple_def padded_def)
qed

lemma write_header_full_triple:
  assumes al: "length b mod 4 = 0" and T: "prefix (b @ enc_header (ino + 1) h rmaj rmin) T" "length T < 2 ^ 63"
  shows "triple (at b ino) (write_header_full W h 1 rmaj rmin)
    (\<lambda>_. at (b @ enc_header (ino + 1) h rmaj rmin) (ino + 1)) (stopped T)"
proof -
  let ?hdr = "magic @ concat (map fmt_08x (header_fields (ino + 1) h 1 rmaj rmin))"
  have enc: "b @ enc_header (ino + 1) h rmaj rmin = padded 4 (((b @ ?hdr) @ h_name h) @ zeros 1)"
    unfolding enc_header_def padded_append [OF al] by simp
  have pre: "prefix x (padded 4 y) \<Longrightarrow> prefix (padded 4 y) T \<Longrightarrow> prefix x T" for x y
    by (rule prefix_order.trans)
  have body: "triple (at b (ino + 1))
      (io_bind (cw_write W ?hdr) (\<lambda>_. io_bind (cw_write W (h_name h)) (\<lambda>_.
        io_bind (cw_write W (zeros 1)) (\<lambda>_. pad4 W))))
      (\<lambda>_. at (padded 4 (((b @ ?hdr) @ h_name h) @ zeros 1)) (ino + 1)) (stopped T)"
    using T pre [of _ "((b @ ?hdr) @ h_name h) @ zeros 1"] prefix_length_le [of "padded 4 (((b @ ?hdr) @ h_name h) @ zeros 1)" T]
    unfolding enc
    by (intro triple_bind [OF cw_write_triple] pad4_triple) (auto simp: padded_def prefix_def)
  have "at b ino cw \<Longrightarrow> at b (ino + 1) (cw\<lparr>cw_ino := cw_ino cw + 1\<rparr>) \<and> cw_ino cw = ino" for cw
    by (simp add: at_def)
  with body show ?thesis
    unfolding enc triple_def write_header_full_def Let_def by fastforce
qed

lemma write_body_triple:
  assumes al: "length b mod 4 = 0" and T: "prefix (b @ padded 4 data) T" "length T < 2 ^ 63"
  shows "triple (at b ino) (write_body W data) (\<lambda>_. at (b @ padded 4 data) ino) (stopped T)"
proof -
  have "prefix (b @ data) T"
    using T(1) by (auto simp: padded_def prefix_def)
  moreover have "prefix (padded 4 (b @ data)) T" using T(1) by (simp add: padded_append [OF al])
  moreover have "length (b @ data) < 2 ^ 63"
    using T prefix_length_le [OF T(1)] by (simp add: padded_def)
  ultimately show ?thesis
    unfolding write_body_def padded_append [OF al]
    by (intro triple_bind [OF cw_write_triple] pad4_triple)
qed

lemma header_body_triple:
  assumes al: "length b mod 4 = 0"
    and T: "prefix (b @ enc_header (ino + 1) h 0 0 @ padded 4 data) T" "length T < 2 ^ 63"
  shows "triple (at b ino) (io_bind (write_header W h 1) (\<lambda>_. write_body W data))
    (\<lambda>_. at (b @ enc_header (ino + 1) h 0 0 @ padded 4 data) (ino + 1)) (stopped T)"
proof -
  let ?b = "b @ enc_header (ino + 1) h 0 0"
  have "length ?b mod 4 = 0" using al enc_aligned(1) by (intro aligned_append)
  moreover have "prefix ?b T" using T(1) by (auto simp: prefix_def)
  ultimately show ?thesis
    using T write_body_triple [of ?b data T "ino + 1"]
    unfolding write_header_def append_assoc [symmetric]
    by (intro triple_bind [OF write_header_full_triple [OF al]]) simp_all
qed

lemma run_op_triple:
  assumes al: "length b mod 4 = 0" and T: "prefix (b @ enc_op (ino + 1) op) T" "length T < 2 ^ 63"
  shows "triple (at b ino) (run_op W op) (\<lambda>_. at (b @ enc_op (ino + 1) op) (ino + 1)) (stopped T)"
proof -
  have empty: "padded 4 [] = []" by (simp add: padded_def pad_len_def)
  show ?thesis
  proof (cases op)
    case (OpFile h data)
    with header_body_triple [OF al, of ino "op_header op" data T] T show ?thesis
      by (simp add: write_file_def enc_op_def Let_def)
  next
    case (OpDir name mode)
    with write_header_full_triple [OF al, of ino "op_header op" 0 0 T] T show ?thesis
      by (simp add: write_dir_def write_header_def enc_op_def empty)
  next
    case (OpSymlink name target mode)
    with header_body_triple [OF al, of ino "op_header op" target T] T show ?thesis
      by (simp add: write_symlink_def enc_op_def)
  next
    case (OpNod name mode major minor)
    with write_header_full_triple [OF al, of ino "op_header op" major minor T] T show ?thesis
      by (simp add: write_nod_def enc_op_def empty)
  qed
qed

lemma run_ops_triple:
  "length b mod 4 = 0 \<Longrightarrow> prefix (b @ enc_ops ino ops) T \<Longrightarrow> length T < 2 ^ 63 \<Longrightarrow>
   triple (at b ino) (io_each (run_op W) ops)
     (\<lambda>_. at (b @ enc_ops ino ops) (ino + of_nat (length ops))) (stopped T)"
proof (induction ops arbitrary: b ino)
  case Nil
  then show ?case by (simp add: triple_return)
next
  case (Cons op ops)
  let ?b = "b @ enc_op (ino + 1) op"
  have "triple (at ?b (ino + 1)) (io_each (run_op W) ops)
      (\<lambda>_. at (?b @ enc_ops (ino + 1) ops) (ino + 1 + of_nat (length ops))) (stopped T)"
    using Cons.prems by (intro Cons.IH aligned_append enc_aligned) simp_all
  moreover have "prefix ?b T" using Cons.prems(2) by (auto simp: prefix_def)
  ultimately show ?case
    using Cons.prems run_op_triple [of b ino op T]
    by (auto simp: ac_simps intro!: triple_bind)
qed

lemma close_triple:
  assumes al: "length b mod 4 = 0"
    and T: "T = padded 512 (b @ enc_header (ino + 1) (header0\<lparr>h_name := trailer\<rparr>) 0 0)" "length T < 2 ^ 63"
  shows "triple (at b ino) (cw_close W) (\<lambda>_ cw. has T (cw_w cw)) (stopped T)"
proof -
  let ?b = "b @ enc_header (ino + 1) (header0\<lparr>h_name := trailer\<rparr>) 0 0"
  let ?pad = "pad_len 512 (length ?b)"
  have len: "length ?b < 2 ^ 63" using T by (simp add: padded_def)
  have tail: "triple (at ?b (ino + 1))
     (\<lambda>cw. let pad = pad_to 512 (cw_pos cw)
       in if pad > 0
          then (case W (zeros pad) (cw_w cw) of
                  ((_, err), w') \<Rightarrow> (case err of None \<Rightarrow> Inr () | Some e \<Rightarrow> Inl e, cw\<lparr>cw_w := w'\<rparr>))
          else (Inr (), cw))
     (\<lambda>_ cw. has T (cw_w cw)) (stopped T)" (is "triple _ ?m _ _")
    unfolding triple_def
  proof (intro allI impI)
    fix cw assume cw: "at ?b (ino + 1) cw"
    then have "cw_pos cw = of_nat (length ?b)" by (simp only: at_def)
    then have pad: "pad_to 512 (cw_pos cw) = ?pad" using pad_to_len [OF len, of 512] by simp
    obtain n err w' where W: "W (zeros ?pad) (cw_w cw) = ((n, err), w')" by (metis prod.exhaust)
    have hb: "has ?b (cw_w cw)" using cw by (simp add: at_def)
    show "case ?m cw of (Inl e, s') \<Rightarrow> stopped T e s' | (Inr x, s') \<Rightarrow> has T (cw_w s')"
    proof (cases "?pad = 0")
      case True
      with hb T(1) pad show ?thesis by (simp add: padded_def)
    next
      case False
      show ?thesis
      proof (cases err)
        case None
        with W write_ok [OF hb, of "zeros ?pad" n w'] False T(1) pad show ?thesis
          by (simp add: padded_def Let_def)
      next
        case (Some e)
        with W write_err [OF hb, of "zeros ?pad" n e w'] obtain d where "prefix d (zeros ?pad)" "part (?b @ d) w'"
          by auto
        moreover have "prefix (?b @ d) T" using \<open>prefix d (zeros ?pad)\<close> by (simp add: T(1) padded_def)
        ultimately show ?thesis using W Some False pad by (auto simp: stopped_def Let_def)
      qed
    qed
  qed
  have "prefix ?b T" by (simp add: T(1) padded_def)
  with T(2) tail show ?thesis
    unfolding cw_close_def write_header_def
    by (intro triple_bind [OF write_header_full_triple [OF al]]) simp_all
qed

lemma write_archive_reaches:
  assumes "has [] w" and "length (enc_archive ops) < 2 ^ 63"
  shows "case write_archive W ops w of
      (Inr _, w') \<Rightarrow> has (enc_archive ops) w'
    | (Inl e, w') \<Rightarrow> \<exists>d. prefix d (enc_archive ops) \<and> part d w'"
proof -
  let ?T = "enc_archive ops"
  have "prefix (enc_ops 721 ops) ?T" by (simp add: enc_archive_def padded_def)
  with assms(2) have ops: "triple (at [] 721) (io_each (run_op W) ops)
      (\<lambda>_. at (enc_ops 721 ops) (721 + of_nat (length ops))) (stopped ?T)"
    using run_ops_triple [of "[]" 721 ops ?T] by simp
  have "length (enc_ops ino ops) mod 4 = 0" for ino
    by (induction ops arbitrary: ino) (simp_all add: enc_aligned aligned_length)
  then have "triple (at (enc_ops 721 ops) (721 + of_nat (length ops))) (cw_close W)
      (\<lambda>_ cw. has ?T (cw_w cw)) (stopped ?T)"
    using assms(2) by (intro close_triple) (simp_all add: enc_archive_def ac_simps)
  with ops have "triple (at [] 721) (io_bind (io_each (run_op W) ops) (\<lambda>_. cw_close W))
      (\<lambda>_ cw. has ?T (cw_w cw)) (stopped ?T)"
    by (rule triple_bind)
  then show ?thesis
    using assms(1) tripleD [of "at [] 721" _ _ _ "new_writer w"]
    by (fastforce simp: at_def new_writer_def write_archive_def stopped_def split: prod.splits sum.splits)
qed

end

lemma enc_archive_ops:
  "enc_archive ops = padded 512 (enc_ops 721 ops @ enc_op (722 + of_nat (length ops)) (OpNod trailer 0 0 0))"
  by (simp add: enc_archive_def enc_op_def padded_def pad_len_def header0_def)

text \<open>The length of the archive, computed from the lengths of names and payloads.\<close>

definition op_size :: "cpio_op \<Rightarrow> nat" where
  "op_size op =
     (let n = 111 + length (h_name (op_header op)); d = length (op_data op)
      in n + pad_len 4 n + (d + pad_len 4 d))"

definition archive_size :: "cpio_op list \<Rightarrow> nat" where
  "archive_size ops =
     (let n = sum_list (map op_size ops) + op_size (OpNod trailer 0 0 0) in n + pad_len 512 n)"

lemma length_fields [simp]: "length magic = 6"
  "length (concat (map fmt_08x (header_fields ino h nlink rmaj rmin))) = 104"
  by (simp_all add: magic_def header_fields_def)

lemma length_enc_op: "length (enc_op ino op) = op_size op"
  by (auto simp: enc_op_def enc_header_def padded_def op_size_def Let_def add_ac simp del: length_concat
      split: prod.splits)

lemma enc_archive_size: "length (enc_archive ops) = archive_size ops"
proof -
  have "length (enc_ops ino ops) = sum_list (map op_size ops)" for ino
    by (induction ops arbitrary: ino) (simp_all add: length_enc_op)
  then show ?thesis
    by (simp add: enc_archive_ops padded_def archive_size_def Let_def length_enc_op)
qed

section \<open>Two writers\<close>

text \<open>A \<open>bytes.Buffer\<close>, which accepts everything.\<close>

definition buffer_write :: "string writer" where
  "buffer_write b w = ((length b, None), w @ b)"

interpretation buffer: byte_sink buffer_write "\<lambda>b w. w = b" "\<lambda>_ _. False"
  by unfold_locales (auto simp: buffer_write_def)

definition buffer_archive :: "cpio_op list \<Rightarrow> (error + unit) \<times> string" where
  "buffer_archive ops = write_archive buffer_write ops []"

lemma buffer_archive_run:
  assumes "length (enc_archive ops) < 2 ^ 63"
  shows "buffer_archive ops = (Inr (), enc_archive ops)"
  using buffer.write_archive_reaches [of "[]" ops] assms
  by (auto simp: buffer_archive_def split: prod.splits sum.splits)

text \<open>
  Accepts at most \<open>lw_room\<close> more bytes and fails from then on, as a full disk does.
\<close>

record limit_writer =
  lw_out :: string
  lw_room :: nat

definition limit_write :: "limit_writer writer" where
  "limit_write b w =
     (let k = min (length b) (lw_room w)
      in ((k, if k < length b then Some (Errorf ''boom'' []) else None),
          w\<lparr>lw_out := lw_out w @ take k b, lw_room := lw_room w - k\<rparr>))"

interpretation limited: byte_sink limit_write
  "\<lambda>b w. lw_out w = b \<and> length b + lw_room w = N"
  "\<lambda>b w. lw_out w = b \<and> length b = N" for N
  by unfold_locales (auto simp: limit_write_def Let_def take_is_prefix min_def split: if_splits)

definition limited_archive :: "nat \<Rightarrow> cpio_op list \<Rightarrow> (error + unit) \<times> string" where
  "limited_archive room ops =
     (case write_archive limit_write ops \<lparr>lw_out = [], lw_room = room\<rparr> of (r, w) \<Rightarrow> (r, lw_out w))"

lemma limited_archive_reaches:
  assumes "length (enc_archive ops) < 2 ^ 63"
  shows "case limited_archive room ops of
      (Inr _, b) \<Rightarrow> b = enc_archive ops \<and> length b \<le> room
    | (Inl e, b) \<Rightarrow> prefix b (enc_archive ops) \<and> length b = room"
  using limited.write_archive_reaches [of "\<lparr>lw_out = [], lw_room = room\<rparr>" room ops] assms
  by (auto simp: limited_archive_def split: prod.splits sum.splits)

end
