(* ===== verification/Cpio_Read.thy ===== *)
theory Cpio_Read
  imports Cpio
begin

text \<open>
  A reader of \<open>newc\<close> archives, as the kernel's unpacker and the repository's own test read them,
  and that it reads back what the writer wrote.
\<close>

section \<open>The reader\<close>

record newc_entry =
  n_ino :: nat
  n_mode :: nat
  n_uid :: nat
  n_gid :: nat
  n_nlink :: nat
  n_mtim :: nat
  n_rdev :: "nat \<times> nat"
  n_name :: string
  n_data :: string

fun parse_fields :: "nat \<Rightarrow> string \<Rightarrow> nat list option" where
  "parse_fields 0 s = Some []"
| "parse_fields (Suc k) s =
     (case nat_of_hex (take 8 s) of
        None \<Rightarrow> None
      | Some v \<Rightarrow> map_option ((#) v) (parse_fields k (drop 8 s)))"

definition parse_entry :: "string \<Rightarrow> (newc_entry \<times> string) option" where
  "parse_entry s =
     (if length s < 110 \<or> take 6 s \<noteq> magic then None
      else case parse_fields 13 (drop 6 s) of
        Some [ino, mode, uid, gid, nlink, mtim, dsize, _, _, rmaj, rmin, nlen, _] \<Rightarrow>
          (let hlen = 110 + nlen + pad_len 4 (110 + nlen);
               dlen = dsize + pad_len 4 dsize
           in if nlen = 0 \<or> length s < hlen + dlen then None
              else Some (\<lparr>n_ino = ino, n_mode = mode, n_uid = uid, n_gid = gid, n_nlink = nlink,
                          n_mtim = mtim, n_rdev = (rmaj, rmin),
                          n_name = take (nlen - 1) (drop 110 s),
                          n_data = take dsize (drop hlen s)\<rparr>,
                         drop (hlen + dlen) s))
      | _ \<Rightarrow> None)"

fun parse_newc :: "nat \<Rightarrow> string \<Rightarrow> newc_entry list option" where
  "parse_newc 0 s = None"
| "parse_newc (Suc fuel) s =
     (case parse_entry s of
        None \<Rightarrow> None
      | Some (e, r) \<Rightarrow> if n_name e = trailer then Some [] else map_option ((#) e) (parse_newc fuel r))"

definition read_archive :: "string \<Rightarrow> newc_entry list option" where
  "read_archive s = parse_newc (Suc (length s)) s"

section \<open>Reading what was written\<close>

lemma parse_fields_enc:
  "parse_fields (length ws) (concat (map fmt_08x ws) @ r) = Some (map unat ws)"
  by (induction ws) auto

definition entry_of :: "u32 \<Rightarrow> cpio_op \<Rightarrow> newc_entry" where
  "entry_of ino op =
     \<lparr>n_ino = unat ino, n_mode = unat (h_mode (op_header op)), n_uid = unat (h_uid (op_header op)),
      n_gid = unat (h_gid (op_header op)), n_nlink = 1, n_mtim = unat (h_mtim (op_header op)),
      n_rdev = map_prod unat unat (op_rdev op), n_name = h_name (op_header op), n_data = op_data op\<rparr>"

fun newc_entries :: "u32 \<Rightarrow> cpio_op list \<Rightarrow> newc_entry list" where
  "newc_entries ino [] = []"
| "newc_entries ino (op # ops) = entry_of (ino + 1) op # newc_entries (ino + 1) ops"

text \<open>Names and payloads the 32-bit size fields can express.\<close>

definition op_fits :: "cpio_op \<Rightarrow> bool" where
  "op_fits op = (length (h_name (op_header op)) + 1 < 2 ^ 32 \<and> length (op_data op) < 2 ^ 32)"

lemma size_field: "h_size (op_header op) = of_nat (length (op_data op))"
  by (cases op) (auto simp: header0_def)

lemma unat_len: "n < 2 ^ 32 \<Longrightarrow> unat (of_nat n :: u32) = n"
  by (simp add: unat_of_nat)

lemma unat_len_Suc: "n + 1 < 2 ^ 32 \<Longrightarrow> unat (of_nat n + 1 :: u32) = n + 1"
  using unat_len [of "n + 1"] by (simp add: add.commute)

text \<open>
  An entry as it is read when only its name is known to fit: the size field holds the length of the
  payload modulo \<open>2^32\<close>, and the reader takes that many bytes and goes on after them.
\<close>

definition size_of_field :: "string \<Rightarrow> nat" where
  "size_of_field data = length data mod 2 ^ 32"

lemma pad_len_mono: "n \<le> m \<Longrightarrow> n + pad_len 4 n \<le> m + pad_len 4 m"
proof (rule lift_Suc_mono_le [of "\<lambda>n. n + pad_len 4 n"])
  fix k :: nat
  have "k mod 4 \<in> {0, 1, 2, 3}" using mod_less_divisor [of 4 k] by auto
  then show "k + pad_len 4 k \<le> Suc k + pad_len 4 (Suc k)"
    by (auto simp: pad_len_def mod_Suc)
qed

lemma parse_entry_wraps:
  assumes "length (h_name (op_header op)) + 1 < 2 ^ 32"
  shows "parse_entry (enc_op ino op @ r) =
    Some ((entry_of ino op)\<lparr>n_data := take (size_of_field (op_data op)) (op_data op)\<rparr>,
      drop (size_of_field (op_data op) + pad_len 4 (size_of_field (op_data op))) (padded 4 (op_data op) @ r))"
proof -
  obtain rmaj rmin where rdev: "op_rdev op = (rmaj, rmin)" by fastforce
  let ?h = "op_header op" and ?n = "size_of_field (op_data op)"
  let ?fs = "header_fields ino ?h 1 rmaj rmin"
  let ?name = "h_name ?h"
  define body where "body = ?name @ zeros 1 @ zeros (pad_len 4 (110 + (length ?name + 1)))"
  define data where "data = padded 4 (op_data op)"
  have fs: "parse_fields 13 (concat (map fmt_08x ?fs) @ x) = Some (map unat ?fs)" for x
  proof -
    have "length ?fs = 13" by (simp add: header_fields_def)
    with parse_fields_enc [of ?fs x] show ?thesis by (simp only:)
  qed
  have len: "length (magic @ concat (map fmt_08x ?fs)) = 110"
    unfolding length_append length_fields by simp
  have enc: "enc_op ino op @ r = magic @ concat (map fmt_08x ?fs) @ body @ data @ r"
    by (simp add: enc_op_def rdev enc_header_def body_def data_def padded_def add_ac del: length_concat)
  define S where "S = enc_op ino op @ r"
  have lens: "110 + (length ?name + 1) + pad_len 4 (110 + (length ?name + 1)) = 110 + length body"
      "?n + pad_len 4 ?n \<le> length data"
    using pad_len_mono [of ?n "length (op_data op)"] by (simp_all add: body_def data_def padded_def size_of_field_def)
  have s110: "drop 110 S = body @ data @ r"
    using len unfolding S_def enc append_assoc [symmetric] by simp
  then have drops: "drop (110 + length body) S = data @ r"
    by (simp only: add.commute [of 110] drop_drop [symmetric]) simp
  then have rest: "drop (110 + length body + k) S = drop k (data @ r)" for k
    by (metis add.commute drop_drop)
  have "length S = 110 + length (drop 110 S)" using len by (simp add: S_def enc)
  then have total: "length S = 110 + length body + length data + length r" by (simp add: s110)
  have sizes: "unat (of_nat (length (op_data op)) :: u32) = ?n" "unat (of_nat (length ?name) + 1 :: u32) = length ?name + 1"
    using assms by (simp_all add: size_of_field_def unat_of_nat unat_len_Suc del: One_nat_def)
  have fields: "parse_fields 13 (drop 6 S) =
      Some [unat ino, unat (h_mode ?h), unat (h_uid ?h), unat (h_gid ?h), 1, unat (h_mtim ?h),
            ?n, 0, 0, unat rmaj, unat rmin, length ?name + 1, 0]"
    unfolding S_def enc using fs by (simp add: magic_def header_fields_def size_field sizes)
  have guard: "take 6 S = magic" "\<not> length S < 110" "\<not> length S < 110 + length body + (?n + pad_len 4 ?n)"
    using total lens(2) by (simp_all add: S_def enc)
  have "take (length ?name + 1 - 1) (drop 110 S) = ?name" by (simp add: s110 body_def)
  moreover have "take ?n (drop (110 + length body) S) = take ?n (op_data op)"
    unfolding drops by (simp add: data_def padded_def size_of_field_def)
  ultimately have "parse_entry S = Some ((entry_of ino op)\<lparr>n_data := take ?n (op_data op)\<rparr>, drop (?n + pad_len 4 ?n) (data @ r))"
    unfolding parse_entry_def fields option.case list.case Let_def lens(1) rest using guard
    by (simp add: entry_of_def rdev)
  then show ?thesis by (simp only: S_def data_def)
qed

lemma parse_entry_enc:
  assumes "op_fits op"
  shows "parse_entry (enc_op ino op @ r) = Some (entry_of ino op, r)"
proof -
  have "length (h_name (op_header op)) + 1 < 2 ^ 32" "size_of_field (op_data op) = length (op_data op)"
    using assms by (simp_all add: op_fits_def size_of_field_def)
  with parse_entry_wraps [of op ino r] show ?thesis
    by (simp add: padded_def entry_of_def)
qed

lemma enc_op_nonempty: "enc_op ino op \<noteq> []"
  by (cases "op_rdev op") (simp add: enc_op_def enc_header_def padded_def magic_def)

lemma length_enc_ops: "length ops \<le> length (enc_ops ino ops)"
proof (induction ops arbitrary: ino)
  case (Cons op ops)
  have "0 < length (enc_op (ino + 1) op)" using enc_op_nonempty by (rule length_greater_0_conv [THEN iffD2])
  with Cons [of "ino + 1"] show ?case by (simp del: length_greater_0_conv)
qed simp

lemma parse_newc_enc:
  "list_all op_fits ops \<Longrightarrow> list_all (\<lambda>op. h_name (op_header op) \<noteq> trailer) ops \<Longrightarrow> length ops < fuel \<Longrightarrow>
   parse_newc fuel (enc_ops ino ops @ enc_op i (OpNod trailer 0 0 0) @ r) = Some (newc_entries ino ops)"
proof (induction ops arbitrary: fuel ino)
  case Nil
  have "op_fits (OpNod trailer 0 0 0)" by (simp add: op_fits_def header0_def trailer_def)
  with Nil parse_entry_enc [of "OpNod trailer 0 0 0" i r] show ?case
    by (cases fuel) (simp_all add: entry_of_def header0_def)
next
  case (Cons op ops)
  from Cons.prems(3) obtain k where k: "fuel = Suc k" "length ops < k" by (cases fuel) auto
  with Cons.prems Cons.IH [of k "ino + 1"] parse_entry_enc [of op "ino + 1"]
  show ?case by (simp add: entry_of_def)
qed

lemma read_archive_enc:
  assumes "list_all op_fits ops" and "list_all (\<lambda>op. h_name (op_header op) \<noteq> trailer) ops"
  shows "read_archive (enc_archive ops) = Some (newc_entries 721 ops)"
  unfolding read_archive_def enc_archive_ops padded_def append_assoc
  using assms length_enc_ops [of ops 721] by (intro parse_newc_enc) simp_all

text \<open>
  C7. Round trip: whatever sequence of files, directories, symbolic links and device nodes is
  written (names and payloads within the 32-bit size fields, no entry called like the trailer),
  the calls succeed on a buffer, the archive is a multiple of 512 bytes long, and reading it gives
  the entries back in order with their inode numbers counting up from 722, modes, owners, times,
  device numbers, names and contents.
\<close>

theorem archive_roundtrip:
  assumes "list_all op_fits ops" and "list_all (\<lambda>op. h_name (op_header op) \<noteq> trailer) ops"
    and "archive_size ops < 2 ^ 63"
  shows "\<exists>b. buffer_archive ops = (Inr (), b) \<and> length b mod 512 = 0
    \<and> read_archive b = Some (newc_entries 721 ops)"
proof -
  note read_archive_enc [OF assms(1,2)]
  moreover have "length (enc_archive ops) mod 512 = 0"
    unfolding enc_archive_def by (rule length_padded) simp
  ultimately show ?thesis using buffer_archive_run assms(3) by (auto simp: enc_archive_size)
qed

text \<open>
  C40. A writer that runs out of room: the call sequence either succeeds with exactly the archive
  written, or stops with an error after a prefix of it; it never reports success for less.
\<close>

theorem archive_no_silent_truncation:
  assumes "archive_size ops < 2 ^ 63"
  shows "case limited_archive room ops of
      (Inr _, b) \<Rightarrow> b = enc_archive ops \<and> length b \<le> room
    | (Inl e, b) \<Rightarrow> prefix b (enc_archive ops) \<and> length b = room"
  using limited_archive_reaches assms by (simp only: enc_archive_size)

definition sample_ops :: "cpio_op list" where
  "sample_ops =
     [OpDir ''etc'' 0x1ED, OpFile (header0\<lparr>h_name := ''etc/hello'', h_mode := 0x81A4\<rparr>) ''hi'',
      OpSymlink ''l'' ''etc/hello'' 0x1FF, OpNod ''null'' 0x21B6 1 3]"

lemma sample_ops_size: "archive_size sample_ops = 1024"
  by (simp add: archive_size_def op_size_def sample_ops_def header0_def trailer_def pad_len_def Let_def)

theorem archive_roundtrip_witness:
  "\<exists>b. buffer_archive sample_ops = (Inr (), b) \<and> length b mod 512 = 0
    \<and> read_archive b = Some (newc_entries 721 sample_ops)"
proof -
  have "list_all op_fits sample_ops"
      "list_all (\<lambda>op. h_name (op_header op) \<noteq> trailer) sample_ops"
    by (simp_all add: op_fits_def sample_ops_def header0_def trailer_def)
  moreover have "archive_size sample_ops < 2 ^ 63" using sample_ops_size by simp
  ultimately show ?thesis by (rule archive_roundtrip)
qed

theorem archive_no_silent_truncation_witness:
  "case limited_archive 100 sample_ops of
      (Inr _, b) \<Rightarrow> b = enc_archive sample_ops \<and> length b \<le> 100
    | (Inl e, b) \<Rightarrow> prefix b (enc_archive sample_ops) \<and> length b = 100"
proof -
  have "archive_size sample_ops < 2 ^ 63" using sample_ops_size by simp
  then show ?thesis by (rule archive_no_silent_truncation)
qed

section \<open>Payloads that do not fit\<close>

lemma pad_len_less: "0 < m \<Longrightarrow> pad_len m n < m"
  by (simp add: pad_len_def)

lemma op_size_le: "op_size op \<le> 119 + length (h_name (op_header op)) + length (op_data op)"
  using pad_len_less [of 4 "111 + length (h_name (op_header op))"] pad_len_less [of 4 "length (op_data op)"]
  by (simp add: op_size_def Let_def)

text \<open>
  C35. The size of a file is written modulo \<open>2^32\<close>, and nothing is reported: for a file of any length
  the calls succeed, and the reader of the archive gets only as many bytes of it as the length modulo
  \<open>2^32\<close> says.
\<close>

theorem file_size_wraps:
  assumes "length (h_name h) + 1 < 2 ^ 32" and "length data < 2 ^ 62"
  shows "\<exists>out e r. buffer_archive [OpFile h data] = (Inr (), out) \<and> parse_entry out = Some (e, r)
    \<and> n_name e = h_name h \<and> n_data e = take (length data mod 2 ^ 32) data"
proof -
  have "archive_size [OpFile h data] < 2 ^ 63"
    using assms pad_len_less [of 512 "op_size (OpFile h data) + op_size (OpNod trailer 0 0 0)"]
      op_size_le [of "OpFile h data"] op_size_le [of "OpNod trailer 0 0 0"]
    by (simp add: archive_size_def Let_def header0_def trailer_def)
  then have "buffer_archive [OpFile h data] = (Inr (), enc_archive [OpFile h data])"
    by (intro buffer_archive_run) (simp add: enc_archive_size)
  moreover obtain r where "enc_archive [OpFile h data] = enc_op 722 (OpFile h data) @ r"
    by (auto simp: enc_archive_def padded_def)
  ultimately show ?thesis
    using parse_entry_wraps [of "OpFile h data" 722 r] assms(1) by (simp add: entry_of_def size_of_field_def)
qed

theorem file_size_wraps_witness:
  "\<exists>data out e r. length data = 2 ^ 32 + 1 \<and> buffer_archive [OpFile (header0\<lparr>h_name := ''big''\<rparr>) data] = (Inr (), out)
    \<and> parse_entry out = Some (e, r) \<and> length (n_data e) = 1"
proof -
  obtain data :: string where len: "length data = 2 ^ 32 + 1" using Ex_list_of_length by blast
  have "length (h_name (header0\<lparr>h_name := ''big''\<rparr>)) + 1 < 2 ^ 32" "length data < 2 ^ 62"
    unfolding len by (simp_all add: header0_def)
  from file_size_wraps [OF this] obtain out e r where
    "buffer_archive [OpFile (header0\<lparr>h_name := ''big''\<rparr>) data] = (Inr (), out)" "parse_entry out = Some (e, r)"
    "n_data e = take (length data mod 2 ^ 32) data" by blast
  moreover have "length (take (length data mod 2 ^ 32) data) = 1" by (simp add: len)
  ultimately show ?thesis using len by metis
qed

end
