(* ===== verification/Initbuild.thy ===== *)
theory Initbuild
  imports Cpio_Read Posix_Open
begin

unbundle bit_operations_syntax

text \<open>
  Building an initramfs (\<open>initbuild/initbuild.go\<close>): the files with their parent directories as a
  \<open>newc\<close> archive, compressed, written to a file.  \<open>compress/gzip\<close> is a parameter, described by the
  bytes it passes on for each chunk it is given and at the end; like Go's writer it fails for good
  once the writer underneath has failed.
\<close>

section \<open>The compressor\<close>

record 'g gzip_lib =
  gz_init :: 'g
  gz_step :: "'g \<Rightarrow> string \<Rightarrow> 'g \<times> string"
  gz_fin :: "'g \<Rightarrow> string"

record 'g gz_writer =
  gz_state :: 'g
  gz_err :: "error option"
  gz_world :: fs

definition gz_emit :: "fs writer \<Rightarrow> string \<Rightarrow> fs \<Rightarrow> error option \<times> fs" where
  "gz_emit W b s = (if b = [] then (None, s) else case W b s of ((_, err), s') \<Rightarrow> (err, s'))"

definition gz_write :: "'g gzip_lib \<Rightarrow> fs writer \<Rightarrow> 'g gz_writer writer" where
  "gz_write lib W c z =
     (case gz_err z of
        Some e \<Rightarrow> ((0, Some e), z)
      | None \<Rightarrow>
          (case gz_step lib (gz_state z) c of (g, b) \<Rightarrow>
           case gz_emit W b (gz_world z) of (err, s) \<Rightarrow>
             ((if err = None then length c else 0, err),
              z\<lparr>gz_state := g, gz_err := err, gz_world := s\<rparr>)))"

definition gz_close :: "'g gzip_lib \<Rightarrow> fs writer \<Rightarrow> ('g gz_writer, unit) io" where
  "gz_close lib W z =
     (case gz_err z of
        Some e \<Rightarrow> (Inl e, z)
      | None \<Rightarrow>
          (case gz_emit W (gz_fin lib (gz_state z)) (gz_world z) of (err, s) \<Rightarrow>
             (case err of None \<Rightarrow> Inr () | Some e \<Rightarrow> Inl e, z\<lparr>gz_err := err, gz_world := s\<rparr>)))"

section \<open>The code\<close>

record init_file =
  f_path :: string
  f_source :: string
  f_mode :: u32

definition parent_dirs :: "string \<Rightarrow> string list" where
  "parent_dirs p =
     (let parts = split_chr slash p
      in map (\<lambda>i. join_str ''/'' (take i parts)) [1 ..< length parts])"

type_synonym 'g packing = "'g gz_writer cpio_writer"

definition on_gz :: "('g gz_writer, 'a) io \<Rightarrow> ('g packing, 'a) io" where
  "on_gz = io_zoom cw_w (\<lambda>z cw. cw\<lparr>cw_w := z\<rparr>)"

definition on_world :: "(fs, 'a) io \<Rightarrow> ('g packing, 'a) io" where
  "on_world m = on_gz (io_zoom gz_world (\<lambda>s z. z\<lparr>gz_world := s\<rparr>) m)"

text \<open>\<open>_ = cw.Close(); _ = gz.Close()\<close>\<close>

definition abandon :: "'g gzip_lib \<Rightarrow> fs writer \<Rightarrow> ('g packing, unit) io" where
  "abandon lib W =
     io_bind (io_ignore (cw_close (gz_write lib W))) (\<lambda>_. io_ignore (on_gz (gz_close lib W)))"

fun write_dirs ::
  "'g gzip_lib \<Rightarrow> fs writer \<Rightarrow> string set \<Rightarrow> string list \<Rightarrow> ('g packing, unit) io" where
  "write_dirs lib W seen [] = io_return ()"
| "write_dirs lib W seen (d # ds) =
     (if d \<in> seen then write_dirs lib W seen ds
      else io_bind
        (io_cleanup (abandon lib W)
          (io_wrap (Wrapf ''write dir %s: %w'' [d]) (write_dir (gz_write lib W) d 0x1ED)))
        (\<lambda>_. write_dirs lib W (insert d seen) ds))"

definition pack_file :: "'g gzip_lib \<Rightarrow> fs writer \<Rightarrow> init_file \<Rightarrow> ('g packing, unit) io" where
  "pack_file lib W f =
     io_bind
       (io_cleanup (abandon lib W)
         (io_wrap (Wrapf ''read %s: %w'' [f_source f]) (on_world (os_read_file (f_source f))))) (\<lambda>b.
     let mode = (if f_mode f = 0 then 0x1ED else f_mode f)
     in io_cleanup (abandon lib W)
          (io_wrap (Wrapf ''write %s entry: %w'' [f_path f])
            (write_file (gz_write lib W) (header0\<lparr>h_name := f_path f, h_mode := 0x8000 OR mode\<rparr>) b)))"

definition pack_files :: "'g gzip_lib \<Rightarrow> init_file list \<Rightarrow> fs writer \<Rightarrow> (fs, unit) io" where
  "pack_files lib files W = (\<lambda>s.
     let cw = new_writer \<lparr>gz_state = gz_init lib, gz_err = None, gz_world = s\<rparr>
     in case (io_bind (write_dirs lib W {} (concat (map (\<lambda>f. parent_dirs (f_path f)) files))) (\<lambda>_.
              io_bind (io_each (pack_file lib W) files) (\<lambda>_.
              io_bind
                (io_cleanup (on_gz (gz_close lib W))
                  (io_wrap (Wrapf ''finalise cpio: %w'' []) (cw_close (gz_write lib W)))) (\<lambda>_.
              io_wrap (Wrapf ''finalise gzip: %w'' []) (on_gz (gz_close lib W)))))) cw of
          (r, cw) \<Rightarrow> (r, gz_world (cw_w cw)))"

text \<open>An open file as an \<open>io.Writer\<close>.\<close>

definition file_write :: "nat \<Rightarrow> fs writer" where
  "file_write i b s = ((length b, None), snd (fd_write i b s))"

definition pack_files_to_file :: "'g gzip_lib \<Rightarrow> init_file list \<Rightarrow> string \<Rightarrow> (fs, unit) io" where
  "pack_files_to_file lib files dst =
     io_bind (io_wrap (Wrapf ''open %s: %w'' [dst]) (os_open_trunc dst 0x1A4)) (\<lambda>f.
     pack_files lib files (file_write f))"

definition pod_initrd ::
  "'g gzip_lib \<Rightarrow> string \<Rightarrow> string \<Rightarrow> string \<Rightarrow> string \<Rightarrow> string \<Rightarrow> (fs, unit) io" where
  "pod_initrd lib dst initBin crunBin cfsBin agentBin =
     (let add = (\<lambda>p src. if src \<noteq> [] then [\<lparr>f_path = p, f_source = src, f_mode = 0\<rparr>] else []);
          files = [\<lparr>f_path = ''init'', f_source = initBin, f_mode = 0\<rparr>]
            @ add ''bin/crun'' crunBin @ add ''bin/cfs-client'' cfsBin
            @ add ''bin/weft-microvm-agent'' agentBin
      in pack_files_to_file lib files dst)"

definition pack :: "'g gzip_lib \<Rightarrow> string \<Rightarrow> fs writer \<Rightarrow> (fs, unit) io" where
  "pack lib initBinary W =
     pack_files lib [\<lparr>f_path = ''init'', f_source = initBinary, f_mode = 0x1ED\<rparr>] W"

definition pack_to_file :: "'g gzip_lib \<Rightarrow> string \<Rightarrow> string \<Rightarrow> (fs, unit) io" where
  "pack_to_file lib initBinary dst =
     io_bind (io_wrap (Wrapf ''open %s: %w'' [dst]) (os_open_trunc dst 0x1A4)) (\<lambda>f.
     pack lib initBinary (file_write f))"

section \<open>The directories\<close>

text \<open>The directory entries in the order they are written.\<close>

fun dir_list :: "string set \<Rightarrow> string list \<Rightarrow> string list" where
  "dir_list seen [] = []"
| "dir_list seen (d # ds) =
     (if d \<in> seen then dir_list seen ds else d # dir_list (insert d seen) ds)"

definition all_dirs :: "init_file list \<Rightarrow> string list" where
  "all_dirs files = dir_list {} (concat (map (\<lambda>f. parent_dirs (f_path f)) files))"

definition file_op :: "init_file \<Rightarrow> string \<Rightarrow> cpio_op" where
  "file_op f b = OpFile (header0\<lparr>h_name := f_path f,
     h_mode := 0x8000 OR (if f_mode f = 0 then 0x1ED else f_mode f)\<rparr>) b"

definition pack_ops :: "init_file list \<Rightarrow> string list \<Rightarrow> cpio_op list" where
  "pack_ops files contents =
     map (\<lambda>d. OpDir d 0x1ED) (all_dirs files)
     @ map2 file_op files contents"

lemma set_dir_list: "set (dir_list seen ds) = set ds - seen"
  by (induction seen ds rule: dir_list.induct) auto

lemma distinct_dir_list: "distinct (dir_list seen ds)"
  by (induction seen ds rule: dir_list.induct) (auto simp: set_dir_list)

text \<open>Whatever comes first in the list of requests comes first in the list of entries.\<close>

definition preceded :: "string set \<Rightarrow> string list \<Rightarrow> bool" where
  "preceded seen ds \<longleftrightarrow>
     (\<forall>i < length ds. set (parent_dirs (ds ! i)) \<subseteq> seen \<union> set (take i ds))"

lemma preceded_Cons:
  "preceded seen (d # ds) \<longleftrightarrow> set (parent_dirs d) \<subseteq> seen \<and> preceded (insert d seen) ds"
proof
  assume p: "preceded seen (d # ds)"
  have "set (parent_dirs (ds ! i)) \<subseteq> insert d seen \<union> set (take i ds)" if "i < length ds" for i
    using p that unfolding preceded_def by (elim allE [of _ "Suc i"]) auto
  with p show "set (parent_dirs d) \<subseteq> seen \<and> preceded (insert d seen) ds"
    unfolding preceded_def by (metis length_Cons nth_Cons_0 take0 set_empty2 sup_bot_right zero_less_Suc)
next
  assume p: "set (parent_dirs d) \<subseteq> seen \<and> preceded (insert d seen) ds"
  show "preceded seen (d # ds)"
    unfolding preceded_def
  proof (intro allI impI)
    fix i assume "i < length (d # ds)"
    with p show "set (parent_dirs ((d # ds) ! i)) \<subseteq> seen \<union> set (take i (d # ds))"
      by (cases i) (auto simp: preceded_def)
  qed
qed

lemma preceded_dir_list: "preceded seen ds \<Longrightarrow> preceded seen (dir_list seen ds)"
  by (induction seen ds rule: dir_list.induct) (auto simp: preceded_Cons insert_absorb)

lemma preceded_append: "preceded seen xs \<Longrightarrow> preceded (seen \<union> set xs) ys \<Longrightarrow> preceded seen (xs @ ys)"
  by (induction xs arbitrary: seen) (auto simp: preceded_Cons)

lemma preceded_mono: "preceded seen ds \<Longrightarrow> seen \<subseteq> seen' \<Longrightarrow> preceded seen' ds"
  unfolding preceded_def by blast

lemma parent_dirs_parts:
  "\<forall>c \<in> set parts. slash \<notin> set c \<Longrightarrow> 0 < i \<Longrightarrow> i \<le> length parts \<Longrightarrow>
   parent_dirs (join_str ''/'' (take i parts)) = map (\<lambda>j. join_str ''/'' (take j parts)) [1 ..< i]"
proof -
  assume p: "\<forall>c \<in> set parts. slash \<notin> set c" "0 < i" "i \<le> length parts"
  have "split_chr slash (join_str ''/'' (take i parts)) = take i parts"
    using p by (intro split_join_chr) (auto dest: in_set_takeD)
  with p(3) show ?thesis by (simp add: parent_dirs_def Let_def min_def)
qed

lemma preceded_parent_dirs: "preceded {} (parent_dirs p)"
proof -
  let ?parts = "split_chr slash p"
  have free: "\<forall>c \<in> set ?parts. slash \<notin> set c" by (auto dest: split_chr_sep_free)
  show ?thesis
    unfolding preceded_def
  proof (intro allI impI)
    fix i assume i: "i < length (parent_dirs p)"
    then have "i < length ?parts - 1" by (simp add: parent_dirs_def Let_def)
    moreover have "parent_dirs p ! i = join_str ''/'' (take (Suc i) ?parts)"
      using i by (simp add: parent_dirs_def Let_def)
    ultimately have "parent_dirs (parent_dirs p ! i) = map (\<lambda>j. join_str ''/'' (take j ?parts)) [1 ..< Suc i]"
      using parent_dirs_parts [OF free, of "Suc i"] by simp
    also have "\<dots> = take i (parent_dirs p)"
      using \<open>i < length ?parts - 1\<close> by (simp add: parent_dirs_def Let_def take_map del: upt_Suc)
    finally show "set (parent_dirs (parent_dirs p ! i)) \<subseteq> {} \<union> set (take i (parent_dirs p))" by simp
  qed
qed

text \<open>
  The directory entries: every ancestor of every file once, no directory twice, and each
  directory after all of its own ancestors, whatever the list of files.
\<close>

theorem directories_first:
  "distinct (all_dirs files)
   \<and> set (all_dirs files) = (\<Union>f \<in> set files. set (parent_dirs (f_path f)))
   \<and> list_all (\<lambda>i. set (parent_dirs (all_dirs files ! i)) \<subseteq> set (take i (all_dirs files)))
        [0 ..< length (all_dirs files)]"
proof -
  have "preceded {} (concat (map (\<lambda>f. parent_dirs (f_path f)) fs))" for fs
    by (induction fs) (auto simp: preceded_def [of _ "[]"]
        intro!: preceded_append preceded_parent_dirs intro: preceded_mono)
  from preceded_dir_list [OF this [of files]] show ?thesis
    by (auto simp: all_dirs_def distinct_dir_list set_dir_list preceded_def list_all_iff)
qed

section \<open>The compressor over an open file\<close>

fun gz_chunks :: "'g gzip_lib \<Rightarrow> 'g \<Rightarrow> string list \<Rightarrow> 'g \<times> string" where
  "gz_chunks lib g [] = (g, [])"
| "gz_chunks lib g (c # cs) =
     (case gz_step lib g c of (g', b) \<Rightarrow> case gz_chunks lib g' cs of (g'', b') \<Rightarrow> (g'', b @ b'))"

lemma gz_chunks_snoc:
  "gz_chunks lib g (cs @ [c]) =
     (case gz_chunks lib g cs of (g', b) \<Rightarrow> case gz_step lib g' c of (g'', b') \<Rightarrow> (g'', b @ b'))"
  by (induction cs arbitrary: g) (auto split: prod.splits)

text \<open>What \<open>compress/gzip\<close> documents: decompressing everything written, the footer of \<open>Close\<close>
  included, gives the concatenation of the chunks.\<close>

definition gzip_ok :: "'g gzip_lib \<Rightarrow> (string \<Rightarrow> string option) \<Rightarrow> bool" where
  "gzip_ok lib gunzip \<longleftrightarrow>
     (\<forall>cs. case gz_chunks lib (gz_init lib) cs of (g, b) \<Rightarrow> gunzip (b @ gz_fin lib g) = Some (concat cs))"

text \<open>The file system differs from \<open>s0\<close> in the bytes appended to inode \<open>i\<close> alone.\<close>

definition appended :: "nat \<Rightarrow> fs \<Rightarrow> string \<Rightarrow> fs \<Rightarrow> bool" where
  "appended i s0 b s \<longleftrightarrow>
     (\<exists>x. s = set_inode i x s0 \<and> i_data x = i_data (fs_inodes s0 i) @ b
        \<and> i_mode x = i_mode (fs_inodes s0 i))"

definition gz_has :: "'g gzip_lib \<Rightarrow> nat \<Rightarrow> fs \<Rightarrow> string \<Rightarrow> 'g gz_writer \<Rightarrow> bool" where
  "gz_has lib i s0 b z \<longleftrightarrow>
     gz_err z = None \<and>
     (\<exists>cs e. gz_chunks lib (gz_init lib) cs = (gz_state z, e) \<and> concat cs = b \<and> appended i s0 e (gz_world z))"

lemma appended_Nil: "appended i s [] s"
proof -
  have "s = set_inode i (fs_inodes s i) s" by (simp add: set_inode_def)
  then show ?thesis unfolding appended_def by fastforce
qed

lemma appended_emit:
  assumes "appended i s0 e s" and "gz_emit (file_write i) b s = (err, s')"
  shows "err = None" and "appended i s0 (e @ b) s'"
  using assms
  by (auto simp: appended_def gz_emit_def file_write_def fd_write_def set_inode_def split: if_splits)

interpretation gz: byte_sink "gz_write lib (file_write i)" "gz_has lib i s0" "\<lambda>_ _. False" for lib i s0
proof (unfold_locales, goal_cases)
  case (1 b z c n z')
  from 1(1) obtain cs e where z: "gz_err z = None" "gz_chunks lib (gz_init lib) cs = (gz_state z, e)"
      "concat cs = b" "appended i s0 e (gz_world z)"
    by (auto simp: gz_has_def)
  obtain g o' where st: "gz_step lib (gz_state z) c = (g, o')" by fastforce
  obtain err s' where em: "gz_emit (file_write i) o' (gz_world z) = (err, s')" by fastforce
  note app = appended_emit [OF z(4) em]
  have "gz_chunks lib (gz_init lib) (cs @ [c]) = (g, e @ o')"
    using z(2) st by (simp add: gz_chunks_snoc)
  with 1(2) z st em app show ?case
    by (auto simp: gz_write_def gz_has_def intro!: exI [of _ "cs @ [c]"])
next
  case (2 b z c n e z')
  from 2(1) obtain cs e' where z: "gz_err z = None" "appended i s0 e' (gz_world z)"
    by (auto simp: gz_has_def)
  obtain g o' where st: "gz_step lib (gz_state z) c = (g, o')" by fastforce
  obtain err s' where em: "gz_emit (file_write i) o' (gz_world z) = (err, s')" by fastforce
  from 2(2) z st em appended_emit(1) [OF z(2) em] show ?case
    by (simp add: gz_write_def)
qed

section \<open>Packing to a file\<close>

text \<open>A source other than the file being written reads the same all along.\<close>

lemma read_appended:
  assumes "appended i s0 b s" and "readable_at s0 p" and "node_at s0 p \<noteq> Some (File i)"
  shows "os_read_file (abs_path p) s = (Inr (the (content_at s0 p)), s)"
proof -
  from assms(1) obtain x where s: "s = set_inode i x s0" by (auto simp: appended_def)
  have "searchable s q = searchable s0 q" for q
    by (rule searchable_same_nodes) (simp_all add: s fs_simps)
  then have "path_open s p = path_open s0 p" by (simp add: path_open_iff)
  then have "readable_at s p" "content_at s p = content_at s0 p"
    using assms(2,3) by (auto simp: readable_at_def content_at_def s fs_simps allowed_def
        split: option.splits node.splits)
  then show ?thesis by (simp add: read_file_run)
qed

abbreviation gz_at :: "'g gzip_lib \<Rightarrow> nat \<Rightarrow> fs \<Rightarrow> string \<Rightarrow> u32 \<Rightarrow> 'g packing \<Rightarrow> bool" where
  "gz_at lib i s0 \<equiv> byte_sink.at (gz_has lib i s0)"

lemma run_op_gz:
  assumes "length b mod 4 = 0" and "prefix (b @ enc_op (ino + 1) op) T" and "length T < 2 ^ 63"
  shows "triple (gz_at lib i s0 b ino) (run_op (gz_write lib (file_write i)) op)
    (\<lambda>_. gz_at lib i s0 (b @ enc_op (ino + 1) op) (ino + 1)) (\<lambda>_ _. False)"
  by (rule triple_weaken [OF gz.run_op_triple [OF assms]]) (auto simp: gz.stopped_def)

lemma write_dirs_gz:
  "length b mod 4 = 0 \<Longrightarrow> length T < 2 ^ 63 \<Longrightarrow>
   prefix (b @ enc_ops ino (map (\<lambda>d. OpDir d 0x1ED) (dir_list seen ds))) T \<Longrightarrow>
   triple (gz_at lib i s0 b ino) (write_dirs lib (file_write i) seen ds)
     (\<lambda>_. gz_at lib i s0 (b @ enc_ops ino (map (\<lambda>d. OpDir d 0x1ED) (dir_list seen ds)))
       (ino + of_nat (length (dir_list seen ds)))) (\<lambda>_ _. False)"
proof (induction seen ds arbitrary: b ino rule: dir_list.induct)
  case (1 seen)
  then show ?case by (simp add: triple_return)
next
  case (2 seen d ds)
  show ?case
  proof (cases "d \<in> seen")
    case True
    with 2 show ?thesis by simp
  next
    case False
    let ?op = "OpDir d 0x1ED"
    let ?b = "b @ enc_op (ino + 1) ?op"
    have rest: "triple (gz_at lib i s0 ?b (ino + 1)) (write_dirs lib (file_write i) (insert d seen) ds)
       (\<lambda>_. gz_at lib i s0 (?b @ enc_ops (ino + 1) (map (\<lambda>d. OpDir d 0x1ED) (dir_list (insert d seen) ds)))
         (ino + 1 + of_nat (length (dir_list (insert d seen) ds)))) (\<lambda>_ _. False)"
      using 2(3-5) False by (intro 2(2) aligned_append enc_aligned) simp_all
    have "prefix ?b T" using 2(5) False by (auto simp: prefix_def)
    from triple_handled [OF run_op_gz [OF 2(3) this 2(4)]]
    have "triple (gz_at lib i s0 b ino)
      (io_cleanup (abandon lib (file_write i))
          (io_wrap (Wrapf ''write dir %s: %w'' [d]) (write_dir (gz_write lib (file_write i)) d 0x1ED)))
      (\<lambda>_. gz_at lib i s0 ?b (ino + 1)) (\<lambda>_ _. False)"
      by simp
    from triple_bind [OF this rest] show ?thesis using False by (simp add: ac_simps)
  qed
qed

lemma read_source_gz:
  assumes "f_source f = abs_path p" and "readable_at s0 p" and "node_at s0 p \<noteq> Some (File i)"
  shows "triple (gz_at lib i s0 b ino) (on_world (os_read_file (f_source f)))
    (\<lambda>x cw. x = the (content_at s0 p) \<and> gz_at lib i s0 b ino cw) (\<lambda>_ _. False)"
  unfolding triple_def
proof (intro allI impI)
  fix cw assume at: "gz_at lib i s0 b ino cw"
  then obtain e where "appended i s0 e (gz_world (cw_w cw))" by (auto simp: gz.at_def gz_has_def)
  from read_appended [OF this assms(2,3)] at
  show "case on_world (os_read_file (f_source f)) cw of
      (Inl e, s') \<Rightarrow> False
    | (Inr x, s') \<Rightarrow> x = the (content_at s0 p) \<and> gz_at lib i s0 b ino s'"
    by (simp add: assms(1) on_world_def on_gz_def io_zoom_def)
qed

lemma pack_file_gz:
  assumes f: "f_source f = abs_path p" "readable_at s0 p" "node_at s0 p \<noteq> Some (File i)"
    and op: "op = file_op f (the (content_at s0 p))"
    and T: "length b mod 4 = 0" "prefix (b @ enc_op (ino + 1) op) T" "length T < 2 ^ 63"
  shows "triple (gz_at lib i s0 b ino) (pack_file lib (file_write i) f)
    (\<lambda>_. gz_at lib i s0 (b @ enc_op (ino + 1) op) (ino + 1)) (\<lambda>_ _. False)"
  unfolding pack_file_def
proof (rule triple_bind [OF triple_handled [OF read_source_gz [OF f]]])
  fix x
  have w: "triple (gz_at lib i s0 b ino)
     (io_cleanup (abandon lib (file_write i)) (io_wrap (Wrapf ''write %s entry: %w'' [f_path f])
       (run_op (gz_write lib (file_write i)) op)))
     (\<lambda>_. gz_at lib i s0 (b @ enc_op (ino + 1) op) (ino + 1)) (\<lambda>_ _. False)"
    by (rule triple_handled [OF run_op_gz [OF T]])
  show "triple (\<lambda>cw. x = the (content_at s0 p) \<and> gz_at lib i s0 b ino cw)
     (let mode = if f_mode f = 0 then 0x1ED else f_mode f
      in io_cleanup (abandon lib (file_write i)) (io_wrap (Wrapf ''write %s entry: %w'' [f_path f])
           (write_file (gz_write lib (file_write i)) (header0\<lparr>h_name := f_path f, h_mode := 0x8000 OR mode\<rparr>) x)))
     (\<lambda>_. gz_at lib i s0 (b @ enc_op (ino + 1) op) (ino + 1)) (\<lambda>_ _. False)"
    using w by (cases "x = the (content_at s0 p)") (simp_all add: op file_op_def triple_def Let_def)
qed

lemma pack_each_gz:
  "map f_source files = map abs_path srcs \<Longrightarrow>
   list_all (\<lambda>p. readable_at s0 p \<and> node_at s0 p \<noteq> Some (File i)) srcs \<Longrightarrow>
   ops = map2 file_op files (map (\<lambda>p. the (content_at s0 p)) srcs) \<Longrightarrow>
   length b mod 4 = 0 \<Longrightarrow> prefix (b @ enc_ops ino ops) T \<Longrightarrow> length T < 2 ^ 63 \<Longrightarrow>
   triple (gz_at lib i s0 b ino) (io_each (pack_file lib (file_write i)) files)
     (\<lambda>_. gz_at lib i s0 (b @ enc_ops ino ops) (ino + of_nat (length ops))) (\<lambda>_ _. False)"
proof (induction files arbitrary: srcs ops b ino)
  case Nil
  then show ?case by (simp add: triple_return)
next
  case (Cons f files)
  then obtain p ps where srcs: "srcs = p # ps" "f_source f = abs_path p" "map f_source files = map abs_path ps"
    by (cases srcs) auto
  define op where "op = file_op f (the (content_at s0 p))"
  define rest where "rest = map2 file_op files (map (\<lambda>p. the (content_at s0 p)) ps)"
  have ops: "ops = op # rest" using Cons.prems(3) by (simp add: srcs op_def rest_def)
  let ?b = "b @ enc_op (ino + 1) op"
  have "prefix ?b T" using Cons.prems(5) by (auto simp: ops prefix_def)
  with Cons.prems srcs have one: "triple (gz_at lib i s0 b ino) (pack_file lib (file_write i) f)
      (\<lambda>_. gz_at lib i s0 ?b (ino + 1)) (\<lambda>_ _. False)"
    by (intro pack_file_gz [OF srcs(2) _ _ op_def]) simp_all
  have "triple (gz_at lib i s0 ?b (ino + 1)) (io_each (pack_file lib (file_write i)) files)
      (\<lambda>_. gz_at lib i s0 (?b @ enc_ops (ino + 1) rest) (ino + 1 + of_nat (length rest))) (\<lambda>_ _. False)"
    using Cons.prems by (intro Cons.IH [OF srcs(3) _ rest_def] aligned_append enc_aligned)
      (simp_all add: srcs ops)
  from triple_bind [OF one this] show ?case by (simp add: ops ac_simps)
qed

lemma enc_ops_append:
  "enc_ops ino (xs @ ys) = enc_ops ino xs @ enc_ops (ino + of_nat (length xs)) ys"
  by (induction xs arbitrary: ino) (simp_all add: ac_simps)

lemma enc_ops_aligned: "length (enc_ops ino ops) mod 4 = 0"
  by (induction ops arbitrary: ino) (simp_all add: enc_aligned aligned_length)

lemma gz_close_run:
  assumes ok: "gzip_ok lib gunzip" and z: "gz_has lib i s0 T z"
  shows "\<exists>z' b. gz_close lib (file_write i) z = (Inr (), z') \<and> appended i s0 b (gz_world z') \<and> gunzip b = Some T"
proof -
  from z obtain cs e where z: "gz_err z = None" "gz_chunks lib (gz_init lib) cs = (gz_state z, e)"
      "concat cs = T" "appended i s0 e (gz_world z)"
    by (auto simp: gz_has_def)
  obtain err s' where em: "gz_emit (file_write i) (gz_fin lib (gz_state z)) (gz_world z) = (err, s')"
    by fastforce
  have "gunzip (e @ gz_fin lib (gz_state z)) = Some T"
    using ok z by (auto simp: gzip_ok_def dest!: spec [of _ cs])
  with z(1) em appended_emit [OF z(4) em] show ?thesis
    by (auto simp: gz_close_def)
qed

text \<open>The directories of all files, then the files of an initial part \<open>pre\<close> of the list.\<close>

lemma pack_prefix_gz:
  assumes f: "map f_source pre = map abs_path srcs"
      "list_all (\<lambda>p. readable_at s0 p \<and> node_at s0 p \<noteq> Some (File i)) srcs"
    and ops: "ops = map (\<lambda>d. OpDir d 0x1ED) (all_dirs files)
      @ map2 file_op pre (map (\<lambda>p. the (content_at s0 p)) srcs)"
    and size: "archive_size ops < 2 ^ 63"
    and mid: "mid = map (\<lambda>d. OpDir d 0x1ED) (all_dirs files)"
  shows "triple (gz_at lib i s0 [] 721)
      (write_dirs lib (file_write i) {} (concat (map (\<lambda>f. parent_dirs (f_path f)) files)))
      (\<lambda>_. gz_at lib i s0 (enc_ops 721 mid) (721 + of_nat (length mid))) (\<lambda>_ _. False)"
    and "triple (gz_at lib i s0 (enc_ops 721 mid) (721 + of_nat (length mid)))
      (io_each (pack_file lib (file_write i)) pre)
      (\<lambda>_. gz_at lib i s0 (enc_ops 721 ops) (721 + of_nat (length ops))) (\<lambda>_ _. False)"
proof -
  let ?T = "enc_archive ops"
  define fops where "fops = map2 file_op pre (map (\<lambda>p. the (content_at s0 p)) srcs)"
  have split: "ops = mid @ fops" by (simp add: ops mid fops_def)
  have len: "length ?T < 2 ^ 63" using size by (simp only: enc_archive_size)
  have pre: "prefix (enc_ops 721 ops) ?T" by (simp add: enc_archive_def padded_def)
  then have "prefix (enc_ops 721 mid) ?T" by (auto simp: split enc_ops_append prefix_def)
  then show "triple (gz_at lib i s0 [] 721)
      (write_dirs lib (file_write i) {} (concat (map (\<lambda>f. parent_dirs (f_path f)) files)))
      (\<lambda>_. gz_at lib i s0 (enc_ops 721 mid) (721 + of_nat (length mid))) (\<lambda>_ _. False)"
    using write_dirs_gz [of "[]" ?T 721 "{}" "concat (map (\<lambda>f. parent_dirs (f_path f)) files)" lib i s0] len
    by (simp add: mid all_dirs_def)
  show "triple (gz_at lib i s0 (enc_ops 721 mid) (721 + of_nat (length mid)))
      (io_each (pack_file lib (file_write i)) pre)
      (\<lambda>_. gz_at lib i s0 (enc_ops 721 ops) (721 + of_nat (length ops))) (\<lambda>_ _. False)"
    using pack_each_gz [OF f fops_def enc_ops_aligned, of 721 mid "721 + of_nat (length mid)" ?T lib] len pre
    by (simp add: split enc_ops_append ac_simps)
qed

lemma gz_start: "gz_at lib i s0 [] 721 (new_writer \<lparr>gz_state = gz_init lib, gz_err = None, gz_world = s0\<rparr>)"
  by (auto simp: gz.at_def gz_has_def new_writer_def appended_Nil intro!: exI [of _ "[]"])

lemma pack_files_run:
  assumes ok: "gzip_ok lib gunzip"
    and f: "map f_source files = map abs_path srcs"
      "list_all (\<lambda>p. readable_at s0 p \<and> node_at s0 p \<noteq> Some (File i)) srcs"
    and ops: "ops = pack_ops files (map (\<lambda>p. the (content_at s0 p)) srcs)"
    and size: "archive_size ops < 2 ^ 63"
  shows "\<exists>s' b. pack_files lib files (file_write i) s0 = (Inr (), s') \<and> appended i s0 b s'
    \<and> gunzip b = Some (enc_archive ops)"
proof -
  let ?T = "enc_archive ops" and ?W = "file_write i"
  have len: "length ?T < 2 ^ 63" using size by (simp only: enc_archive_size)
  note dw = pack_prefix_gz [OF f ops [unfolded pack_ops_def] size refl, of lib]
  have c: "triple (gz_at lib i s0 (enc_ops 721 ops) (721 + of_nat (length ops)))
      (io_cleanup (on_gz (gz_close lib ?W)) (io_wrap (Wrapf ''finalise cpio: %w'' []) (cw_close (gz_write lib ?W))))
      (\<lambda>_ cw. gz_has lib i s0 ?T (cw_w cw)) (\<lambda>_ _. False)"
    by (rule triple_handled, rule triple_weaken [OF gz.close_triple [OF enc_ops_aligned _ len]])
      (auto simp: enc_archive_def gz.stopped_def ac_simps)
  have fin: "triple (\<lambda>cw. gz_has lib i s0 ?T (cw_w cw))
      (io_wrap (Wrapf ''finalise gzip: %w'' []) (on_gz (gz_close lib ?W)))
      (\<lambda>_ cw. \<exists>b. appended i s0 b (gz_world (cw_w cw)) \<and> gunzip b = Some ?T) (\<lambda>_ _. False)"
    unfolding triple_def
    by (auto simp: io_wrap_def on_gz_def io_zoom_def split: prod.splits sum.splits dest!: gz_close_run [OF ok])
  from tripleD [OF triple_bind [OF dw(1) triple_bind [OF dw(2) triple_bind [OF c fin]]] gz_start] show ?thesis
    by (auto simp: pack_files_def Let_def split: prod.splits sum.splits)
qed

lemma open_trunc_facts:
  assumes w: "writable_at s p" and "sane s"
  obtains i s1 where "os_open_trunc (abs_path p) mode s = (Inr i, s1)"
    and "node_at s1 p = Some (File i)" and "\<And>q. q \<noteq> p \<Longrightarrow> node_at s1 q = node_at s q"
    and "i_data (fs_inodes s1 i) = []" and "\<And>j. j \<noteq> i \<Longrightarrow> fs_inodes s1 j = fs_inodes s j"
    and "fs_super s1 = fs_super s" and "\<And>q. node_at s q = Some (File i) \<Longrightarrow> node_at s p = Some (File i)"
proof (cases "node_at s p")
  case None
  from w None obtain i where "os_open_trunc (abs_path p) mode s = (Inr i, create_file p mode s)" "i = fs_next s"
    using open_trunc_run [OF w, of mode] by (auto split: option.splits)
  with assms(2) None show ?thesis
    by (intro that [of i "create_file p mode s"])
      (auto simp: fs_simps create_file_def sane_def)
next
  case (Some nd)
  with w obtain j where j: "node_at s p = Some (File j)" by (auto simp: writable_at_def split: node.splits)
  then have "os_open_trunc (abs_path p) mode s = (Inr j, truncate_file j s)"
    using open_trunc_run [OF w, of mode] by auto
  with j show ?thesis
    by (intro that [of j "truncate_file j s"]) (auto simp: fs_simps truncate_file_def)
qed

definition sources_ok :: "fs \<Rightarrow> path \<Rightarrow> path list \<Rightarrow> bool" where
  "sources_ok s dst srcs = list_all (\<lambda>p. readable_at s p \<and> node_at s p \<noteq> node_at s dst) srcs"

lemma readable_elsewhere:
  assumes r: "readable_at s p" and w: "writable_at s dst" "node_at s p \<noteq> node_at s dst"
    and same: "\<And>q. q \<noteq> dst \<Longrightarrow> node_at s1 q = node_at s q" "\<And>j. j \<noteq> i \<Longrightarrow> fs_inodes s1 j = fs_inodes s j"
      "fs_super s1 = fs_super s"
    and i: "node_at s p \<noteq> Some (File i)"
  shows "readable_at s1 p" and "content_at s1 p = content_at s p"
proof -
  have "p \<noteq> dst" using w(2) by auto
  have "searchable s1 q = searchable s q" if "searchable s q" for q
  proof -
    have "q \<noteq> dst"
      using that w(1) by (auto simp: searchable_def writable_at_def split: option.splits node.splits)
    then show ?thesis using same by (intro searchable_same_nodes) auto
  qed
  then have "path_open s1 p" using r by (simp add: readable_at_def path_open_iff)
  with r \<open>p \<noteq> dst\<close> same i show "readable_at s1 p" "content_at s1 p = content_at s p"
    by (auto simp: readable_at_def content_at_def allowed_def split: option.splits node.splits)
qed

lemma open_for_packing:
  assumes "sane s" and w: "writable_at s dst" and srcs: "sources_ok s dst srcs"
  obtains i s1 where "os_open_trunc (abs_path dst) 0x1A4 s = (Inr i, s1)"
    and "node_at s1 dst = Some (File i)" and "i_data (fs_inodes s1 i) = []"
    and "list_all (\<lambda>p. readable_at s1 p \<and> node_at s1 p \<noteq> Some (File i)) srcs"
    and "map (\<lambda>p. the (content_at s1 p)) srcs = map (\<lambda>p. the (content_at s p)) srcs"
    and "\<And>q. q \<noteq> dst \<Longrightarrow> node_at s1 q = node_at s q" and "fs_super s1 = fs_super s"
proof -
  obtain i s1 where op: "os_open_trunc (abs_path dst) 0x1A4 s = (Inr i, s1)"
    and n1: "node_at s1 dst = Some (File i)" and same: "\<And>q. q \<noteq> dst \<Longrightarrow> node_at s1 q = node_at s q"
    and d1: "i_data (fs_inodes s1 i) = []" and in1: "\<And>j. j \<noteq> i \<Longrightarrow> fs_inodes s1 j = fs_inodes s j"
    and su: "fs_super s1 = fs_super s"
    and al: "\<And>q. node_at s q = Some (File i) \<Longrightarrow> node_at s dst = Some (File i)"
    by (rule open_trunc_facts [OF w assms(1), where mode = "0x1A4"]) (rule that)
  have src: "readable_at s1 p \<and> node_at s1 p \<noteq> Some (File i) \<and> content_at s1 p = content_at s p"
    if "p \<in> set srcs" for p
  proof -
    from srcs that have r: "readable_at s p" "node_at s p \<noteq> node_at s dst"
      by (auto simp: sources_ok_def list_all_iff)
    then have ni: "node_at s p \<noteq> Some (File i)" using al [of p] by auto
    moreover have "p \<noteq> dst" using r by auto
    ultimately show ?thesis
      using readable_elsewhere [OF r(1) w r(2) same in1 su] same by auto
  qed
  then show ?thesis
    using op n1 d1 same su by (intro that [of i s1]) (auto simp: list_all_iff)
qed

lemma path_open_elsewhere:
  assumes "path_open s p" and "writable_at s dst"
    and "\<And>q. q \<noteq> dst \<Longrightarrow> node_at s1 q = node_at s q" and "fs_super s1 = fs_super s"
  shows "path_open s1 p"
proof -
  have "searchable s1 q" if "searchable s q" for q
  proof -
    have "q \<noteq> dst"
      using that assms(2) by (auto simp: searchable_def writable_at_def split: option.splits node.splits)
    with that assms(3,4) show ?thesis using searchable_same_nodes [of s1 q s] by auto
  qed
  with assms(1) show ?thesis by (simp add: path_open_iff)
qed

lemma read_missing_gz:
  assumes "plains p" "p \<noteq> []" "path_open s0 p" "node_at s0 p = None" and src: "src = abs_path p"
  shows "triple (gz_at lib i s0 b ino) (on_world (os_read_file src)) (\<lambda>_ _. False)
    (\<lambda>e _. e = Sys ENOENT src)"
  unfolding triple_def
proof (intro allI impI)
  fix cw assume "gz_at lib i s0 b ino cw"
  then obtain x where s: "gz_world (cw_w cw) = set_inode i x s0"
    by (auto simp: gz.at_def gz_has_def appended_def)
  have "searchable (set_inode i x s0) q = searchable s0 q" for q
    by (rule searchable_same_nodes) (simp_all add: fs_simps)
  then have "path_open (set_inode i x s0) p" using assms(3) by (simp add: path_open_iff)
  then have "os_read_file src (gz_world (cw_w cw)) = (Inl (Sys ENOENT src), gz_world (cw_w cw))"
    using assms by (simp add: s os_read_file_def walk_open_None fs_simps)
  then show "case on_world (os_read_file src) cw of (Inl e, s') \<Rightarrow> e = Sys ENOENT src | (Inr x, s') \<Rightarrow> False"
    by (simp add: on_world_def on_gz_def io_zoom_def)
qed

text \<open>
  C13. Packing to a file: when the destination can be written and every source is a readable file
  other than it, packing succeeds, and the file, decompressed and read as a \<open>newc\<close> archive, holds
  the parent directories (shallowest first) followed by every file with its mode and the contents
  the source had.
\<close>

theorem packed_archive:
  assumes "gzip_ok lib gunzip" and "sane s" and "writable_at s dst" and "sources_ok s dst srcs"
    and "map f_source files = map abs_path srcs"
    and "ops = pack_ops files (map (\<lambda>p. the (content_at s p)) srcs)"
    and "list_all op_fits ops" and "list_all (\<lambda>op. h_name (op_header op) \<noteq> trailer) ops"
    and "archive_size ops < 2 ^ 63"
  shows "\<exists>s' z b. pack_files_to_file lib files (abs_path dst) s = (Inr (), s')
    \<and> content_at s' dst = Some z \<and> gunzip z = Some b \<and> read_archive b = Some (newc_entries 721 ops)"
proof -
  obtain i s1 where op: "os_open_trunc (abs_path dst) 0x1A4 s = (Inr i, s1)"
    and n1: "node_at s1 dst = Some (File i)" "i_data (fs_inodes s1 i) = []"
    and src: "list_all (\<lambda>p. readable_at s1 p \<and> node_at s1 p \<noteq> Some (File i)) srcs"
    and same: "map (\<lambda>p. the (content_at s1 p)) srcs = map (\<lambda>p. the (content_at s p)) srcs"
    using open_for_packing [OF assms(2-4)] by blast
  from assms(6) have ops: "ops = pack_ops files (map (\<lambda>p. the (content_at s1 p)) srcs)" by (simp only: same)
  obtain s' z where run: "pack_files lib files (file_write i) s1 = (Inr (), s')"
      and app: "appended i s1 z s'" and gz: "gunzip z = Some (enc_archive ops)"
    using pack_files_run [OF assms(1,5) src ops assms(9)] by blast
  have "content_at s' dst = Some z"
    using app n1 by (auto simp: appended_def content_at_def fs_simps)
  moreover have "read_archive (enc_archive ops) = Some (newc_entries 721 ops)"
    using assms(7,8) by (rule read_archive_enc)
  moreover have "pack_files_to_file lib files (abs_path dst) s = (Inr (), s')"
    using op run by (simp add: pack_files_to_file_def io_bind_def io_wrap_def)
  ultimately show ?thesis using gz by blast
qed

text \<open>A compressor that stores its input, for concrete runs.\<close>

definition stored_gz :: "unit gzip_lib" where
  "stored_gz = \<lparr>gz_init = (), gz_step = (\<lambda>_ c. ((), c)), gz_fin = (\<lambda>_. ''end'')\<rparr>"

definition stored_gunzip :: "string \<Rightarrow> string option" where
  "stored_gunzip s = Some (take (length s - 3) s)"

lemma stored_gz_ok: "gzip_ok stored_gz stored_gunzip"
proof -
  have "gz_chunks stored_gz g cs = ((), concat cs)" for g cs
    by (induction cs arbitrary: g) (auto simp: stored_gz_def)
  then show ?thesis by (simp add: gzip_ok_def stored_gunzip_def stored_gz_def)
qed

definition sample_files :: "init_file list" where
  "sample_files = [\<lparr>f_path = ''init'', f_source = ''/r/a'', f_mode = 0\<rparr>,
                   \<lparr>f_path = ''bin/crun'', f_source = ''/etc/pw'', f_mode = 0x1C0\<rparr>]"

theorem packed_archive_witness:
  "\<exists>s' z b. pack_files_to_file stored_gz sample_files (abs_path [''r'', ''o'']) sample_fs = (Inr (), s')
    \<and> content_at s' [''r'', ''o''] = Some z \<and> stored_gunzip z = Some b
    \<and> read_archive b = Some (newc_entries 721 (pack_ops sample_files [''old'', ''secret'']))"
proof -
  let ?ops = "pack_ops sample_files [''old'', ''secret'']"
  have s: "writable_at sample_fs [''r'', ''o'']"
      "sources_ok sample_fs [''r'', ''o''] [[''r'', ''a''], [''etc'', ''pw'']]"
      "map f_source sample_files = map abs_path [[''r'', ''a''], [''etc'', ''pw'']]"
      "?ops = pack_ops sample_files (map (\<lambda>p. the (content_at sample_fs p)) [[''r'', ''a''], [''etc'', ''pw'']])"
    by code_simp+
  have ops: "?ops = [OpDir ''bin'' 0x1ED, OpFile (header0\<lparr>h_name := ''init'', h_mode := 0x81ED\<rparr>) ''old'',
      OpFile (header0\<lparr>h_name := ''bin/crun'', h_mode := 0x81C0\<rparr>) ''secret'']"
    by code_simp
  have "sane sample_fs" using sample_fs_ready by (simp add: ready_def)
  moreover have "list_all op_fits ?ops" "list_all (\<lambda>op. h_name (op_header op) \<noteq> trailer) ?ops"
      "archive_size ?ops < 2 ^ 63"
    unfolding ops
    by (simp_all add: op_fits_def header0_def trailer_def archive_size_def op_size_def pad_len_def Let_def)
  ultimately show ?thesis
    by (intro packed_archive [OF stored_gz_ok _ s])
qed

text \<open>
  A source that cannot be read makes packing fail with the error of the read, naming the
  source; nothing is reported as packed.
\<close>

theorem missing_source_fails:
  assumes "sane s" and "writable_at s dst" and "sources_ok s dst srcs"
    and "map f_source pre = map abs_path srcs"
    and "files = pre @ f # post" and "f_source f = abs_path p"
    and "plains p" and "p \<noteq> []" and "path_open s p" and "node_at s p = None" and "p \<noteq> dst"
    and "archive_size (pack_ops files (map (\<lambda>p. the (content_at s p)) srcs)) < 2 ^ 63"
  shows "fst (pack_files_to_file lib files (abs_path dst) s)
    = Inl (Wrapf ''read %s: %w'' [abs_path p] (Sys ENOENT (abs_path p)))"
proof -
  let ?err = "Wrapf ''read %s: %w'' [abs_path p] (Sys ENOENT (abs_path p))"
  let ?ops = "pack_ops files (map (\<lambda>p. the (content_at s p)) srcs)"
  obtain i s1 where op: "os_open_trunc (abs_path dst) 0x1A4 s = (Inr i, s1)"
    and src: "list_all (\<lambda>p. readable_at s1 p \<and> node_at s1 p \<noteq> Some (File i)) srcs"
    and same: "map (\<lambda>p. the (content_at s1 p)) srcs = map (\<lambda>p. the (content_at s p)) srcs"
    and nodes: "\<And>q. q \<noteq> dst \<Longrightarrow> node_at s1 q = node_at s q" and su: "fs_super s1 = fs_super s"
    using open_for_packing [OF assms(1-3)] by blast
  have "map2 file_op files (map (\<lambda>p. the (content_at s p)) srcs) =
      map2 file_op pre (map (\<lambda>p. the (content_at s1 p)) srcs)"
    using map_eq_imp_length_eq [OF assms(4)] by (simp add: assms(5) same zip_append1)
  then have ops: "?ops = map (\<lambda>d. OpDir d 0x1ED) (all_dirs files)
      @ map2 file_op pre (map (\<lambda>p. the (content_at s1 p)) srcs)"
    by (simp add: pack_ops_def)
  let ?W = "file_write i"
  note dw = pack_prefix_gz [OF assms(4) src ops assms(12) refl, of lib]
  note missing = read_missing_gz [OF assms(7,8) path_open_elsewhere [OF assms(9,2) nodes su]
      nodes [THEN trans, OF assms(11,10)] refl]
  have rd: "triple (gz_at lib i s1 b ino)
     (io_cleanup (abandon lib ?W)
       (io_wrap (Wrapf ''read %s: %w'' [f_source f]) (on_world (os_read_file (f_source f)))))
     (\<lambda>_ _. False) (\<lambda>e _. e = ?err)" for b ino
    using missing [of lib i b ino] unfolding assms(6)
    by (auto simp: triple_iff io_cleanup_def io_wrap_def split: prod.splits sum.splits)
  have one: "triple (gz_at lib i s1 b ino) (pack_file lib ?W f) (\<lambda>_ _. False) (\<lambda>e _. e = ?err)" for b ino
    unfolding pack_file_def by (rule triple_bind [OF rd]) (simp add: triple_def)
  have rest: "triple (gz_at lib i s1 (enc_ops 721 ?ops) (721 + of_nat (length ?ops)))
      (io_each (pack_file lib ?W) (f # post)) (\<lambda>_ _. False) (\<lambda>e _. e = ?err)"
    unfolding io_each.simps by (rule triple_bind [OF one]) (simp add: triple_def)
  have files: "triple (gz_at lib i s1 [] 721)
      (io_bind (write_dirs lib ?W {} (concat (map (\<lambda>f. parent_dirs (f_path f)) files)))
        (\<lambda>_. io_each (pack_file lib ?W) files)) (\<lambda>_ _. False) (\<lambda>e _. e = ?err)"
    unfolding assms(5) io_each_append unfolding assms(5) [symmetric]
    by (rule triple_bind [OF triple_weaken [OF dw(1)]], assumption, assumption, blast)
      (rule triple_bind [OF triple_weaken [OF dw(2)] rest], auto)
  from tripleD [OF files gz_start] have "fst (pack_files lib files ?W s1) = Inl ?err"
    by (auto simp: pack_files_def Let_def io_bind_def split: prod.splits sum.splits)
  with op show ?thesis
    by (simp add: pack_files_to_file_def io_bind_def io_wrap_def)
qed

theorem missing_source_fails_witness:
  "fst (pack_files_to_file stored_gz [\<lparr>f_path = ''init'', f_source = ''/r/x'', f_mode = 0\<rparr>]
        (abs_path [''r'', ''o'']) sample_fs)
    = Inl (Wrapf ''read %s: %w'' [''/r/x''] (Sys ENOENT ''/r/x''))"
proof -
  let ?f = "\<lparr>f_path = ''init'', f_source = ''/r/x'', f_mode = 0\<rparr>"
  have w: "writable_at sample_fs [''r'', ''o'']" "sources_ok sample_fs [''r'', ''o''] []"
    by code_simp+
  have f: "f_source ?f = abs_path [''r'', ''x'']" "plains [''r'', ''x'']" "[''r'', ''x''] \<noteq> []"
      "path_open sample_fs [''r'', ''x'']" "node_at sample_fs [''r'', ''x''] = None" "[''r'', ''x''] \<noteq> [''r'', ''o'']"
      and a: "abs_path [''r'', ''x''] = ''/r/x''"
    by code_simp+
  have "all_dirs [?f] = []" by code_simp
  then have "archive_size (pack_ops [?f] []) < 2 ^ 63"
    by (simp add: pack_ops_def archive_size_def op_size_def header0_def trailer_def pad_len_def Let_def)
  moreover have "sane sample_fs" using sample_fs_ready by (simp add: ready_def)
  ultimately show ?thesis
    using missing_source_fails [OF _ w, of "[]" "[?f]" ?f "[]" "[''r'', ''x'']" stored_gz] f a by simp
qed

end
