(* ===== verification/Artifacts.thy ===== *)
theory Artifacts
  imports Sample_Registry Extract_Refine Posix_Write
begin

text \<open>
  The shared boot artefacts (\<open>pull_kernel.go\<close>, \<open>pull_pod_initrd.go\<close>): the layer of one media type is
  downloaded next to its destination and renamed over it.  The two operations have one contract, the
  locale \<open>artifact\<close>, which says where the layer goes and when there is one; the atomicity of the
  replacement is proved once inside it.
\<close>

section \<open>The code\<close>

definition kernel_layer_media_type :: string where
  "kernel_layer_media_type = ''application/vnd.openweft.microvm.kernel.image''"

definition pod_initrd_layer_media_type :: string where
  "pod_initrd_layer_media_type = ''application/vnd.openweft.microvm.pod-initrd.cpio.gz''"

text \<open>The arrow in the message of a failed rename, in UTF-8.\<close>

definition arrow :: string where
  "arrow = bytes_of [0xE2, 0x86, 0x92]"

definition store_layer :: "remote \<Rightarrow> repo \<Rightarrow> descriptor \<Rightarrow> string \<Rightarrow> (fs, unit) io" where
  "store_layer rm repo layer dst =
     io_bind (io_wrap (Wrapf ''mkdir %s: %w'' [path_dir dst]) (os_mkdir_all (path_dir dst) 0x1ED)) (\<lambda>_.
     let tmp = dst @ ''.tmp'' in
     io_bind (io_ignore (os_remove tmp)) (\<lambda>_.
     io_bind (io_wrap (Wrapf ''create %s: %w'' [tmp]) (os_open_trunc tmp 0x1A4)) (\<lambda>f.
     io_bind (io_cleanup (os_remove tmp)
       (io_wrap (Wrapf ''pull blob: %w'' []) (io_lift (rm_fetch rm repo layer)))) (\<lambda>rc.
     io_bind (io_cleanup (os_remove tmp) (io_wrap (Wrapf ''write blob: %w'' []) (io_copy f rc))) (\<lambda>_.
     io_cleanup (os_remove tmp)
       (io_wrap (Wrapf (''rename %s '' @ arrow @ '' %s: %w'') [tmp, dst]) (os_rename tmp dst)))))))"

definition pull_kernel :: "remote \<Rightarrow> environ \<Rightarrow> string \<Rightarrow> (fs, unit) io" where
  "pull_kernel rm env img =
     (let canonical = canonical_ref env img in
      case new_repository canonical of
        Inl err \<Rightarrow> io_throw (Wrapf ''parse %q: %w'' [canonical] err)
      | Inr repo \<Rightarrow>
          io_bind (io_lift (fetch_manifest rm repo img)) (\<lambda>(manifestBytes, manifest).
          case List.find (\<lambda>l. d_media_type l = kernel_layer_media_type) (mf_layers manifest) of
            None \<Rightarrow> io_throw (Errorf ''no kernel layer (%s) in manifest of %s'' [kernel_layer_media_type, img])
          | Some kernelLayer \<Rightarrow> store_layer rm repo kernelLayer (kernel_path env)))"

definition pull_pod_initrd :: "remote \<Rightarrow> environ \<Rightarrow> string \<Rightarrow> (fs, unit) io" where
  "pull_pod_initrd rm env img =
     (let canonical = canonical_ref env img in
      case new_repository canonical of
        Inl err \<Rightarrow> io_throw (Wrapf ''parse %q: %w'' [canonical] err)
      | Inr repo \<Rightarrow>
          io_bind (io_lift (fetch_manifest rm repo img)) (\<lambda>(manifestBytes, manifest).
          case List.find (\<lambda>l. d_media_type l = pod_initrd_layer_media_type) (mf_layers manifest) of
            None \<Rightarrow> io_throw (Errorf ''no pod-initrd layer (%s) in manifest of %s'' [pod_initrd_layer_media_type, img])
          | Some initrdLayer \<Rightarrow> store_layer rm repo initrdLayer (pod_initrd_path env)))"

section \<open>Replacing a file\<close>

text \<open>What the registry has for the artefact: \<open>None\<close> when the reference is bad, the manifest cannot be
  had or it has no layer of the type, else what fetching the first such layer gives.\<close>

definition artifact_source ::
  "remote \<Rightarrow> environ \<Rightarrow> string \<Rightarrow> string \<Rightarrow> (error + stream) option" where
  "artifact_source rm env img mt =
     (case new_repository (canonical_ref env img) of
        Inl _ \<Rightarrow> None
      | Inr repo \<Rightarrow>
          (case fetch_manifest rm repo img of
             Inl _ \<Rightarrow> None
           | Inr (_, mf) \<Rightarrow>
               map_option (rm_fetch rm repo) (List.find (\<lambda>l. d_media_type l = mt) (mf_layers mf))))"

text \<open>
  The tree afterwards: without a source the same; otherwise the directory is there, the temporary
  file is not, and the destination is replaced if and only if all of the blob arrived.
\<close>

definition spec_store :: "path \<Rightarrow> string \<Rightarrow> (error + stream) option \<Rightarrow> tree \<Rightarrow> tree \<times> bool" where
  "spec_store dir name src t =
     (case src of
        None \<Rightarrow> (t, False)
      | Some r \<Rightarrow>
          (let t' = (spec_dirs dir t)(dir @ [name @ ''.tmp''] := None) in
           case r of Inr (b, None) \<Rightarrow> (t'(dir @ [name] \<mapsto> AFile b), True) | _ \<Rightarrow> (t', False)))"

definition outcome :: "(error + unit) \<times> fs \<Rightarrow> tree \<times> bool" where
  "outcome x = (view (snd x), \<not> isl (fst x))"

text \<open>A place for the artefact: directories on the way, and no directory in its way.\<close>

definition artifact_place :: "path \<Rightarrow> string \<Rightarrow> fs \<Rightarrow> bool" where
  "artifact_place dir name s =
     (plains dir \<and> plain name \<and> plain (name @ ''.tmp'') \<and> ready s \<and> clear_to s dir
      \<and> \<not> is_dir_at s (dir @ [name]) \<and> \<not> is_dir_at s (dir @ [name @ ''.tmp'']))"

lemma abs_path_tmp: "abs_path (dir @ [name]) @ ''.tmp'' = abs_path (dir @ [name @ ''.tmp''])"
  by (cases "dir = []") (simp_all add: abs_path_def join_str_snoc)

lemma put_at_run:
  assumes "writable_at s p"
  shows "\<exists>i. os_open_trunc (abs_path p) mode s =
      (Inr i, case node_at s p of Some (File j) \<Rightarrow> truncate_file j s | _ \<Rightarrow> create_file p mode s)
    \<and> io_copy i r (case node_at s p of Some (File j) \<Rightarrow> truncate_file j s | _ \<Rightarrow> create_file p mode s) =
      (case snd r of None \<Rightarrow> (Inr (), put_file p (fst r) mode s) | Some e \<Rightarrow> (Inl e, put_file p (fst r) mode s))"
proof -
  obtain i where run: "os_open_trunc (abs_path p) mode s =
      (Inr i, case node_at s p of Some (File j) \<Rightarrow> truncate_file j s | _ \<Rightarrow> create_file p mode s)"
    and i: "i = (case node_at s p of Some (File j) \<Rightarrow> j | _ \<Rightarrow> fs_next s)"
    using open_trunc_run [OF assms] .
  have "fd_write i (fst r) (case node_at s p of Some (File j) \<Rightarrow> truncate_file j s | _ \<Rightarrow> create_file p mode s)
      = (Inr (), put_file p (fst r) mode s)"
    by (simp add: i put_file_def fd_write_def split: option.splits node.splits)
  with run show ?thesis by (auto simp: io_copy_def io_defs split: option.splits)
qed

lemma rename_run:
  assumes r: "ready s" and q: "plains q" "q \<noteq> []" "node_at s q = Some (File i)"
    and p: "plains p" "p \<noteq> []" "is_dir_at s (butlast p)" "\<not> is_dir_at s p" and "p \<noteq> q"
  shows "\<exists>s'. os_rename (abs_path q) (abs_path p) s = (Inr (), s') \<and> ready s'
    \<and> view s' = ((view s)(q := None))(p \<mapsto> AFile (i_data (fs_inodes s i)))
    \<and> (\<forall>x. node_at s' x = (if x = p then Some (File i) else if x = q then None else node_at s x))
    \<and> fs_inodes s' = fs_inodes s"
proof -
  have qd: "is_dir_at s (butlast q)" using readyD(2) [OF r] q(2,3) by (simp add: tree_ok_def)
  let ?d = "del_node q s" and ?s = "set_node p (File i) (del_node q s)"
  have same: "same_file (File i) nd = False" if "node_at s p = Some nd" for nd
    using readyD(4) [OF r] q(3) that assms(9) by (auto simp: same_file_def unaliased_def split: node.splits)
  have wq: "walk s False (abs_path q) = Inr (At q (File i))"
    by (rule walk_open_Some [OF q(1) parents_open(1) [OF r q(1,2) qd] q(2,3)]) simp
  have edit: "may_edit s q" "may_edit s p"
    using parents_open(2) [OF r q(1,2) qd] parents_open(2) [OF r p(1,2,3)] by simp_all
  have run: "os_rename (abs_path q) (abs_path p) s = (Inr (), ?s)"
  proof (cases "node_at s p")
    case None
    have "walk s False (abs_path p) = Inr (Absent p)"
      by (rule walk_open_None [OF p(1) parents_open(1) [OF r p(1,2,3)] p(2) None])
    with wq edit show ?thesis by (simp add: os_rename_def)
  next
    case (Some nd)
    have "walk s False (abs_path p) = Inr (At p nd)"
      by (rule walk_open_Some [OF p(1) parents_open(1) [OF r p(1,2,3)] p(2) Some]) simp
    with wq edit same [OF Some] Some p(4) assms(9) show ?thesis
      by (cases nd) (auto simp: os_rename_def is_dir_at_def)
  qed
  have rd: "ready ?d"
  proof -
    have "node_at s x = None" if "x \<noteq> []" "butlast x = q" for x
      using that readyD(2) [OF r] q(3) by (auto simp: tree_ok_def is_dir_at_def)
    then have "tree_ok ?d"
      using readyD(2) [OF r] q(2) by (auto simp: tree_ok_def is_dir_at_node fs_simps)
    with r show ?thesis by (auto simp: ready_def sane_def unaliased_def fs_simps)
  qed
  have "butlast p \<noteq> q" using p(3) q(3) by (auto simp: is_dir_at_def)
  then have dir: "is_dir_at ?d (butlast p)" "\<not> is_dir_at ?d p"
    using p(3,4) by (auto simp: is_dir_at_def fs_simps)
  have "ready ?s"
  proof (rule ready_put [OF rd p(1,2) dir])
    show "node_at ?s x = (if x = p then Some (File i) else node_at ?d x)" for x by (simp add: fs_simps)
    show "fs_super ?s" "fs_next ?d \<le> fs_next ?s" using readyD(1) [OF r] by (simp_all add: fs_simps)
    fix j assume "File i = File j"
    then show "j < fs_next ?s \<and> (\<forall>x. x \<noteq> p \<longrightarrow> node_at ?d x \<noteq> Some (File j))"
      using readyD(3,4) [OF r] q(3) by (auto simp: fs_simps sane_def unaliased_def)
  qed
  moreover have "view ?s = ((view s)(q := None))(p \<mapsto> AFile (i_data (fs_inodes s i)))"
    by (auto simp: view_def fs_simps fun_eq_iff split: option.splits node.splits)
  ultimately show ?thesis using run by (auto simp: fs_simps)
qed

text \<open>The file just created, written and then renamed or removed.\<close>

text \<open>When the directory is there and the temporary name is free.\<close>

definition tmp_free :: "path \<Rightarrow> string \<Rightarrow> fs \<Rightarrow> bool" where
  "tmp_free dir name s =
     (plains (dir @ [name]) \<and> plains (dir @ [name @ ''.tmp'']) \<and> ready s \<and> is_dir_at s dir
      \<and> \<not> is_dir_at s (dir @ [name]) \<and> node_at s (dir @ [name @ ''.tmp'']) = None)"

abbreviation tmp_with :: "path \<Rightarrow> string \<Rightarrow> string \<Rightarrow> fs \<Rightarrow> fs" where
  "tmp_with dir name b s \<equiv> put_file (dir @ [name @ ''.tmp'']) b 0x1A4 s"

lemma tmp_written:
  assumes "tmp_free dir name s"
  shows "ready (tmp_with dir name b s)"
    and "view (tmp_with dir name b s) = (view s)(dir @ [name @ ''.tmp''] \<mapsto> AFile b)"
    and "os_open_trunc (abs_path (dir @ [name @ ''.tmp''])) 0x1A4 s = (Inr (fs_next s), tmp_with dir name [] s)"
    and "io_copy (fs_next s) (b, e) (tmp_with dir name [] s) =
      (case e of None \<Rightarrow> Inr () | Some x \<Rightarrow> Inl x, tmp_with dir name b s)"
    and "node_at (tmp_with dir name b s) (dir @ [name @ ''.tmp'']) = Some (File (fs_next s))"
    and "i_data (fs_inodes (tmp_with dir name b s) (fs_next s)) = b"
proof -
  let ?q = "dir @ [name @ ''.tmp'']" and ?i = "fs_next s" and ?c = "create_file (dir @ [name @ ''.tmp'']) 0x1A4 s"
  from assms have q: "plains ?q" "?q \<noteq> []" "is_dir_at s (butlast ?q)" and r: "ready s" and free: "node_at s ?q = None"
    by (simp_all add: tmp_free_def)
  show "ready (tmp_with dir name b s)" "view (tmp_with dir name b s) = (view s)(?q \<mapsto> AFile b)"
    using ready_put_file [OF r q] view_put_file [OF r] free by simp_all
  have w: "writable_at s ?q" using q free parents_open [OF r q] by (simp add: writable_at_def)
  have put: "tmp_with dir name d s = snd (fd_write ?i d ?c)" for d
    by (simp add: put_file_def free)
  have c: "?c = tmp_with dir name [] s"
    by (simp add: put fd_write_def create_file_def fs_simps set_inode_def set_node_def)
  have "os_open_trunc (abs_path ?q) 0x1A4 s = (Inr ?i, ?c)" using open_trunc_run [OF w] free by auto
  then show "os_open_trunc (abs_path ?q) 0x1A4 s = (Inr ?i, tmp_with dir name [] s)" by (simp only: c)
  show "io_copy ?i (b, e) (tmp_with dir name [] s) = (case e of None \<Rightarrow> Inr () | Some x \<Rightarrow> Inl x, tmp_with dir name b s)"
    unfolding c [symmetric] by (simp add: io_copy_def io_defs fd_write_def put split: option.splits)
  show "node_at (tmp_with dir name b s) ?q = Some (File ?i)" by (simp add: fs_simps free)
  show "i_data (fs_inodes (tmp_with dir name b s) ?i) = b" by (simp add: put fs_simps)
qed

lemma tmp_removed:
  assumes "tmp_free dir name s"
  shows "\<exists>s'. snd (os_remove (abs_path (dir @ [name @ ''.tmp''])) (tmp_with dir name b s)) = s' \<and> ready s' \<and> view s' = view s"
proof -
  let ?q = "dir @ [name @ ''.tmp'']"
  note w = tmp_written [OF assms]
  from assms have q: "plains ?q" and free: "node_at s ?q = None" by (simp_all add: tmp_free_def)
  have "is_dir_at (tmp_with dir name b s) (butlast ?q)" "\<not> is_dir_at (tmp_with dir name b s) ?q"
    using assms by (auto simp flip: view_ADir simp: w(2) tmp_free_def)
  from remove_run [OF w(1) q _ this] obtain s' where
    "io_ignore (os_remove (abs_path ?q)) (tmp_with dir name b s) = (Inr (), s')" "ready s'"
    "view s' = (view (tmp_with dir name b s))(?q := None)" by auto
  moreover have "(view s)(?q := None) = view s" by (rule fun_upd_idem) (simp add: free)
  ultimately show ?thesis by (simp add: io_ignore_def w(2))
qed

lemma tmp_renamed:
  assumes "tmp_free dir name s"
  shows "\<exists>s'. os_rename (abs_path (dir @ [name @ ''.tmp''])) (abs_path (dir @ [name])) (tmp_with dir name b s) = (Inr (), s')
    \<and> ready s' \<and> view s' = (view s)(dir @ [name] \<mapsto> AFile b)"
proof -
  let ?p = "dir @ [name]" and ?q = "dir @ [name @ ''.tmp'']" and ?w = "tmp_with dir name b s"
  note w = tmp_written [OF assms]
  from assms have p: "plains ?p" "plains ?q" and free: "node_at s ?q = None" by (simp_all add: tmp_free_def)
  have "is_dir_at ?w (butlast ?p)" "\<not> is_dir_at ?w ?p"
    using assms by (auto simp flip: view_ADir simp: w(2) tmp_free_def)
  from rename_run [OF w(1) p(2) _ w(5) p(1) _ this] obtain s' where
    "os_rename (abs_path ?q) (abs_path ?p) ?w = (Inr (), s')" "ready s'" "view s' = ((view ?w)(?q := None))(?p \<mapsto> AFile b)"
    using w(6) by auto
  moreover have "(view s)(?q := None) = view s" by (rule fun_upd_idem) (simp add: free)
  ultimately show ?thesis by (simp add: w(2))
qed

text \<open>The calls up to the temporary file.\<close>

lemma store_opened:
  assumes pl: "artifact_place dir name s"
  obtains s1 s2 where "os_mkdir_all (abs_path dir) 0x1ED s = (Inr (), s1)"
    and "io_ignore (os_remove (abs_path (dir @ [name @ ''.tmp'']))) s1 = (Inr (), s2)"
    and "tmp_free dir name s2" and "view s2 = (spec_dirs dir (view s))(dir @ [name @ ''.tmp''] := None)"
proof -
  let ?p = "dir @ [name]" and ?q = "dir @ [name @ ''.tmp'']"
  have p: "plains dir" "plains ?p" "plains ?q" "ready s" "clear_to s dir" "\<not> is_dir_at s ?p" "\<not> is_dir_at s ?q"
    using pl by (simp_all add: artifact_place_def)
  obtain s1 where s1: "os_mkdir_all (abs_path dir) 0x1ED s = (Inr (), s1)" "ready s1" "view s1 = spec_dirs dir (view s)"
    using mkdir_all_view [OF p(4,1,5)] .
  have same: "view s1 ?p = view s ?p" "view s1 ?q = view s ?q" by (simp_all add: s1(3) spec_dirs_def)
  have d1: "is_dir_at s1 dir" "\<not> is_dir_at s1 ?p" "\<not> is_dir_at s1 ?q"
    using p(5-7) same by (auto simp flip: view_ADir simp: s1(3) spec_dirs_def clear_to_iff)
  obtain s2 where s2: "io_ignore (os_remove (abs_path ?q)) s1 = (Inr (), s2)" "ready s2" "view s2 = (view s1)(?q := None)"
    using remove_run [OF s1(2) p(3)] d1 by auto
  have "is_dir_at s2 dir" "\<not> is_dir_at s2 ?p" "node_at s2 ?q = None"
    using d1 by (auto simp flip: view_ADir view_None simp: s2(3))
  then have "tmp_free dir name s2" using p(2,3) s2(2) by (simp add: tmp_free_def)
  with s1(1) s2(1) show ?thesis by (rule that) (simp add: s2(3) s1(3))
qed

lemma store_layer_run:
  assumes pl: "artifact_place dir name s"
  shows "\<exists>s'. snd (store_layer rm repo layer (abs_path (dir @ [name])) s) = s' \<and> ready s'
    \<and> (view s', \<not> isl (fst (store_layer rm repo layer (abs_path (dir @ [name])) s))) =
      spec_store dir name (Some (rm_fetch rm repo layer)) (view s)"
proof -
  have dirs: "path_dir (abs_path (dir @ [name])) = abs_path dir"
    using pl path_dir_abs [of "dir @ [name]"] by (simp add: artifact_place_def)
  obtain s1 s2 where s1: "os_mkdir_all (abs_path dir) 0x1ED s = (Inr (), s1)"
      and s2: "io_ignore (os_remove (abs_path (dir @ [name @ ''.tmp'']))) s1 = (Inr (), s2)"
      and free: "tmp_free dir name s2" and v: "view s2 = (spec_dirs dir (view s))(dir @ [name @ ''.tmp''] := None)"
    using store_opened [OF pl] .
  note w = tmp_written [OF free] and clean = tmp_removed [OF free]
  note start = store_layer_def Let_def abs_path_tmp dirs io_bind_def io_wrap_def io_cleanup_def io_lift_def s1 s2 w(3) spec_store_def
  show ?thesis
  proof (cases "rm_fetch rm repo layer")
    case (Inl e)
    then show ?thesis using clean [of "[]"] v by (auto simp: start)
  next
    case (Inr r)
    obtain b e where r: "r = (b, e)" by (cases r)
    show ?thesis
    proof (cases e)
      case (Some x)
      then show ?thesis using clean [of b] v Inr by (auto simp: start r w(4))
    next
      case None
      then show ?thesis using tmp_renamed [OF free, of b] v Inr by (auto simp: start r w(4))
    qed
  qed
qed

lemma spec_store_dst:
  assumes "(t', ok) = spec_store dir name src t"
  shows "if ok then \<exists>b. src = Some (Inr (b, None)) \<and> t' (dir @ [name]) = Some (AFile b)
    else t' (dir @ [name]) = t (dir @ [name])"
proof -
  have keep: "((spec_dirs dir t)(dir @ [name @ ''.tmp''] := None)) (dir @ [name]) = t (dir @ [name])"
    by (simp add: spec_dirs_def)
  show ?thesis
  proof (cases src)
    case None
    with assms show ?thesis by (simp add: spec_store_def)
  next
    case (Some r)
    show ?thesis
    proof (cases "\<exists>b. r = Inr (b, None)")
      case True
      with Some assms show ?thesis by (auto simp: spec_store_def Let_def)
    next
      case False
      with Some assms keep show ?thesis
        by (cases r) (auto simp: spec_store_def Let_def split: prod.splits option.splits)
    qed
  qed
qed

section \<open>The contract\<close>

locale artifact =
  fixes pull :: "remote \<Rightarrow> environ \<Rightarrow> string \<Rightarrow> (fs, unit) io"
    and dst :: "environ \<Rightarrow> string"
    and name :: string
    and media_type :: string
  assumes dst: "env ''XDG_DATA_HOME'' = abs_path D \<Longrightarrow> plains D \<Longrightarrow>
      dst env = abs_path ((D @ [''weft-microvm'']) @ [name])"
    and stores: "artifact_source rm env img media_type = Some r \<Longrightarrow>
      \<exists>repo layer. rm_fetch rm repo layer = r \<and> pull rm env img = store_layer rm repo layer (dst env)"
    and refuses: "artifact_source rm env img media_type = None \<Longrightarrow> \<exists>e. pull rm env img s = (Inl e, s)"
begin

lemma pull_store:
  assumes "env ''XDG_DATA_HOME'' = abs_path D" and "plains D"
    and "artifact_place (D @ [''weft-microvm'']) name s"
  shows "\<exists>s'. snd (pull rm env img s) = s' \<and> ready s'
    \<and> outcome (pull rm env img s) =
      spec_store (D @ [''weft-microvm'']) name (artifact_source rm env img media_type) (view s)"
proof (cases "artifact_source rm env img media_type")
  case None
  with refuses [of rm env img s] assms(3) show ?thesis
    by (auto simp: spec_store_def outcome_def artifact_place_def)
next
  case (Some r)
  then obtain repo layer where l: "rm_fetch rm repo layer = r" "pull rm env img = store_layer rm repo layer (dst env)"
    using stores by blast
  from store_layer_run [OF assms(3), of rm repo layer] show ?thesis
    unfolding l(2) dst [of env D, OF assms(1,2)] Some outcome_def by (simp add: l(1))
qed

text \<open>The destination is never half written.\<close>

lemma atomic:
  assumes "env ''XDG_DATA_HOME'' = abs_path D" and "plains D"
    and "artifact_place (D @ [''weft-microvm'']) name s"
  shows "case pull rm env img s of
      (Inl _, s') \<Rightarrow> view s' ((D @ [''weft-microvm'']) @ [name]) = view s ((D @ [''weft-microvm'']) @ [name])
    | (Inr _, s') \<Rightarrow> \<exists>b. artifact_source rm env img media_type = Some (Inr (b, None))
        \<and> view s' ((D @ [''weft-microvm'']) @ [name]) = Some (AFile b)"
  using pull_store [of env D, OF assms, of rm img]
  by (cases "pull rm env img s"; cases "fst (pull rm env img s)") (auto simp: outcome_def dest: spec_store_dst)

end

lemma data_file:
  "env ''XDG_DATA_HOME'' = abs_path D \<Longrightarrow> plains D \<Longrightarrow> plain n \<Longrightarrow>
   path_join [data_dir env, n] = abs_path ((D @ [''weft-microvm'']) @ [n])"
  using path_join_plain [of "D @ [''weft-microvm'']" n]
  by (simp add: data_dir_abs [of env D] plain_def)

lemma io_lift_simps: "io_lift (Inr x) = io_return x" "io_lift (Inl e) = io_throw e"
  by (simp_all add: io_defs)

lemmas artifact_cases = artifact_source_def Let_def io_lift_simps

interpretation kernel: artifact pull_kernel kernel_path "''kernel''" kernel_layer_media_type
proof
  show "env ''XDG_DATA_HOME'' = abs_path D \<Longrightarrow> plains D \<Longrightarrow>
      kernel_path env = abs_path ((D @ [''weft-microvm'']) @ [''kernel''])" for env D
    unfolding kernel_path_def by (rule data_file [of env D]) (simp_all add: plain_def)
  show "artifact_source rm env img kernel_layer_media_type = Some r \<Longrightarrow>
      \<exists>repo layer. rm_fetch rm repo layer = r \<and> pull_kernel rm env img = store_layer rm repo layer (kernel_path env)"
    for rm env img r
    unfolding pull_kernel_def artifact_cases by (fastforce simp: io_lift_simps split: sum.splits prod.splits)
  show "artifact_source rm env img kernel_layer_media_type = None \<Longrightarrow> \<exists>e. pull_kernel rm env img s = (Inl e, s)"
    for rm env img s
    unfolding pull_kernel_def artifact_cases by (auto simp: io_run split: sum.splits prod.splits)
qed

interpretation pod_initrd: artifact pull_pod_initrd pod_initrd_path "''pod-initrd''" pod_initrd_layer_media_type
proof
  show "env ''XDG_DATA_HOME'' = abs_path D \<Longrightarrow> plains D \<Longrightarrow>
      pod_initrd_path env = abs_path ((D @ [''weft-microvm'']) @ [''pod-initrd''])" for env D
    unfolding pod_initrd_path_def by (rule data_file [of env D]) (simp_all add: plain_def)
  show "artifact_source rm env img pod_initrd_layer_media_type = Some r \<Longrightarrow>
      \<exists>repo layer. rm_fetch rm repo layer = r \<and> pull_pod_initrd rm env img = store_layer rm repo layer (pod_initrd_path env)"
    for rm env img r
    unfolding pull_pod_initrd_def artifact_cases by (fastforce simp: io_lift_simps split: sum.splits prod.splits)
  show "artifact_source rm env img pod_initrd_layer_media_type = None \<Longrightarrow> \<exists>e. pull_pod_initrd rm env img s = (Inl e, s)"
    for rm env img s
    unfolding pull_pod_initrd_def artifact_cases by (auto simp: io_run split: sum.splits prod.splits)
qed

text \<open>
  C19. Pulling the kernel replaces it in one step: whatever the registry does, the tree afterwards is
  the one before, with the data directory made and no temporary file, and with the kernel's content
  exchanged for the layer's if and only if the call reports success, which it does exactly when all
  of the layer arrived.
\<close>

theorem kernel_replaced:
  assumes "env ''XDG_DATA_HOME'' = abs_path D" and "plains D"
    and "artifact_place (D @ [''weft-microvm'']) ''kernel'' s"
  shows "outcome (pull_kernel rm env img s) =
    spec_store (D @ [''weft-microvm'']) ''kernel'' (artifact_source rm env img kernel_layer_media_type) (view s)"
  using kernel.pull_store [of env D, OF assms] by blast

text \<open>
  The shared initramfs is never half written: after a failed pull it is what it was before, after
  a successful one all of the layer of its type.
\<close>

theorem pod_initrd_atomic:
  assumes "env ''XDG_DATA_HOME'' = abs_path D" and "plains D"
    and "artifact_place (D @ [''weft-microvm'']) ''pod-initrd'' s"
  shows "case pull_pod_initrd rm env img s of
      (Inl _, s') \<Rightarrow> view s' (D @ [''weft-microvm'', ''pod-initrd'']) = view s (D @ [''weft-microvm'', ''pod-initrd''])
    | (Inr _, s') \<Rightarrow> \<exists>b. artifact_source rm env img pod_initrd_layer_media_type = Some (Inr (b, None))
        \<and> view s' (D @ [''weft-microvm'', ''pod-initrd'']) = Some (AFile b)"
  using pod_initrd.atomic [of env D, OF assms, of rm img] by (simp only: append_assoc append_Cons append_Nil)

section \<open>Concrete pulls\<close>

lemma sample_source:
  assumes "ascii mt"
  shows "artifact_source (sample_remote [mt]) sample_env ''alpine:3'' mt =
    (if mt = ''m'' then Some (Inr (manifest_text [mt], None)) else if mt = ''cfg'' then Some (Inr (image_text, None))
     else Some (Inr (mt, None)))"
proof -
  have "rm_fetch (sample_remote [mt]) sample_repo d =
      Inr (if d_digest d = ''m'' then manifest_text [mt] else if d_digest d = ''cfg'' then image_text else d_digest d, None)" for d
    by (simp add: sample_remote_def)
  with assms show ?thesis by (simp add: artifact_source_def sample_reference sample_manifest plain_desc_def)
qed

lemma sample_kernel_source:
  "artifact_source (sample_remote [kernel_layer_media_type]) sample_env ''alpine:3'' kernel_layer_media_type =
     Some (Inr (kernel_layer_media_type, None))"
  by (subst sample_source) (simp_all add: ascii_def code_def kernel_layer_media_type_def)

lemma sample_initrd_source:
  "artifact_source (sample_remote [pod_initrd_layer_media_type]) sample_env ''alpine:3'' pod_initrd_layer_media_type =
     Some (Inr (pod_initrd_layer_media_type, None))"
  by (subst sample_source) (simp_all add: ascii_def code_def pod_initrd_layer_media_type_def)

lemma sample_place:
  "artifact_place ([''d''] @ [''weft-microvm'']) ''kernel'' sample_deep"
  "artifact_place ([''d''] @ [''weft-microvm'']) ''pod-initrd'' sample_deep"
  "sample_env ''XDG_DATA_HOME'' = abs_path [''d'']" "plains [''d'']"
proof -
  have "ready sample_deep" by (rule ready_check_ready) code_simp
  moreover have "plains ([''d''] @ [''weft-microvm''])" "plain ''kernel''" "plain ''kernel.tmp''" "plain ''pod-initrd''"
      "plain ''pod-initrd.tmp''" "clear_to sample_deep ([''d''] @ [''weft-microvm''])"
      "\<not> is_dir_at sample_deep (([''d''] @ [''weft-microvm'']) @ [''kernel''])"
      "\<not> is_dir_at sample_deep (([''d''] @ [''weft-microvm'']) @ [''kernel.tmp''])"
      "\<not> is_dir_at sample_deep (([''d''] @ [''weft-microvm'']) @ [''pod-initrd''])"
      "\<not> is_dir_at sample_deep (([''d''] @ [''weft-microvm'']) @ [''pod-initrd.tmp''])"
    by code_simp+
  ultimately show "artifact_place ([''d''] @ [''weft-microvm'']) ''kernel'' sample_deep"
      "artifact_place ([''d''] @ [''weft-microvm'']) ''pod-initrd'' sample_deep"
    by (simp_all add: artifact_place_def)
  show "sample_env ''XDG_DATA_HOME'' = abs_path [''d'']" "plains [''d'']" by code_simp+
qed

theorem kernel_replaced_witness:
  "outcome (pull_kernel (sample_remote [kernel_layer_media_type]) sample_env ''alpine:3'' sample_deep) =
     (((spec_dirs [''d'', ''weft-microvm''] (view sample_deep))([''d'', ''weft-microvm'', ''kernel.tmp''] := None))
        ([''d'', ''weft-microvm'', ''kernel''] \<mapsto> AFile kernel_layer_media_type), True)"
  using kernel_replaced [of sample_env "[''d'']", OF sample_place(3,4,1), of "sample_remote [kernel_layer_media_type]" "''alpine:3''"]
  by (simp add: sample_kernel_source spec_store_def)

theorem pod_initrd_atomic_witness:
  "case pull_pod_initrd (sample_remote [pod_initrd_layer_media_type]) sample_env ''alpine:3'' sample_deep of
      (Inl _, s') \<Rightarrow> view s' [''d'', ''weft-microvm'', ''pod-initrd''] = None
    | (Inr _, s') \<Rightarrow> view s' [''d'', ''weft-microvm'', ''pod-initrd''] = Some (AFile pod_initrd_layer_media_type)"
proof -
  have "view sample_deep [''d'', ''weft-microvm'', ''pod-initrd''] = None" by code_simp
  with pod_initrd_atomic [of sample_env "[''d'']", OF sample_place(3,4,2), of "sample_remote [pod_initrd_layer_media_type]" "''alpine:3''"]
  show ?thesis by (simp add: sample_initrd_source del: view_None split: prod.splits sum.splits)
qed

end
