(* ===== verification/Store_Steps.thy ===== *)
theory Store_Steps
  imports Artifacts
begin

text \<open>
  Storing a boot artefact one system call at a time.  \<open>store_layer\<close> is the same code run without
  interruption; here it can stop anywhere, as when the process is killed, and several processes can
  take turns, as when a daemon and a user pull at the same moment.  The content arrives in chunks, each
  written at the offset of the file handle.
\<close>

section \<open>One process\<close>

record store_job =
  jb_dst :: string
  jb_fetch :: "error + string list \<times> error option"

datatype store_pc = Making | Tidying | Creating | Fetching nat | Copying nat nat "string list" "error option"
  | Renaming | Cleaning | Stored | Gave_up

definition nul :: "nat \<Rightarrow> string" where
  "nul n = replicate n (CHR 0x00)"

text \<open>A write at an offset: what another process has cut off is filled with zeros.\<close>

definition pwrite :: "nat \<Rightarrow> nat \<Rightarrow> string \<Rightarrow> fs \<Rightarrow> fs" where
  "pwrite i off b s =
     (let x = fs_inodes s i; d = i_data x
      in set_inode i (x\<lparr>i_data := take off d @ nul (off - length d) @ b @ drop (off + length b) d, i_mtime := fs_now s\<rparr>) s)"

fun store_step :: "store_job \<Rightarrow> store_pc \<Rightarrow> fs \<Rightarrow> store_pc \<times> fs" where
  "store_step j Making s =
     (case os_mkdir_all (path_dir (jb_dst j)) 0x1ED s of (Inl _, s') \<Rightarrow> (Gave_up, s') | (Inr _, s') \<Rightarrow> (Tidying, s'))"
| "store_step j Tidying s = (Creating, snd (os_remove (jb_dst j @ ''.tmp'') s))"
| "store_step j Creating s =
     (case os_open_trunc (jb_dst j @ ''.tmp'') 0x1A4 s of (Inl _, s') \<Rightarrow> (Gave_up, s') | (Inr i, s') \<Rightarrow> (Fetching i, s'))"
| "store_step j (Fetching i) s = (case jb_fetch j of Inl _ \<Rightarrow> Cleaning | Inr (cs, e) \<Rightarrow> Copying i 0 cs e, s)"
| "store_step j (Copying i off (c # cs) e) s = (Copying i (off + length c) cs e, pwrite i off c s)"
| "store_step j (Copying i off [] None) s = (Renaming, s)"
| "store_step j (Copying i off [] (Some _)) s = (Cleaning, s)"
| "store_step j Renaming s =
     (case os_rename (jb_dst j @ ''.tmp'') (jb_dst j) s of (Inl _, s') \<Rightarrow> (Cleaning, s') | (Inr _, s') \<Rightarrow> (Stored, s'))"
| "store_step j Cleaning s = (Gave_up, snd (os_remove (jb_dst j @ ''.tmp'') s))"
| "store_step j Stored s = (Stored, s)"
| "store_step j Gave_up s = (Gave_up, s)"

definition over :: "store_pc \<Rightarrow> bool" where
  "over pc = (pc = Stored \<or> pc = Gave_up)"

fun store_run :: "nat \<Rightarrow> store_job \<Rightarrow> store_pc \<Rightarrow> fs \<Rightarrow> store_pc \<times> fs" where
  "store_run 0 j pc s = (pc, s)"
| "store_run (Suc n) j pc s = (case store_step j pc s of (pc', s') \<Rightarrow> store_run n j pc' s')"

text \<open>How many more steps a process takes at most: every chunk is one, and so is every other call.\<close>

definition chunks :: "store_job \<Rightarrow> nat" where
  "chunks j = (case jb_fetch j of Inl _ \<Rightarrow> 0 | Inr (cs, _) \<Rightarrow> length cs)"

fun remaining :: "store_job \<Rightarrow> store_pc \<Rightarrow> nat" where
  "remaining j Making = chunks j + 7"
| "remaining j Tidying = chunks j + 6"
| "remaining j Creating = chunks j + 5"
| "remaining j (Fetching i) = chunks j + 4"
| "remaining j (Copying i off cs e) = length cs + 3"
| "remaining j Renaming = 2"
| "remaining j Cleaning = 1"
| "remaining j Stored = 0"
| "remaining j Gave_up = 0"

text \<open>The reader of the program's model delivers the chunks as one string.\<close>

definition delivered :: "error + string list \<times> error option \<Rightarrow> error + stream" where
  "delivered r = (case r of Inl e \<Rightarrow> Inl e | Inr (cs, e) \<Rightarrow> Inr (concat cs, e))"

section \<open>Left alone, a process is \<open>store_layer\<close>\<close>

lemma run_over: "over pc \<Longrightarrow> store_run n j pc s = (pc, s)"
  by (induction n) (auto simp: over_def)

lemma remaining_over: "remaining j pc = 0 \<longleftrightarrow> over pc"
  by (cases pc) (simp_all add: over_def)

lemma step_remaining: "\<not> over pc \<Longrightarrow> remaining j (fst (store_step j pc s)) < remaining j pc"
  by (cases "(j, pc, s)" rule: store_step.cases) (auto simp: over_def chunks_def split: sum.split prod.split)

lemma run_done: "remaining j pc \<le> n \<Longrightarrow> over (fst (store_run n j pc s))"
proof (induction n arbitrary: pc s)
  case (Suc n)
  show ?case
  proof (cases "over pc")
    case False
    from step_remaining [OF this, of j s] Suc show ?thesis by (cases "store_step j pc s") simp
  qed (simp add: run_over del: store_run.simps)
qed (simp add: remaining_over)

text \<open>So the end of a run does not depend on the number of steps that are given, once there are enough.\<close>

lemma run_add: "store_run (m + n) j pc s = (case store_run m j pc s of (pc', s') \<Rightarrow> store_run n j pc' s')"
  by (induction m arbitrary: pc s) (auto split: prod.split)

lemma run_end:
  assumes "store_run n j pc s = r" and "over (fst r)" and "remaining j pc \<le> m"
  shows "store_run m j pc s = r"
proof -
  have "store_run (n + m) j pc s = r" using assms(1,2) by (cases r) (simp add: run_add run_over)
  moreover have "store_run (m + n) j pc s = store_run m j pc s"
    using run_done [OF assms(3), of s] by (cases "store_run m j pc s") (simp add: run_add run_over)
  ultimately show ?thesis by (simp add: add.commute)
qed

lemma run_Suc: "store_step j pc s = (pc', s') \<Longrightarrow> store_run (Suc n) j pc s = store_run n j pc' s'"
  by simp

lemma pwrite_append:
  "length (i_data (fs_inodes s i)) = off \<Longrightarrow> pwrite i off b s = snd (fd_write i b s)"
  by (simp add: pwrite_def fd_write_def Let_def nul_def)

lemma fd_write_append: "snd (fd_write i c (snd (fd_write i b s))) = snd (fd_write i (b @ c) s)"
  by (simp add: fd_write_def set_inode_def)

lemma run_chunks:
  "length (i_data (fs_inodes s i)) = off \<Longrightarrow>
   store_run (length cs + n) j (Copying i off cs e) (snd (fd_write i [] s)) =
   store_run n j (Copying i (off + length (concat cs)) [] e) (snd (fd_write i (concat cs) s))"
proof (induction cs arbitrary: off s)
  case (Cons c cs)
  have "length (i_data (fs_inodes (snd (fd_write i [] s)) i)) = off"
    using Cons.prems by (simp add: fd_write_def set_inode_def)
  then have "pwrite i off c (snd (fd_write i [] s)) = snd (fd_write i [] (snd (fd_write i c s)))"
    by (simp add: pwrite_append fd_write_append)
  moreover have "length (i_data (fs_inodes (snd (fd_write i c s)) i)) = off + length c"
    using Cons.prems by (simp add: fd_write_def set_inode_def)
  ultimately show ?case
    using Cons.IH [of "snd (fd_write i c s)" "off + length c"] by (simp add: fd_write_append add.assoc)
qed simp

lemma opened_empty:
  assumes "os_open_trunc p m s = (Inr i, s')"
  shows "i_data (fs_inodes s' i) = []" and "snd (fd_write i [] s') = s'"
  using assms
  by (auto simp: os_open_trunc_def create_file_def truncate_file_def fd_write_def set_inode_def set_node_def
      split: sum.splits place.splits node.splits if_splits)

definition ends :: "store_job \<Rightarrow> store_pc \<Rightarrow> fs \<Rightarrow> store_pc \<times> fs \<Rightarrow> bool" where
  "ends j pc s r \<longleftrightarrow> (\<exists>n. store_run n j pc s = r)"

lemma ends_step: "store_step j pc s = (pc', s') \<Longrightarrow> ends j pc' s' r \<Longrightarrow> ends j pc s r"
  unfolding ends_def by (metis run_Suc)

lemma ends_over: "over pc \<Longrightarrow> ends j pc s (pc, s)"
  unfolding ends_def by (auto simp: run_over)

lemma ends_cleaning: "ends j Cleaning s (Gave_up, snd (os_remove (jb_dst j @ ''.tmp'') s))"
  by (rule ends_step [OF store_step.simps(9) ends_over]) (simp add: over_def)

lemma ends_renaming:
  "ends j Renaming s (case os_rename (jb_dst j @ ''.tmp'') (jb_dst j) s of
     (Inl _, s') \<Rightarrow> (Gave_up, snd (os_remove (jb_dst j @ ''.tmp'') s')) | (Inr _, s') \<Rightarrow> (Stored, s'))"
proof (cases "os_rename (jb_dst j @ ''.tmp'') (jb_dst j) s")
  case (Pair r s')
  show ?thesis
  proof (cases r)
    case (Inl e)
    with Pair have "store_step j Renaming s = (Cleaning, s')" by simp
    from ends_step [OF this ends_cleaning] Inl Pair show ?thesis by simp
  next
    case (Inr x)
    with Pair have "store_step j Renaming s = (Stored, s')" by simp
    from ends_step [OF this ends_over] Inr Pair show ?thesis by (simp add: over_def)
  qed
qed

lemma ends_copying:
  assumes "length (i_data (fs_inodes s i)) = 0" and "snd (fd_write i [] s) = s"
    and "ends j (case e of None \<Rightarrow> Renaming | Some _ \<Rightarrow> Cleaning) (snd (fd_write i (concat cs) s)) r"
  shows "ends j (Copying i 0 cs e) s r"
proof -
  have "ends j (Copying i (length (concat cs)) [] e) (snd (fd_write i (concat cs) s)) r"
    using assms(3) by (cases e) (auto intro: ends_step [rotated])
  then obtain n where "store_run n j (Copying i (length (concat cs)) [] e) (snd (fd_write i (concat cs) s)) = r"
    by (auto simp: ends_def)
  with run_chunks [OF assms(1), of cs n j e] assms(2) show ?thesis
    unfolding ends_def by (metis add_0)
qed

text \<open>How a computation of the code has ended, as the last counter of a process.\<close>

definition verdict :: "(error + unit) \<times> fs \<Rightarrow> store_pc \<times> fs" where
  "verdict r = (if isl (fst r) then Gave_up else Stored, snd r)"

text \<open>The code from the download on, with the temporary file open.\<close>

abbreviation store_fetched :: "remote \<Rightarrow> repo \<Rightarrow> descriptor \<Rightarrow> string \<Rightarrow> nat \<Rightarrow> (fs, unit) io" where
  "store_fetched rm repo layer dst f \<equiv>
     io_bind (io_cleanup (os_remove (dst @ ''.tmp''))
       (io_wrap (Wrapf ''pull blob: %w'' []) (io_lift (rm_fetch rm repo layer)))) (\<lambda>rc.
     io_bind (io_cleanup (os_remove (dst @ ''.tmp'')) (io_wrap (Wrapf ''write blob: %w'' []) (io_copy f rc))) (\<lambda>_.
     io_cleanup (os_remove (dst @ ''.tmp''))
       (io_wrap (Wrapf (''rename %s '' @ arrow @ '' %s: %w'') [dst @ ''.tmp'', dst]) (os_rename (dst @ ''.tmp'') dst))))"

lemma ends_fetching:
  assumes f: "rm_fetch rm repo layer = delivered (jb_fetch j)"
    and empty: "i_data (fs_inodes s i) = []" "snd (fd_write i [] s) = s"
  shows "ends j (Fetching i) s (verdict (store_fetched rm repo layer (jb_dst j) i s))"
proof -
  note code = io_bind_def io_wrap_def io_cleanup_def io_lift_def verdict_def
  show ?thesis
  proof (cases "jb_fetch j")
    case (Inl e)
    with f have f: "rm_fetch rm repo layer = Inl e" by (simp add: delivered_def)
    from Inl have "store_step j (Fetching i) s = (Cleaning, s)" by simp
    from ends_step [OF this ends_cleaning] f show ?thesis by (simp add: code)
  next
    case (Inr q)
    obtain cs e where q: "q = (cs, e)" by fastforce
    with f Inr have f: "rm_fetch rm repo layer = Inr (concat cs, e)" by (simp add: delivered_def)
    let ?w = "snd (fd_write i (concat cs) s)"
    have w: "io_copy i (concat cs, e) s = (case e of None \<Rightarrow> Inr () | Some x \<Rightarrow> Inl x, ?w)"
      by (simp add: io_copy_def io_defs fd_write_def split: option.split)
    have "ends j (case e of None \<Rightarrow> Renaming | Some _ \<Rightarrow> Cleaning) ?w (verdict (store_fetched rm repo layer (jb_dst j) i s))"
      using ends_cleaning [of j ?w] ends_renaming [of j ?w] f w
      by (cases e; cases "os_rename (jb_dst j @ ''.tmp'') (jb_dst j) ?w"; cases "fst (os_rename (jb_dst j @ ''.tmp'') (jb_dst j) ?w)")
        (simp_all add: code)
    then have "ends j (Copying i 0 cs e) s (verdict (store_fetched rm repo layer (jb_dst j) i s))"
      by (intro ends_copying) (use empty in simp_all)
    moreover have "store_step j (Fetching i) s = (Copying i 0 cs e, s)" using Inr q by simp
    ultimately show ?thesis by (rule ends_step [rotated])
  qed
qed

lemma ends_making:
  assumes f: "rm_fetch rm repo layer = delivered (jb_fetch j)"
  shows "ends j Making s (verdict (store_layer rm repo layer (jb_dst j) s))"
proof -
  let ?d = "jb_dst j" and ?t = "jb_dst j @ ''.tmp''" and ?v = "verdict (store_layer rm repo layer (jb_dst j) s)"
  obtain a s1 where mk: "os_mkdir_all (path_dir ?d) 0x1ED s = (a, s1)" by fastforce
  obtain b s2 where rm: "os_remove ?t s1 = (b, s2)" by fastforce
  obtain c s3 where op: "os_open_trunc ?t 0x1A4 s2 = (c, s3)" by fastforce
  note code = store_layer_def Let_def io_bind_def io_wrap_def io_ignore_def mk rm op verdict_def
  show ?thesis
  proof (cases a)
    case (Inl e)
    then have "store_step j Making s = (Gave_up, s1)" by (simp add: mk)
    from ends_step [OF this ends_over] Inl show ?thesis by (simp add: code over_def)
  next
    case a: (Inr x)
    have "ends j Creating s2 ?v"
    proof (cases c)
      case (Inl e)
      then have "store_step j Creating s2 = (Gave_up, s3)" by (simp add: op)
      from ends_step [OF this ends_over] Inl a show ?thesis by (simp add: code over_def)
    next
      case c: (Inr i)
      have calls: "io_bind (io_wrap w (os_mkdir_all (path_dir ?d) 0x1ED)) g s = g x s1"
          "io_bind (io_ignore (os_remove ?t)) g' s1 = g' () s2"
          "io_bind (io_wrap w (os_open_trunc ?t 0x1A4)) g'' s2 = g'' i s3"
        for w and g g' :: "unit \<Rightarrow> (fs, unit) io" and g'' :: "nat \<Rightarrow> (fs, unit) io"
        by (simp_all add: io_bind_def io_wrap_def io_ignore_def mk rm op a c)
      have "store_layer rm repo layer ?d s = store_fetched rm repo layer ?d i s3"
        unfolding store_layer_def Let_def calls ..
      moreover have "store_step j Creating s2 = (Fetching i, s3)" by (simp add: op c)
      ultimately show ?thesis
        using ends_step ends_fetching [OF f opened_empty [OF op [unfolded c]]] by metis
    qed
    moreover have "store_step j Tidying s1 = (Creating, s2)" by (simp add: rm)
    moreover have "store_step j Making s = (Tidying, s1)" by (simp add: mk a)
    ultimately show ?thesis by (blast intro: ends_step)
  qed
qed

text \<open>
  C17. A process left alone is the program's code: from the start it comes to an end within seven steps
  and one for each chunk, in the state in which storing the layer ends, as stored exactly when that
  reports success.
\<close>

theorem store_steps_agree:
  assumes "rm_fetch rm repo layer = delivered (jb_fetch j)"
  shows "store_run (chunks j + 7) j Making s =
    (if isl (fst (store_layer rm repo layer (jb_dst j) s)) then Gave_up else Stored,
     snd (store_layer rm repo layer (jb_dst j) s))"
proof -
  obtain n where n: "store_run n j Making s = verdict (store_layer rm repo layer (jb_dst j) s)"
    using ends_making [OF assms] by (auto simp: ends_def)
  have "store_run (chunks j + 7) j Making s = verdict (store_layer rm repo layer (jb_dst j) s)"
    by (rule run_end [OF n]) (simp_all add: over_def verdict_def)
  then show ?thesis by (simp add: verdict_def)
qed

theorem store_steps_agree_witness:
  "store_run 9 \<lparr>jb_dst = ''/d/kernel'', jb_fetch = Inr ([''ab'', ''cd''], None)\<rparr> Making sample_deep =
     (if isl (fst (store_layer (sample_remote []) sample_repo (plain_desc [] ''abcd'') ''/d/kernel'' sample_deep)) then Gave_up
      else Stored, snd (store_layer (sample_remote []) sample_repo (plain_desc [] ''abcd'') ''/d/kernel'' sample_deep))"
proof -
  let ?j = "\<lparr>jb_dst = ''/d/kernel'', jb_fetch = Inr ([''ab'', ''cd''], None)\<rparr>"
  have "rm_fetch (sample_remote []) sample_repo (plain_desc [] ''abcd'') = delivered (jb_fetch ?j)"
    by (simp add: sample_remote_def plain_desc_def delivered_def)
  from store_steps_agree [OF this] show ?thesis by (simp add: chunks_def del: store_run.simps)
qed

end
