(* ===== verification/Store_Race.thy ===== *)
theory Store_Race
  imports Store_Steps
begin

text \<open>
  Processes that store boot artefacts at the same time, one system call at a time in any order, and any
  of them killed anywhere: with different artefacts every destination is at every moment what it was or
  all of a layer; with the same artefact it is not.
\<close>

section \<open>Several processes\<close>

inductive sys_step :: "('p \<Rightarrow> store_job) \<Rightarrow> ('p \<Rightarrow> store_pc) \<times> fs \<Rightarrow> ('p \<Rightarrow> store_pc) \<times> fs \<Rightarrow> bool" for jobs where
  turn: "\<not> over (pcs k) \<Longrightarrow> store_step (jobs k) (pcs k) s = (pc', s') \<Longrightarrow> sys_step jobs (pcs, s) (pcs(k := pc'), s')"

inductive_cases sys_stepE: "sys_step jobs (pcs, s) y"

text \<open>What is reached from the start; a process that is killed just takes no more turns.\<close>

abbreviation reached :: "('p \<Rightarrow> store_job) \<Rightarrow> fs \<Rightarrow> ('p \<Rightarrow> store_pc) \<times> fs \<Rightarrow> bool" where
  "reached jobs s0 \<equiv> (sys_step jobs)\<^sup>*\<^sup>* (\<lambda>_. Making, s0)"

definition complete :: "store_job \<Rightarrow> string \<Rightarrow> bool" where
  "complete j b \<longleftrightarrow> (\<exists>cs. jb_fetch j = Inr (cs, None) \<and> b = concat cs)"

section \<open>What one turn does\<close>

definition tmp_name :: "string \<Rightarrow> string" where
  "tmp_name n = n @ ''.tmp''"

text \<open>A name keeps its node, and a file its content.\<close>

definition same_at :: "fs \<Rightarrow> fs \<Rightarrow> path \<Rightarrow> bool" where
  "same_at s s' q \<longleftrightarrow>
     node_at s' q = node_at s q \<and> (\<forall>i. node_at s q = Some (File i) \<longrightarrow> i_data (fs_inodes s' i) = i_data (fs_inodes s i))"

lemma same_at_view: "same_at s s' q \<Longrightarrow> view s' q = view s q"
  by (auto simp: same_at_def view_def split: option.splits node.splits)

lemma same_at_refl: "same_at s s q"
  by (simp add: same_at_def)

text \<open>Where the process is: what its temporary file holds.\<close>

fun progress :: "path \<Rightarrow> string \<Rightarrow> store_job \<Rightarrow> store_pc \<Rightarrow> fs \<Rightarrow> bool" where
  "progress dir name j Making s = True"
| "progress dir name j Tidying s = is_dir_at s dir"
| "progress dir name j Creating s = (is_dir_at s dir \<and> node_at s (dir @ [tmp_name name]) = None)"
| "progress dir name j (Fetching i) s =
     (is_dir_at s dir \<and> node_at s (dir @ [tmp_name name]) = Some (File i) \<and> i_data (fs_inodes s i) = [])"
| "progress dir name j (Copying i off cs e) s =
     (is_dir_at s dir \<and> node_at s (dir @ [tmp_name name]) = Some (File i)
      \<and> (\<exists>ds. jb_fetch j = Inr (ds @ cs, e) \<and> i_data (fs_inodes s i) = concat ds \<and> off = length (concat ds)))"
| "progress dir name j Renaming s =
     (is_dir_at s dir \<and> (\<exists>i. node_at s (dir @ [tmp_name name]) = Some (File i) \<and> complete j (i_data (fs_inodes s i))))"
| "progress dir name j Cleaning s = is_dir_at s dir"
| "progress dir name j Stored s = (is_dir_at s dir \<and> (\<exists>b. complete j b \<and> view s (dir @ [name]) = Some (AFile b)))"
| "progress dir name j Gave_up s = True"

definition place :: "path \<Rightarrow> string \<Rightarrow> fs \<Rightarrow> bool" where
  "place dir name s =
     (ready s \<and> clear_to s dir \<and> \<not> is_dir_at s (dir @ [name]) \<and> \<not> is_dir_at s (dir @ [tmp_name name]))"

text \<open>The effect of a turn on everything else, and on the destination.\<close>

definition turned :: "path \<Rightarrow> string \<Rightarrow> store_job \<Rightarrow> fs \<Rightarrow> store_pc \<times> fs \<Rightarrow> bool" where
  "turned dir name j s r =
     (case r of (pc', s') \<Rightarrow> place dir name s' \<and> progress dir name j pc' s'
       \<and> (\<forall>q. q \<noteq> dir @ [name] \<and> q \<noteq> dir @ [tmp_name name] \<and> (\<not> prefix q dir \<or> node_at s q \<noteq> None) \<longrightarrow> same_at s s' q)
       \<and> (view s' (dir @ [name]) = view s (dir @ [name]) \<or> (\<exists>b. complete j b \<and> view s' (dir @ [name]) = Some (AFile b))))"

lemma turnedI:
  assumes "ready s'" and "clear_to s' dir" and "\<not> is_dir_at s' (dir @ [name])" and "\<not> is_dir_at s' (dir @ [tmp_name name])"
    and "progress dir name j pc' s'"
    and "\<And>q. q \<noteq> dir @ [name] \<Longrightarrow> q \<noteq> dir @ [tmp_name name] \<Longrightarrow> \<not> prefix q dir \<or> node_at s q \<noteq> None \<Longrightarrow> same_at s s' q"
    and "view s' (dir @ [name]) = view s (dir @ [name]) \<or> (\<exists>b. complete j b \<and> view s' (dir @ [name]) = Some (AFile b))"
  shows "turned dir name j s (pc', s')"
  using assms by (simp add: turned_def place_def)

lemma turned_same:
  "place dir name s \<Longrightarrow> progress dir name j pc' s \<Longrightarrow> turned dir name j s (pc', s)"
  by (auto simp: turned_def same_at_refl)

text \<open>A change of nodes and contents at the temporary name only.\<close>

lemma turned_tmp:
  assumes "place dir name s" and "ready s'" and "\<not> is_dir_at s' (dir @ [tmp_name name])" and "progress dir name j pc' s'"
    and same: "\<And>q. q \<noteq> dir @ [tmp_name name] \<Longrightarrow> same_at s s' q"
  shows "turned dir name j s (pc', s')"
proof (rule turnedI [OF assms(2) _ _ assms(3,4)])
  have n: "node_at s' q = node_at s q" if "prefix q dir \<or> q = dir @ [name]" for q
  proof -
    have "q \<noteq> dir @ [tmp_name name]" using that by (auto simp: tmp_name_def dest: prefix_length_le)
    then show ?thesis using same by (simp add: same_at_def)
  qed
  then show "clear_to s' dir" "\<not> is_dir_at s' (dir @ [name])"
    using assms(1) by (auto simp: place_def clear_to_iff is_dir_at_def)
  have "same_at s s' (dir @ [name])" by (rule same) (simp add: tmp_name_def)
  then show "view s' (dir @ [name]) = view s (dir @ [name]) \<or> (\<exists>b. complete j b \<and> view s' (dir @ [name]) = Some (AFile b))"
    by (simp add: same_at_view)
qed (use same in auto)

lemma created_put: "node_at s p = None \<Longrightarrow> create_file p m s = put_file p [] m s"
  by (simp add: put_file_def fd_write_def create_file_def fs_simps set_inode_def set_node_def)

section \<open>Every turn keeps the other files\<close>

text \<open>The destination of a process, and the two names it works on.\<close>

definition stores_at :: "path \<Rightarrow> string \<Rightarrow> store_job \<Rightarrow> bool" where
  "stores_at dir name j =
     (plains dir \<and> plain name \<and> plain (tmp_name name) \<and> jb_dst j = abs_path (dir @ [name]))"

lemma stores_atD:
  assumes "stores_at dir name j"
  shows "plains dir" and "plains (dir @ [name])" and "plains (dir @ [tmp_name name])"
    and "jb_dst j = abs_path (dir @ [name])"
    and "path_dir (jb_dst j) = abs_path dir" and "jb_dst j @ ''.tmp'' = abs_path (dir @ [tmp_name name])"
proof -
  show p: "plains dir" "plains (dir @ [name])" "plains (dir @ [tmp_name name])" "jb_dst j = abs_path (dir @ [name])"
    using assms by (simp_all add: stores_at_def)
  show "path_dir (jb_dst j) = abs_path dir" "jb_dst j @ ''.tmp'' = abs_path (dir @ [tmp_name name])"
    unfolding p(4) by (simp_all add: path_dir_abs [OF p(2)] abs_path_tmp tmp_name_def)
qed

lemma placeD:
  "place dir name s \<Longrightarrow> ready s" "place dir name s \<Longrightarrow> clear_to s dir"
  "place dir name s \<Longrightarrow> \<not> is_dir_at s (dir @ [name])" "place dir name s \<Longrightarrow> \<not> is_dir_at s (dir @ [tmp_name name])"
  by (simp_all add: place_def)

lemma tidy_turned:
  assumes at: "stores_at dir name j" and pl: "place dir name s" and pd: "is_dir_at s dir"
    and pc': "\<And>s'. is_dir_at s' dir \<Longrightarrow> node_at s' (dir @ [tmp_name name]) = None \<Longrightarrow> progress dir name j pc' s'"
  shows "turned dir name j s (pc', snd (os_remove (jb_dst j @ ''.tmp'') s))"
proof -
  let ?q = "dir @ [tmp_name name]"
  obtain s' where s': "io_ignore (os_remove (abs_path ?q)) s = (Inr (), s')" "ready s'"
      "\<And>x. node_at s' x = (if x = ?q then None else node_at s x)" "fs_inodes s' = fs_inodes s"
    using remove_run [OF placeD(1) [OF pl] stores_atD(3) [OF at]] pd placeD(4) [OF pl] by auto
  have "is_dir_at s' dir" using pd s'(3) by (simp add: is_dir_at_def)
  with s' show ?thesis
    unfolding stores_atD(6) [OF at]
    by (intro turned_tmp [OF pl]) (auto simp: io_ignore_def same_at_def is_dir_at_def intro!: pc')
qed

lemma making_turned:
  assumes at: "stores_at dir name j" and pl: "place dir name s"
  shows "turned dir name j s (store_step j Making s)"
proof -
  note r = placeD [OF pl]
  obtain s' where s': "os_mkdir_all (abs_path dir) 0x1ED s = (Inr (), s')" "ready s'" "with_dirs s dir 0x1ED s'"
    using mkdir_all_view [OF r(1) stores_atD(1) [OF at] r(2)] by metis
  have n: "node_at s' x = (if prefix x dir \<and> node_at s x = None then Some (Dir (created_mode s 0x1ED)) else node_at s x)"
      "fs_inodes s' = fs_inodes s" for x
    using s'(3) by (auto simp: with_dirs_def)
  have "is_dir_at s' x" if "prefix x dir" for x
    using r(2) that n(1) [of x] by (auto simp: is_dir_at_node clear_to_iff)
  then have "clear_to s' dir" "is_dir_at s' dir" by (simp_all add: clear_to_iff)
  moreover have same: "same_at s s' x" if "\<not> prefix x dir \<or> node_at s x \<noteq> None" for x
    using that by (auto simp: same_at_def n)
  moreover have "\<not> is_dir_at s' (dir @ [name])" "\<not> is_dir_at s' (dir @ [tmp_name name])"
    using r(3,4) by (simp_all add: is_dir_at_def n(1))
  moreover have "view s' (dir @ [name]) = view s (dir @ [name])" by (rule same_at_view, rule same) simp
  ultimately have "turned dir name j s (Tidying, s')" using s'(2) by (intro turnedI) simp_all
  then show ?thesis by (simp add: stores_atD(5) [OF at] s'(1))
qed

lemma creating_turned:
  assumes at: "stores_at dir name j" and pl: "place dir name s"
    and c: "is_dir_at s dir" "node_at s (dir @ [tmp_name name]) = None"
  shows "turned dir name j s (store_step j Creating s)"
proof -
  let ?q = "dir @ [tmp_name name]"
  note r = placeD(1) [OF pl] and q = stores_atD(3) [OF at]
  let ?s = "put_file ?q [] 0x1A4 s"
  have w: "writable_at s ?q"
    using q c parents_open [OF r q] by (simp add: writable_at_def)
  have o: "os_open_trunc (abs_path ?q) 0x1A4 s = (Inr (fs_next s), ?s)"
    using open_trunc_run [OF w] c(2) created_put by auto
  have n: "node_at ?s x = (if x = ?q then Some (File (fs_next s)) else node_at s x)"
      "i_data (fs_inodes ?s i) = (if i = fs_next s then [] else i_data (fs_inodes s i))" for x i
    unfolding created_put [OF c(2), symmetric] by (simp_all add: create_file_def fs_simps)
  have "ready ?s" using ready_put_file [OF r q] c by simp
  moreover have "same_at s ?s x" if "x \<noteq> ?q" for x
    using that n fresh_inode [OF r] by (auto simp: same_at_def)
  moreover have "progress dir name j (Fetching (fs_next s)) ?s"
    using c(1) n by (auto simp: is_dir_at_def)
  ultimately have "turned dir name j s (Fetching (fs_next s), ?s)"
    using n(1) by (intro turned_tmp [OF pl]) (auto simp: is_dir_at_def)
  then show ?thesis by (simp add: stores_atD(6) [OF at] o)
qed

lemma copying_turned:
  assumes pl: "place dir name s" and pr: "progress dir name j (Copying i off cs e) s"
  shows "turned dir name j s (store_step j (Copying i off cs e) s)"
proof -
  let ?q = "dir @ [tmp_name name]"
  note r = placeD [OF pl]
  from pr obtain ds where c: "is_dir_at s dir" "node_at s ?q = Some (File i)" "jb_fetch j = Inr (ds @ cs, e)"
      "i_data (fs_inodes s i) = concat ds" "off = length (concat ds)" by auto
  show ?thesis
  proof (cases cs)
    case Nil
    with c show ?thesis by (cases e) (auto simp: complete_def intro!: turned_same [OF pl])
  next
    case (Cons b cs')
    let ?s = "snd (fd_write i b s)"
    have step: "store_step j (Copying i off cs e) s = (Copying i (off + length b) cs' e, ?s)"
      using c(4,5) by (simp add: Cons pwrite_append)
    have n: "node_at ?s x = node_at s x" "i_data (fs_inodes ?s k) = (if k = i then concat ds @ b else i_data (fs_inodes s k))" for x k
      using c(4) by (simp_all add: fd_write_def fs_simps)
    have "ready ?s" using r(1) by (simp add: fd_write_def ready_inode)
    moreover have "same_at s ?s x" if "x \<noteq> ?q" for x
      using that n c(2) readyD(4) [OF r(1)] by (auto simp: same_at_def unaliased_def)
    moreover have "progress dir name j (Copying i (off + length b) cs' e) ?s"
      using c n by (auto simp: Cons is_dir_at_def intro!: exI [of _ "ds @ [b]"])
    ultimately show ?thesis
      unfolding step using r(4) n(1) by (intro turned_tmp [OF pl]) (auto simp: is_dir_at_def)
  qed
qed

lemma renaming_turned:
  assumes at: "stores_at dir name j" and pl: "place dir name s" and pr: "progress dir name j Renaming s"
  shows "turned dir name j s (store_step j Renaming s)"
proof -
  let ?p = "dir @ [name]" and ?q = "dir @ [tmp_name name]"
  note r = placeD [OF pl] and a = stores_atD [OF at]
  from pr obtain i where c: "is_dir_at s dir" "node_at s ?q = Some (File i)" "complete j (i_data (fs_inodes s i))" by auto
  have "?p \<noteq> ?q" by (simp add: tmp_name_def)
  then obtain s' where s': "os_rename (abs_path ?q) (abs_path ?p) s = (Inr (), s')" "ready s'"
      "view s' = ((view s)(?q := None))(?p \<mapsto> AFile (i_data (fs_inodes s i)))"
      "\<And>x. node_at s' x = (if x = ?p then Some (File i) else if x = ?q then None else node_at s x)"
      "fs_inodes s' = fs_inodes s"
    using rename_run [OF r(1) a(3) _ c(2) a(2)] c(1) r(3) by auto
  have "turned dir name j s (Stored, s')"
    using s' c r(2) by (intro turnedI) (auto simp: same_at_def is_dir_at_def clear_to_iff)
  then show ?thesis by (simp add: a(6) s'(1) [folded a(4)])
qed

lemma step_turned:
  assumes at: "stores_at dir name j" and pl: "place dir name s" and pr: "progress dir name j pc s"
  shows "turned dir name j s (store_step j pc s)"
proof (cases pc)
  case (Fetching i)
  with pl pr show ?thesis by (auto split: sum.split prod.split intro!: turned_same)
next
  case Tidying
  with pr show ?thesis by (auto intro: tidy_turned [OF at pl])
next
  case Cleaning
  with pr show ?thesis by (auto intro: tidy_turned [OF at pl])
next
  case (Copying i off cs e)
  with copying_turned [OF pl] pr show ?thesis by blast
qed (use making_turned [OF at pl] creating_turned [OF at pl] renaming_turned [OF at pl] pl pr in \<open>auto intro: turned_same\<close>)

section \<open>Any order of turns\<close>

text \<open>Different artefacts: no process has a name of another.\<close>

definition independent :: "('p \<Rightarrow> string) \<Rightarrow> bool" where
  "independent names \<longleftrightarrow> (\<forall>k l. k \<noteq> l \<longrightarrow> names k \<noteq> names l \<and> names k \<noteq> tmp_name (names l))"

definition sys_inv :: "('p \<Rightarrow> store_job) \<Rightarrow> path \<Rightarrow> ('p \<Rightarrow> string) \<Rightarrow> fs \<Rightarrow> ('p \<Rightarrow> store_pc) \<times> fs \<Rightarrow> bool" where
  "sys_inv jobs dir names s0 c =
     (case c of (pcs, s) \<Rightarrow>
        (\<forall>k. place dir (names k) s \<and> progress dir (names k) (jobs k) (pcs k) s
           \<and> (view s (dir @ [names k]) = view s0 (dir @ [names k])
              \<or> (\<exists>b. complete (jobs k) b \<and> view s (dir @ [names k]) = Some (AFile b))))
        \<and> (\<forall>q. (\<forall>k. q \<noteq> dir @ [names k] \<and> q \<noteq> dir @ [tmp_name (names k)]) \<longrightarrow> \<not> prefix q dir \<longrightarrow> view s q = view s0 q))"

lemma progress_same:
  assumes "progress dir name j pc s" and "same_at s s' (dir @ [name])" and "same_at s s' (dir @ [tmp_name name])"
    and "is_dir_at s dir \<Longrightarrow> same_at s s' dir"
  shows "progress dir name j pc s'"
proof -
  have d: "is_dir_at s' dir" if "is_dir_at s dir"
    using assms(4) [OF that] that by (simp add: same_at_def is_dir_at_def)
  have v: "view s' (dir @ [name]) = view s (dir @ [name])" using assms(2) by (rule same_at_view)
  from assms(1,3) d v show ?thesis
    by (cases "(dir, name, j, pc, s)" rule: progress.cases) (auto simp: same_at_def simp del: view_AFile)
qed

lemma inv_step:
  assumes nm: "plains dir" "\<And>k. plain (names k) \<and> plain (tmp_name (names k))" and ind: "independent names"
    and dst: "\<And>k. jb_dst (jobs k) = abs_path (dir @ [names k])"
    and inv: "sys_inv jobs dir names s0 c" and step: "sys_step jobs c c'"
  shows "sys_inv jobs dir names s0 c'"
proof -
  obtain pcs s where c: "c = (pcs, s)" by fastforce
  with step obtain k pc' s' where k: "store_step (jobs k) (pcs k) s = (pc', s')" "c' = (pcs(k := pc'), s')"
    by (auto elim: sys_stepE)
  from inv have inv: "place dir (names l) s" "progress dir (names l) (jobs l) (pcs l) s"
      "view s (dir @ [names l]) = view s0 (dir @ [names l])
        \<or> (\<exists>b. complete (jobs l) b \<and> view s (dir @ [names l]) = Some (AFile b))"
      "(\<And>k. q \<noteq> dir @ [names k] \<and> q \<noteq> dir @ [tmp_name (names k)]) \<Longrightarrow> \<not> prefix q dir \<Longrightarrow> view s q = view s0 q" for l q
    unfolding sys_inv_def c by auto
  have t: "turned dir (names k) (jobs k) s (pc', s')"
    using step_turned [OF _ inv(1,2)] nm dst k(1) by (metis stores_at_def)
  then have own: "place dir (names k) s'" "progress dir (names k) (jobs k) pc' s'"
      "view s' (dir @ [names k]) = view s (dir @ [names k])
        \<or> (\<exists>b. complete (jobs k) b \<and> view s' (dir @ [names k]) = Some (AFile b))"
    and frame: "q \<noteq> dir @ [names k] \<Longrightarrow> q \<noteq> dir @ [tmp_name (names k)] \<Longrightarrow>
        \<not> prefix q dir \<or> node_at s q \<noteq> None \<Longrightarrow> same_at s s' q" for q
    by (auto simp: turned_def)
  have other: "same_at s s' (dir @ [names l])" "same_at s s' (dir @ [tmp_name (names l)])" if "l \<noteq> k" for l
  proof -
    have "names l \<noteq> names k" "tmp_name (names l) \<noteq> names k" "names l \<noteq> tmp_name (names k)"
      using ind that unfolding independent_def by metis+
    then show "same_at s s' (dir @ [names l])" "same_at s s' (dir @ [tmp_name (names l)])"
      by (auto simp: tmp_name_def intro!: frame)
  qed
  have dir: "same_at s s' dir" if "is_dir_at s dir"
    using that by (intro frame) (auto simp: is_dir_at_node)
  have "place dir (names l) s' \<and> progress dir (names l) (jobs l) ((pcs(k := pc')) l) s'
      \<and> (view s' (dir @ [names l]) = view s0 (dir @ [names l])
         \<or> (\<exists>b. complete (jobs l) b \<and> view s' (dir @ [names l]) = Some (AFile b)))" for l
  proof (cases "l = k")
    case True
    with own inv(3) [of k] show ?thesis by auto
  next
    case False
    have "\<not> is_dir_at s' (dir @ [names l])" "\<not> is_dir_at s' (dir @ [tmp_name (names l)])"
      using inv(1) [of l] other [OF False] by (simp_all add: place_def same_at_def is_dir_at_def)
    with own(1) have "place dir (names l) s'" by (simp add: place_def)
    with False progress_same [OF inv(2) other [OF False] dir] same_at_view [OF other(1) [OF False]] inv(3) [of l]
    show ?thesis by simp
  qed
  moreover have "view s' q = view s0 q"
    if "\<And>k. q \<noteq> dir @ [names k] \<and> q \<noteq> dir @ [tmp_name (names k)]" "\<not> prefix q dir" for q
    using same_at_view [OF frame] that inv(4) [OF that] by simp
  ultimately show ?thesis by (auto simp: sys_inv_def k(2))
qed

lemma inv_start:
  assumes "\<And>k. artifact_place dir (names k) s"
  shows "sys_inv jobs dir names s (\<lambda>_. Making, s)"
  using assms by (simp add: sys_inv_def place_def artifact_place_def tmp_name_def)

text \<open>
  C11. Boot artefacts with different names never get in each other's way, and none is ever seen half
  written: in every state that any number of processes reach by taking their system calls in any
  order, killed or not, each destination is what it was at the start or all of a layer that arrived
  completely, a process that reports success has put its layer there, and nothing else has changed but
  temporary files and the directories made.
\<close>

theorem artefacts_never_torn:
  assumes "plains dir" and "independent names" and "\<And>k. artifact_place dir (names k) s0"
    and "\<And>k. jb_dst (jobs k) = abs_path (dir @ [names k])" and "reached jobs s0 (pcs, s)"
  shows "(view s (dir @ [names k]) = view s0 (dir @ [names k])
      \<or> (\<exists>b. complete (jobs k) b \<and> view s (dir @ [names k]) = Some (AFile b)))
    \<and> (pcs k = Stored \<longrightarrow> (\<exists>b. complete (jobs k) b \<and> view s (dir @ [names k]) = Some (AFile b)))
    \<and> (\<forall>q. (\<forall>k. q \<noteq> dir @ [names k] \<and> q \<noteq> dir @ [tmp_name (names k)]) \<longrightarrow> \<not> prefix q dir \<longrightarrow> view s q = view s0 q)"
proof -
  have nm: "plain (names k) \<and> plain (tmp_name (names k))" for k
    using assms(3) [of k] by (simp add: artifact_place_def tmp_name_def)
  have "sys_inv jobs dir names s0 (pcs, s)"
    using assms(5)
  proof (induction rule: rtranclp_induct)
    case base
    show ?case using assms(3) by (rule inv_start)
  next
    case (step c c')
    show ?case by (rule inv_step [OF assms(1) nm assms(2,4) step(3,2)])
  qed
  then show ?thesis
    unfolding sys_inv_def by (auto dest!: spec [of _ k])
qed

section \<open>Concrete schedules\<close>

text \<open>The turns of a schedule; a turn of a process that is over is skipped.\<close>

fun turns :: "('p \<Rightarrow> store_job) \<Rightarrow> 'p list \<Rightarrow> ('p \<Rightarrow> store_pc) \<times> fs \<Rightarrow> ('p \<Rightarrow> store_pc) \<times> fs" where
  "turns jobs [] c = c"
| "turns jobs (k # ks) (pcs, s) =
     (if over (pcs k) then turns jobs ks (pcs, s)
      else case store_step (jobs k) (pcs k) s of (pc', s') \<Rightarrow> turns jobs ks (pcs(k := pc'), s'))"

lemma turns_reached: "reached jobs s0 c \<Longrightarrow> reached jobs s0 (turns jobs ks c)"
proof (induction jobs ks c rule: turns.induct)
  case (2 jobs k ks pcs s)
  show ?case
  proof (cases "over (pcs k)")
    case False
    obtain pc' s' where st: "store_step (jobs k) (pcs k) s = (pc', s')" by fastforce
    have "reached jobs s0 (pcs(k := pc'), s')"
      using "2.prems" turn [where jobs = jobs and pcs = pcs and k = k, OF False st] by (rule rtranclp.rtrancl_into_rtrancl)
    with 2(2) [OF False st [symmetric]] st False show ?thesis by simp
  qed (use 2 in simp)
qed simp

text \<open>Every turn of a process takes it closer to its end, and no turn of another takes it back.\<close>

lemma turns_remaining:
  "remaining (jobs k) (fst (turns jobs ks c) k) \<le> remaining (jobs k) (fst c k) - count_list ks k"
proof (induction jobs ks c rule: turns.induct)
  case (2 jobs l ks pcs s)
  show ?case
  proof (cases "over (pcs l)")
    case True
    then have "remaining (jobs l) (pcs l) = 0" by (simp add: remaining_over)
    with 2(1) [OF True] True show ?thesis by (cases "l = k") simp_all
  next
    case False
    obtain pc' s' where st: "store_step (jobs l) (pcs l) s = (pc', s')" by fastforce
    with step_remaining [OF False, of "jobs l" s] 2(2) [OF False st [symmetric]] False show ?thesis
      by (cases "l = k") simp_all
  qed
qed simp

text \<open>
  C30. No process waits for another: whatever the others do to the file system and in whatever order the
  turns are taken, a process that has had seven turns and one for each of its chunks is at its end.
\<close>

theorem pulls_wait_free:
  assumes "chunks (jobs k) + 7 \<le> count_list ks k"
  shows "over (fst (turns jobs ks (\<lambda>_. Making, s0)) k)"
  using turns_remaining [of jobs k ks "(\<lambda>_. Making, s0)"] assms by (simp flip: remaining_over [of "jobs k"])

definition race_fs :: fs where
  "race_fs =
     \<lparr>fs_nodes = [([], Dir 0x1ED), ([''d''], Dir 0x1ED), ([''d'', ''kernel''], File 0)],
      fs_inodes = (\<lambda>i. \<lparr>i_data = ''old'', i_mode = 0x1A4, i_mtime = 1\<rparr>),
      fs_next = 1, fs_cwd = [], fs_super = True, fs_umask = 0x12, fs_now = 7\<rparr>"

text \<open>A kernel and an initramfs, each in two chunks; the second process is killed in the middle.\<close>

definition two_names :: "bool \<Rightarrow> string" where
  "two_names k = (if k then ''kernel'' else ''pod-initrd'')"

definition two_jobs :: "bool \<Rightarrow> store_job" where
  "two_jobs k = \<lparr>jb_dst = (if k then ''/d/kernel'' else ''/d/pod-initrd''), jb_fetch = Inr ([''ab'', ''cd''], None)\<rparr>"

definition two_turns :: "bool list" where
  "two_turns = [True, False, False, True, True, False, False, True, True, False, True, True, True]"

theorem artefacts_never_torn_witness:
  "(case turns two_jobs two_turns (\<lambda>_. Making, race_fs) of
      (pcs, s) \<Rightarrow> pcs True = Stored \<and> (\<exists>i off cs. pcs False = Copying i off cs None))
   \<and> (\<exists>b. complete (two_jobs True) b
        \<and> view (snd (turns two_jobs two_turns (\<lambda>_. Making, race_fs))) [''d'', ''kernel''] = Some (AFile b))"
proof -
  let ?c = "turns two_jobs two_turns (\<lambda>_. Making, race_fs)"
  obtain pcs s where c: "?c = (pcs, s)" by fastforce
  have "(case ?c of (pcs, s) \<Rightarrow> pcs True = Stored \<and> (case pcs False of Copying _ _ _ None \<Rightarrow> True | _ \<Rightarrow> False))"
    by code_simp
  then have pc: "pcs True = Stored" "\<exists>i off cs. pcs False = Copying i off cs None"
    by (auto simp: c split: store_pc.splits option.splits)
  have "plains [''d'']" "ready race_fs" and ind: "independent two_names"
    by (code_simp, rule ready_check_ready, code_simp, simp add: independent_def two_names_def tmp_name_def)
  have chk: "list_all (\<lambda>k. plain (two_names k) \<and> plain (two_names k @ ''.tmp'')
      \<and> \<not> is_dir_at race_fs [''d'', two_names k] \<and> \<not> is_dir_at race_fs [''d'', two_names k @ ''.tmp'']
      \<and> jb_dst (two_jobs k) = abs_path ([''d''] @ [two_names k])) [True, False]"
    by code_simp
  have "clear_to race_fs [''d'']" by code_simp
  with \<open>plains [''d'']\<close> \<open>ready race_fs\<close> have place: "artifact_place [''d''] (two_names k) race_fs" for k
    using chk by (cases k) (simp_all add: artifact_place_def)
  have dst: "jb_dst (two_jobs k) = abs_path ([''d''] @ [two_names k])" for k
    using chk by (cases k) simp_all
  have run: "reached two_jobs race_fs (pcs, s)"
    using turns_reached [of two_jobs race_fs "(\<lambda>_. Making, race_fs)" two_turns] by (simp add: c)
  have "pcs True = Stored \<longrightarrow>
      (\<exists>b. complete (two_jobs True) b \<and> view s ([''d''] @ [two_names True]) = Some (AFile b))"
    using artefacts_never_torn [OF \<open>plains [''d'']\<close> ind place dst run] by blast
  with pc show ?thesis by (simp add: c two_names_def)
qed

theorem pulls_wait_free_witness:
  "over (fst (turns two_jobs (two_turns @ [True, True]) (\<lambda>_. Making, race_fs)) True)"
proof -
  have "chunks (two_jobs True) + 7 \<le> count_list (two_turns @ [True, True]) True" by code_simp
  then show ?thesis by (rule pulls_wait_free)
qed

text \<open>
  C36. The same artefact pulled twice at the same time is torn: the temporary name is fixed, so the second
  process replaces the first one's temporary file and the first renames what the second has written
  so far.  The first reports success while the kernel holds the first chunk only, and if the second
  is killed there it stays so.
\<close>

theorem same_artefact_torn:
  "\<exists>pcs s. reached (\<lambda>_::bool. \<lparr>jb_dst = ''/d/kernel'', jb_fetch = Inr ([b, c], None)\<rparr>) race_fs (pcs, s)
     \<and> pcs True = Stored \<and> view s [''d'', ''kernel''] = Some (AFile b)"
proof -
  let ?jobs = "\<lambda>_::bool. \<lparr>jb_dst = ''/d/kernel'', jb_fetch = Inr ([b, c], None)\<rparr>"
  let ?ks = "replicate 6 True @ replicate 5 False @ [True, True]"
  have "case turns ?jobs ?ks (\<lambda>_. Making, race_fs) of
      (pcs, s) \<Rightarrow> pcs True = Stored \<and> view s [''d'', ''kernel''] = Some (AFile b)"
    by (code_simp, simp)
  moreover have "reached ?jobs race_fs (turns ?jobs ?ks (\<lambda>_. Making, race_fs))"
    by (rule turns_reached) simp
  ultimately show ?thesis by (auto split: prod.splits)
qed

end
