(* ===== verification/Boot.thy ===== *)
theory Boot
  imports Cache Posix
begin

text \<open>
  Finding what to boot: \<open>bootArtefacts\<close>, \<open>describe\<close> and \<open>locateBootArtefacts\<close> of \<open>run.go\<close>, and
  \<open>locatePodBoot\<close> of \<open>pod.go\<close>.
\<close>

record boot_artefacts =
  ba_boot_iso :: string
  ba_kernel :: string
  ba_initrd :: string

definition describe :: "boot_artefacts \<Rightarrow> string" where
  "describe b =
     (if ba_boot_iso b \<noteq> [] then ''iso='' @ ba_boot_iso b
      else if ba_initrd b \<noteq> [] then ''kernel='' @ ba_kernel b @ '' initrd='' @ ba_initrd b
      else ''kernel='' @ ba_kernel b)"

text \<open>\<open>_, err := os.Stat(p); err == nil\<close>\<close>

definition os_exists :: "string \<Rightarrow> (fs, bool) io" where
  "os_exists p = (\<lambda>s. (Inr (\<not> isl (fst (os_stat p s))), s))"

text \<open>The messages of the two errors, line by line; dash and ellipsis are UTF-8.\<close>

definition em_dash :: string where
  "em_dash = bytes_of [0xE2, 0x80, 0x94]"

definition ellipsis :: string where
  "ellipsis = bytes_of [0xE2, 0x80, 0xA6]"

definition text_lines :: "string list \<Rightarrow> string" where
  "text_lines ls = join_str [CHR 0x0A] ls"

definition no_artefacts :: "environ \<Rightarrow> error" where
  "no_artefacts env =
     Errorf (text_lines
       [''no weft-microvm boot artefacts found '' @ em_dash @ '' looked at:'',
        ''  $WEFT_KERNEL          (+ $WEFT_INITRD)'',
        ''  %s   (+ initrd if present)'',
        ''  $WEFT_INIT_ISO'',
        ''  %s'',
        [],
        ''build them from this repo'' @ CHR 0x27 # ''s init/ (see weft-microvm/README.md);'',
        ''direct-Linux mode (kernel + initramfs) is preferred '' @ em_dash @ '' faster cold-boot,'',
        ''no UKI/ISO assembly required''])
       [path_join [data_dir env, ''kernel''], path_join [data_dir env, ''weft-microvm-init.iso'']]"

definition no_pod_initrd :: "string \<Rightarrow> error" where
  "no_pod_initrd initrd =
     Errorf (text_lines
       [''weft-init initramfs not found at %s (set $WEFT_POD_INITRD)'',
        ''build it (live-validated 2026-06-06) :'',
        ''  cd $GOPATH/src/github.com/openweft/weft-microvm-init'',
        ''  task fetch-crun                                # crun-build/dist/crun.linux.<arch>'',
        ''  GOOS=linux GOARCH=<arch> CGO_ENABLED=0 go build -o bin/weft-init-linux-<arch> ./cmd/weft-init'',
        ''  weft microvm pod-init-build --init bin/weft-init-linux-<arch> '' @ [CHR 0x5C],
        ''    --crun crun-build/dist/crun.linux.<arch> '' @ [CHR 0x5C],
        ''    [--cfs-client '' @ ellipsis @ '' --agent '' @ ellipsis @ ''] -o %s'',
        ''WITHOUT --crun, alpine/distroless guests crun-probe-fail then poweroff inside a second.''])
       [initrd, initrd]"

definition locate_boot_artefacts :: "environ \<Rightarrow> (fs, boot_artefacts) io" where
  "locate_boot_artefacts env =
     (let k = env ''WEFT_KERNEL'' in
      io_bind (if k \<noteq> [] then os_exists k else io_return False) (\<lambda>ok.
      if ok then io_return \<lparr>ba_boot_iso = [], ba_kernel = k, ba_initrd = env ''WEFT_INITRD''\<rparr>
      else
      let defKernel = path_join [data_dir env, ''kernel'']; defInitrd = path_join [data_dir env, ''initrd''] in
      io_bind (os_exists defKernel) (\<lambda>ok.
      if ok then
        io_bind (os_exists defInitrd) (\<lambda>ok.
        io_return \<lparr>ba_boot_iso = [], ba_kernel = defKernel, ba_initrd = (if ok then defInitrd else [])\<rparr>)
      else
      let i = env ''WEFT_INIT_ISO'' in
      io_bind (if i \<noteq> [] then os_exists i else io_return False) (\<lambda>ok.
      if ok then io_return \<lparr>ba_boot_iso = i, ba_kernel = [], ba_initrd = []\<rparr>
      else
      let defISO = path_join [data_dir env, ''weft-microvm-init.iso''] in
      io_bind (os_exists defISO) (\<lambda>ok.
      if ok then io_return \<lparr>ba_boot_iso = defISO, ba_kernel = [], ba_initrd = []\<rparr>
      else io_throw (no_artefacts env))))))"

definition locate_pod_boot :: "environ \<Rightarrow> (fs, string \<times> string) io" where
  "locate_pod_boot env =
     (let kernel = (if env ''WEFT_KERNEL'' = [] then path_join [data_dir env, ''kernel''] else env ''WEFT_KERNEL'') in
      io_bind (os_exists kernel) (\<lambda>ok.
      if \<not> ok then io_throw (Errorf ''kernel not found at %s (set $WEFT_KERNEL)'' [kernel])
      else
      let initrd = (if env ''WEFT_POD_INITRD'' = [] then path_join [data_dir env, ''pod-initrd'']
                    else env ''WEFT_POD_INITRD'') in
      io_bind (os_exists initrd) (\<lambda>ok.
      if \<not> ok then io_throw (no_pod_initrd initrd)
      else io_return (kernel, initrd))))"

section \<open>The order of the search\<close>

definition present :: "fs \<Rightarrow> string \<Rightarrow> bool" where
  "present s p = (\<not> isl (fst (os_stat p s)))"

text \<open>The candidates in the order of the comment, each with the file it needs.\<close>

definition candidates :: "environ \<Rightarrow> fs \<Rightarrow> (string \<times> boot_artefacts) list" where
  "candidates env s =
     (let k = env ''WEFT_KERNEL''; dk = path_join [data_dir env, ''kernel'']; di = path_join [data_dir env, ''initrd''];
          i = env ''WEFT_INIT_ISO''; iso = path_join [data_dir env, ''weft-microvm-init.iso''] in
      (if k = [] then [] else [(k, \<lparr>ba_boot_iso = [], ba_kernel = k, ba_initrd = env ''WEFT_INITRD''\<rparr>)]) @
      [(dk, \<lparr>ba_boot_iso = [], ba_kernel = dk, ba_initrd = (if present s di then di else [])\<rparr>)] @
      (if i = [] then [] else [(i, \<lparr>ba_boot_iso = i, ba_kernel = [], ba_initrd = []\<rparr>)]) @
      [(iso, \<lparr>ba_boot_iso = iso, ba_kernel = [], ba_initrd = []\<rparr>)])"

lemma exists_present: "os_exists p s = (Inr (present s p), s)"
  by (simp add: os_exists_def present_def)

lemma locate_run:
  "locate_boot_artefacts env s =
     (case List.find (\<lambda>(p, b). present s p) (candidates env s) of
        Some (p, b) \<Rightarrow> (Inr b, s)
      | None \<Rightarrow> (Inl (no_artefacts env), s))"
  by (simp add: locate_boot_artefacts_def candidates_def Let_def io_defs exists_present)

text \<open>
  C33. What is booted is the first of the four candidates whose file is there (the kernel and the image
  named by the environment, each before the one in the data directory, kernels before images); there
  is an error exactly when none is there, and looking changes nothing.
\<close>

theorem boot_search_order:
  "locate_boot_artefacts env s =
     (case filter (\<lambda>(p, b). present s p) (candidates env s) of
        (p, b) # _ \<Rightarrow> (Inr b, s)
      | [] \<Rightarrow> (Inl (no_artefacts env), s))"
  by (simp add: locate_run find_filter split: list.split)

lemma path_clean_nonempty: "path_clean p \<noteq> []"
  by (simp add: path_clean_def Let_def)

lemma path_join_nonempty: "n \<noteq> [] \<Longrightarrow> path_join [d, n] \<noteq> []"
  by (simp add: path_join_def path_clean_nonempty)

lemma candidate_modes:
  "list_all (\<lambda>(p, b). (ba_kernel b = p \<and> ba_boot_iso b = [] \<or> ba_boot_iso b = p \<and> ba_kernel b = [] \<and> ba_initrd b = []) \<and> p \<noteq> [])
     (candidates env s)"
  by (simp add: candidates_def Let_def path_join_nonempty)

text \<open>
  C34. Exactly one boot mode is filled in: a kernel (with or without an initrd) or an image, never both
  and never neither, and its file is there; the description names that mode.
\<close>

theorem one_boot_mode:
  "case locate_boot_artefacts env s of
     (Inr b, s') \<Rightarrow>
       (ba_kernel b \<noteq> [] \<and> ba_boot_iso b = [] \<and> present s (ba_kernel b) \<and> has_prefix (describe b) ''kernel='')
     \<or> (ba_kernel b = [] \<and> ba_initrd b = [] \<and> ba_boot_iso b \<noteq> [] \<and> present s (ba_boot_iso b)
         \<and> describe b = ''iso='' @ ba_boot_iso b)
   | (Inl e, s') \<Rightarrow> e = no_artefacts env"
proof (cases "List.find (\<lambda>(p, b). present s p) (candidates env s)")
  case (Some x)
  obtain p b where x: "x = (p, b)" by (cases x)
  from find_SomeD [OF Some] x have "(p, b) \<in> set (candidates env s)" "present s p" by auto
  with candidate_modes [of env s]
  have "(ba_kernel b = p \<and> ba_boot_iso b = [] \<or> ba_boot_iso b = p \<and> ba_kernel b = [] \<and> ba_initrd b = []) \<and> p \<noteq> []"
    by (auto simp: list_all_iff)
  with Some x \<open>present s p\<close> show ?thesis
    by (auto simp: locate_run describe_def has_prefix_def)
qed (simp add: locate_run)

text \<open>
  Pod mode and the single-container mode disagree about \<open>$WEFT_KERNEL\<close>: when it names a file that
  is not there but the data directory has a kernel and both initramfs images, the one refuses and the
  other boots the default kernel.
\<close>

theorem missing_kernel_differs:
  assumes "env ''WEFT_KERNEL'' = k" and "k \<noteq> []" and "\<not> present s k"
    and "present s (path_join [data_dir env, ''kernel''])"
  shows "locate_pod_boot env s = (Inl (Errorf ''kernel not found at %s (set $WEFT_KERNEL)'' [k]), s)
    \<and> (\<exists>b. locate_boot_artefacts env s = (Inr b, s) \<and> ba_kernel b = path_join [data_dir env, ''kernel''])"
  using assms by (simp add: locate_run candidates_def Let_def locate_pod_boot_def io_defs exists_present)

text \<open>A data directory with a kernel, an initramfs and the root file system of one image.\<close>

definition sample_boot :: fs where
  "sample_boot =
     \<lparr>fs_nodes = [([], Dir 0x1ED), ([''d''], Dir 0x1ED), ([''d'', ''weft-microvm''], Dir 0x1ED),
                  ([''d'', ''weft-microvm'', ''kernel''], File 0), ([''d'', ''weft-microvm'', ''pod-initrd''], File 1),
                  ([''d'', ''weft-microvm'', ''images''], Dir 0x1ED),
                  ([''d'', ''weft-microvm'', ''images'', ''alpine_3''], Dir 0x1ED),
                  ([''d'', ''weft-microvm'', ''images'', ''alpine_3'', ''rootfs''], Dir 0x1ED)],
      fs_inodes = (\<lambda>i. \<lparr>i_data = ''x'', i_mode = 0x1A4, i_mtime = 1\<rparr>),
      fs_next = 2, fs_cwd = [], fs_super = True, fs_umask = 0x12, fs_now = 7\<rparr>"

definition stale_env :: environ where
  "stale_env = sample_env(''WEFT_KERNEL'' := ''/gone'')"

theorem missing_kernel_differs_witness:
  "locate_pod_boot stale_env sample_boot = (Inl (Errorf ''kernel not found at %s (set $WEFT_KERNEL)'' [''/gone'']), sample_boot)"
proof -
  have "\<not> present sample_boot ''/gone''" "present sample_boot (path_join [data_dir stale_env, ''kernel''])"
    by code_simp+
  from missing_kernel_differs [of stale_env "''/gone''", OF _ _ this] show ?thesis
    by (simp add: stale_env_def)
qed

end
