(* ===== verification/Run.thy ===== *)
theory Run
  imports Boot Pull
begin

text \<open>
  Booting one container (\<open>run.go\<close>): make sure the image is there, apply the override of the command,
  find what to boot, build the request, and make the two calls to the daemon.  The daemon is a
  parameter: whether it can be dialled and what it answers to each call, given the calls before.
  A world is the file system and the log of the calls made.
\<close>

section \<open>Requests\<close>

record share =
  sh_tag :: string
  sh_path :: string
  sh_read_only :: bool
  sh_clone :: bool

record register_request =
  rq_name :: string
  rq_project :: string
  rq_host_uuid :: string
  rq_image :: string
  rq_cpu :: u32
  rq_mem_mb :: u64
  rq_shares :: "share list"
  rq_cmdline :: string
  rq_kernel :: string
  rq_initrd :: string
  rq_boot_iso :: string

record start_request =
  st_name :: string
  st_project :: string
  st_host_uuid :: string

datatype rpc = Register register_request | Start start_request

record server =
  sv_dial :: "string \<Rightarrow> error option"
  sv_call :: "rpc list \<Rightarrow> rpc \<Rightarrow> error option"

record world =
  w_fs :: fs
  w_log :: "rpc list"

definition on_fs :: "(fs, 'a) io \<Rightarrow> (world, 'a) io" where
  "on_fs m = io_zoom w_fs (\<lambda>s w. w\<lparr>w_fs := s\<rparr>) m"

text \<open>A call is made, then its answer counts.\<close>

definition call :: "server \<Rightarrow> rpc \<Rightarrow> (world, unit) io" where
  "call sv c = (\<lambda>w.
     (case sv_call sv (w_log w) c of None \<Rightarrow> Inr () | Some e \<Rightarrow> Inl e, w\<lparr>w_log := w_log w @ [c]\<rparr>))"

definition dial_weft :: "server \<Rightarrow> string \<Rightarrow> (world, unit) io" where
  "dial_weft sv socket = io_lift (case sv_dial sv socket of None \<Rightarrow> Inr () | Some e \<Rightarrow> Inl e)"

section \<open>Arguments\<close>

record mount =
  m_host_path :: string
  m_guest_path :: string
  m_read_only :: bool

record cubefs_mount =
  cm_masters :: "string list"
  cm_volume :: string
  cm_guest_path :: string
  cm_read_only :: bool

record args =
  a_image :: string
  a_name :: string
  a_cmd :: "string list"
  a_detach :: bool
  a_mount_tag :: string
  a_weft_socket :: string
  a_project :: string
  a_pod :: string
  a_mounts :: "mount list"
  a_cpu :: u32
  a_mem_mb :: u64
  a_host_uuid :: string
  a_cubefs_mounts :: "cubefs_mount list"

section \<open>The image\<close>

definition apply_run_overrides :: "string \<Rightarrow> args \<Rightarrow> (fs, unit) io" where
  "apply_run_overrides rootfs a =
     (if a_cmd a = [] then io_return ()
      else
      let cfgPath = path_join [rootfs, ''.weft-microvm'', ''config.json''] in
      io_bind (io_wrap (Wrapf ''read .weft-microvm/config.json: %w'' []) (os_read_file cfgPath)) (\<lambda>b.
      io_bind (io_wrap (Wrapf ''decode .weft-microvm/config.json: %w'' [])
        (io_lift (case unmarshal_config b of Some p \<Rightarrow> Inr p | None \<Rightarrow> Inl (Extern ''encoding/json'')))) (\<lambda>cf.
      let updated = apply_user_overrides cf (a_cmd a); out = marshal_config updated in
      io_wrap (Wrapf ''write .weft-microvm/config.json: %w'' []) (os_write_file cfgPath out 0x1A4))))"

definition ensure_image :: "remote \<Rightarrow> environ \<Rightarrow> string \<Rightarrow> args \<Rightarrow> (fs, unit) io" where
  "ensure_image rm env rootfs a =
     io_bind (io_try (os_stat rootfs)) (\<lambda>st.
     io_bind (case st of
         Inr _ \<Rightarrow> io_return ()
       | Inl _ \<Rightarrow>
           if env ''WEFT_NO_AUTO_PULL'' = ''1'' then
             io_throw (Errorf (''image not pulled and WEFT_NO_AUTO_PULL=1 '' @ em_dash
                 @ '' run `weft-microvm pull %s` first (missing rootfs at %s)'') [a_image a, rootfs])
           else io_wrap (Wrapf ''auto-pull %s: %w'' [a_image a]) (pull_image rm env (a_image a))) (\<lambda>_.
     apply_run_overrides rootfs a))"

section \<open>The request\<close>

definition ro_suffix :: "bool \<Rightarrow> string" where
  "ro_suffix ro = (if ro then '':ro'' else [])"

fun add_mounts :: "nat \<Rightarrow> mount list \<Rightarrow> register_request \<Rightarrow> error + register_request" where
  "add_mounts i [] req = Inr req"
| "add_mounts i (m # ms) req =
     (if m_host_path m = [] \<or> m_guest_path m = []
      then Inl (Errorf ''microvm: mount %d : both HostPath and GuestPath are required'' [dec_of_nat i])
      else
      let mountTag = ''mount-'' @ dec_of_nat i;
          directive = ''weft.mount=virtiofs:'' @ mountTag @ '':'' @ m_guest_path m @ ro_suffix (m_read_only m)
      in add_mounts (Suc i) ms
        (req\<lparr>rq_shares := rq_shares req @
               [\<lparr>sh_tag = mountTag, sh_path = m_host_path m, sh_read_only = m_read_only m, sh_clone = False\<rparr>],
             rq_cmdline := rq_cmdline req @ '' '' @ directive\<rparr>))"

fun add_cubefs :: "nat \<Rightarrow> cubefs_mount list \<Rightarrow> register_request \<Rightarrow> error + register_request" where
  "add_cubefs i [] req = Inr req"
| "add_cubefs i (m # ms) req =
     (if cm_volume m = [] \<or> cm_guest_path m = [] \<or> cm_masters m = []
      then Inl (Errorf ''microvm: cubefs mount %d : Masters, Volume and GuestPath are all required'' [dec_of_nat i])
      else
      let directive = ''weft.cubefs='' @ join_str '','' (cm_masters m) @ '':'' @ cm_volume m @ '':'' @ cm_guest_path m
            @ ro_suffix (cm_read_only m)
      in add_cubefs (Suc i) ms (req\<lparr>rq_cmdline := rq_cmdline req @ '' '' @ directive\<rparr>))"

definition base_request :: "args \<Rightarrow> string \<Rightarrow> string \<Rightarrow> string \<Rightarrow> register_request" where
  "base_request a vmName tag rootfs =
     \<lparr>rq_name = vmName, rq_project = a_project a, rq_host_uuid = a_host_uuid a, rq_image = a_image a,
      rq_cpu = a_cpu a, rq_mem_mb = a_mem_mb a,
      rq_shares = [\<lparr>sh_tag = tag, sh_path = rootfs, sh_read_only = False, sh_clone = True\<rparr>],
      rq_cmdline = ''weft.rootfs=virtiofs:'' @ tag @ '' console=hvc0'',
      rq_kernel = [], rq_initrd = [], rq_boot_iso = []\<rparr>"

definition boot_fields :: "boot_artefacts \<Rightarrow> register_request \<Rightarrow> register_request" where
  "boot_fields art req =
     (if ba_kernel art \<noteq> [] then req\<lparr>rq_kernel := ba_kernel art, rq_initrd := ba_initrd art\<rparr>
      else req\<lparr>rq_boot_iso := ba_boot_iso art\<rparr>)"

definition build_request :: "args \<Rightarrow> string \<Rightarrow> boot_artefacts \<Rightarrow> error + register_request" where
  "build_request a rootfs art =
     (let tag = (if a_mount_tag a = [] then ''rootfs0'' else a_mount_tag a);
          vmName = (if a_name a = [] then ''weft-microvm-'' @ refsafe (a_image a) else a_name a)
      in case add_mounts 0 (a_mounts a) (base_request a vmName tag rootfs) of
           Inl err \<Rightarrow> Inl err
         | Inr req \<Rightarrow>
             (case add_cubefs 0 (a_cubefs_mounts a) req of
                Inl err \<Rightarrow> Inl err
              | Inr req \<Rightarrow> Inr (boot_fields art req)))"

section \<open>The run\<close>

text \<open>Dialling the daemon and the two calls, as both modes make them.\<close>

definition register_and_start ::
  "server \<Rightarrow> string \<Rightarrow> register_request \<Rightarrow> start_request \<Rightarrow> (world, unit) io" where
  "register_and_start sv socket req start =
     io_bind (dial_weft sv socket) (\<lambda>_.
     io_bind (io_wrap (Wrapf ''weft RegisterMicroVM: %w'' []) (call sv (Register req))) (\<lambda>_.
     io_wrap (Wrapf ''weft StartVM: %w'' []) (call sv (Start start))))"

definition run_micro_vm :: "server \<Rightarrow> remote \<Rightarrow> environ \<Rightarrow> args \<Rightarrow> (world, unit) io" where
  "run_micro_vm sv rm env a =
     (let rs = refsafe (a_image a); rootfs = rootfs_path env rs in
      io_bind (if a_host_uuid a = [] then on_fs (ensure_image rm env rootfs a) else io_return ()) (\<lambda>_.
      io_bind (on_fs (locate_boot_artefacts env)) (\<lambda>art.
      io_bind (io_lift (build_request a rootfs art)) (\<lambda>req.
      register_and_start sv (a_weft_socket a) req
        \<lparr>st_name = rq_name req, st_project = a_project a, st_host_uuid = a_host_uuid a\<rparr>))))"

end
