(* ===== verification/Prepare.thy ===== *)
theory Prepare
  imports Run Pull_Correct
begin

text \<open>
  The same preparation for a caller that talks to the daemon itself (\<open>prepare.go\<close>).
\<close>

record prepared_boot =
  pb_name :: string
  pb_kernel :: string
  pb_initrd :: string
  pb_boot_iso :: string
  pb_cmdline :: string
  pb_share_path :: string
  pb_share_tag :: string

definition prepare :: "remote \<Rightarrow> environ \<Rightarrow> string \<Rightarrow> (fs, prepared_boot) io" where
  "prepare rm env img =
     (if img = [] then io_throw (Errorf ''prepare: image is required'' [])
      else
      let rs = refsafe img; rootfs = rootfs_path env rs in
      io_bind (io_try (os_stat rootfs)) (\<lambda>st.
      io_bind (case st of
          Inr _ \<Rightarrow> io_return ()
        | Inl _ \<Rightarrow>
            if env ''WEFT_NO_AUTO_PULL'' = ''1'' then
              io_throw (Errorf ''image %q not pulled and WEFT_NO_AUTO_PULL=1 (missing rootfs at %s)'' [img, rootfs])
            else io_wrap (Wrapf ''auto-pull %s: %w'' [img]) (pull_image rm env img)) (\<lambda>_.
      io_bind (locate_boot_artefacts env) (\<lambda>art.
      let tag = ''rootfs0'' in
      io_return
        \<lparr>pb_name = ''weft-microvm-'' @ rs, pb_kernel = ba_kernel art, pb_initrd = ba_initrd art,
         pb_boot_iso = ba_boot_iso art, pb_cmdline = ''weft.rootfs=virtiofs:'' @ tag @ '' console=hvc0'',
         pb_share_path = rootfs, pb_share_tag = tag\<rparr>))))"

section \<open>The same answer as a run\<close>

text \<open>A run of the image with nothing else said.\<close>

definition plain_args :: "string \<Rightarrow> string \<Rightarrow> args" where
  "plain_args socket img =
     \<lparr>a_image = img, a_name = [], a_cmd = [], a_detach = False, a_mount_tag = [], a_weft_socket = socket,
      a_project = [], a_pod = [], a_mounts = [], a_cpu = 0, a_mem_mb = 0, a_host_uuid = [], a_cubefs_mounts = []\<rparr>"

definition request_of :: "string \<Rightarrow> prepared_boot \<Rightarrow> register_request" where
  "request_of img b =
     \<lparr>rq_name = pb_name b, rq_project = [], rq_host_uuid = [], rq_image = img, rq_cpu = 0, rq_mem_mb = 0,
      rq_shares = [\<lparr>sh_tag = pb_share_tag b, sh_path = pb_share_path b, sh_read_only = False, sh_clone = True\<rparr>],
      rq_cmdline = pb_cmdline b, rq_kernel = pb_kernel b, rq_initrd = pb_initrd b, rq_boot_iso = pb_boot_iso b\<rparr>"

lemma build_plain:
  "build_request (plain_args socket img) rootfs art = Inr (boot_fields art
     (base_request (plain_args socket img) (''weft-microvm-'' @ refsafe img) ''rootfs0'' rootfs))"
  by (simp add: build_request_def plain_args_def Let_def)

lemma locate_modes:
  assumes "locate_boot_artefacts env s = (Inr b, s')"
  shows "s' = s" and "ba_kernel b \<noteq> [] \<and> ba_boot_iso b = [] \<or> ba_kernel b = [] \<and> ba_initrd b = []"
proof -
  from assms obtain p where f: "List.find (\<lambda>(p, b). present s p) (candidates env s) = Some (p, b)" and "s' = s"
    by (auto simp: locate_run split: option.splits)
  then show "s' = s" by simp
  from find_SomeD [OF f] candidate_modes [of env s]
  show "ba_kernel b \<noteq> [] \<and> ba_boot_iso b = [] \<or> ba_kernel b = [] \<and> ba_initrd b = []"
    by (auto simp: list_all_iff)
qed

lemma ready_request:
  assumes "locate_boot_artefacts env s = (Inr art, s')"
  shows "boot_fields art (base_request (plain_args socket img) n t R) =
    \<lparr>rq_name = n, rq_project = [], rq_host_uuid = [], rq_image = img, rq_cpu = 0, rq_mem_mb = 0,
     rq_shares = [\<lparr>sh_tag = t, sh_path = R, sh_read_only = False, sh_clone = True\<rparr>],
     rq_cmdline = ''weft.rootfs=virtiofs:'' @ t @ '' console=hvc0'',
     rq_kernel = ba_kernel art, rq_initrd = ba_initrd art, rq_boot_iso = ba_boot_iso art\<rparr>"
  using locate_modes(2) [OF assms] by (auto simp: boot_fields_def base_request_def plain_args_def)

text \<open>
  C14. \<open>Prepare\<close> gives the caller what a run would have sent: on the same image, file system and
  registry, either both fail, with the same effect on the file system and no call to the daemon, or
  the run registers and starts exactly the request made of the prepared fields.
\<close>

theorem prepare_agrees:
  "case prepare rm env img (w_fs w) of
     (Inr b, s') \<Rightarrow> run_micro_vm sv rm env (plain_args socket img) w =
       register_and_start sv socket (request_of img b)
         \<lparr>st_name = pb_name b, st_project = [], st_host_uuid = []\<rparr> (w\<lparr>w_fs := s'\<rparr>)
   | (Inl e, s') \<Rightarrow> if img = [] then s' = w_fs w
       else \<exists>e'. run_micro_vm sv rm env (plain_args socket img) w = (Inl e', w\<lparr>w_fs := s'\<rparr>)"
proof -
  let ?a = "plain_args socket img" and ?R = "rootfs_path env (refsafe img)" and ?s = "w_fs w"
  have over: "apply_run_overrides ?R ?a = io_return ()"
    by (simp add: apply_run_overrides_def plain_args_def)
  have img: "a_image ?a = img" "a_host_uuid ?a = []" "a_project ?a = []" "a_weft_socket ?a = socket"
    by (simp_all add: plain_args_def)
  note run = run_micro_vm_def Let_def img build_plain on_fs_def io_defs ensure_image_def over
  note prep = prepare_def Let_def io_defs
  obtain st where st: "os_stat ?R ?s = (st, ?s)"
    using stat_same by (metis surj_pair)
  show ?thesis
  proof (cases st)
    case (Inr n)
    show ?thesis
      using locate_modes(1) [of env ?s]
      by (cases "locate_boot_artefacts env ?s"; cases "fst (locate_boot_artefacts env ?s)")
         (auto simp: run prep st Inr ready_request request_of_def)
  next
    case (Inl e)
    show ?thesis
      by (cases "pull_image rm env img ?s"; cases "fst (pull_image rm env img ?s)";
          cases "locate_boot_artefacts env (snd (pull_image rm env img ?s))";
          cases "fst (locate_boot_artefacts env (snd (pull_image rm env img ?s)))")
         (auto simp: run prep st Inl ready_request request_of_def)
  qed
qed

end
