(* ===== verification/Request.thy ===== *)
theory Request
  imports Prepare
begin

text \<open>
  The request of a single-container run, written out: its shares, its kernel command line as a list of
  words, and which mount is refused first.  The loops that append to the request one mount at a time
  compute it.
\<close>

section \<open>The description\<close>

definition mount_ok :: "mount \<Rightarrow> bool" where
  "mount_ok m = (m_host_path m \<noteq> [] \<and> m_guest_path m \<noteq> [])"

definition cubefs_ok :: "cubefs_mount \<Rightarrow> bool" where
  "cubefs_ok m = (cm_volume m \<noteq> [] \<and> cm_guest_path m \<noteq> [] \<and> cm_masters m \<noteq> [])"

definition mount_tag :: "nat \<Rightarrow> string" where
  "mount_tag i = ''mount-'' @ dec_of_nat i"

definition mount_share :: "nat \<Rightarrow> mount \<Rightarrow> share" where
  "mount_share i m = \<lparr>sh_tag = mount_tag i, sh_path = m_host_path m, sh_read_only = m_read_only m, sh_clone = False\<rparr>"

definition mount_word :: "nat \<Rightarrow> mount \<Rightarrow> string" where
  "mount_word i m = ''weft.mount=virtiofs:'' @ mount_tag i @ '':'' @ m_guest_path m @ ro_suffix (m_read_only m)"

definition cubefs_word :: "cubefs_mount \<Rightarrow> string" where
  "cubefs_word m = ''weft.cubefs='' @ join_str '','' (cm_masters m) @ '':'' @ cm_volume m @ '':'' @ cm_guest_path m
     @ ro_suffix (cm_read_only m)"

definition root_tag :: "args \<Rightarrow> string" where
  "root_tag a = (if a_mount_tag a = [] then ''rootfs0'' else a_mount_tag a)"

definition vm_name :: "args \<Rightarrow> string" where
  "vm_name a = (if a_name a = [] then ''weft-microvm-'' @ refsafe (a_image a) else a_name a)"

definition vm_words :: "args \<Rightarrow> string list" where
  "vm_words a =
     [''weft.rootfs=virtiofs:'' @ root_tag a, ''console=hvc0''] @
     map (\<lambda>(i, m). mount_word i m) (enumerate 0 (a_mounts a)) @ map cubefs_word (a_cubefs_mounts a)"

definition vm_shares :: "args \<Rightarrow> string \<Rightarrow> share list" where
  "vm_shares a rootfs =
     \<lparr>sh_tag = root_tag a, sh_path = rootfs, sh_read_only = False, sh_clone = True\<rparr> #
     map (\<lambda>(i, m). mount_share i m) (enumerate 0 (a_mounts a))"

definition vm_request :: "args \<Rightarrow> string \<Rightarrow> boot_artefacts \<Rightarrow> register_request" where
  "vm_request a rootfs art =
     \<lparr>rq_name = vm_name a, rq_project = a_project a, rq_host_uuid = a_host_uuid a, rq_image = a_image a,
      rq_cpu = a_cpu a, rq_mem_mb = a_mem_mb a, rq_shares = vm_shares a rootfs,
      rq_cmdline = join_str '' '' (vm_words a),
      rq_kernel = ba_kernel art, rq_initrd = (if ba_kernel art = [] then [] else ba_initrd art),
      rq_boot_iso = (if ba_kernel art = [] then ba_boot_iso art else [])\<rparr>"

definition bad_mount :: "nat \<Rightarrow> error" where
  "bad_mount i = Errorf ''microvm: mount %d : both HostPath and GuestPath are required'' [dec_of_nat i]"

definition bad_cubefs :: "nat \<Rightarrow> error" where
  "bad_cubefs i = Errorf ''microvm: cubefs mount %d : Masters, Volume and GuestPath are all required'' [dec_of_nat i]"

section \<open>The loops\<close>

lemma add_mounts_run:
  "add_mounts i ms req =
     (case List.find (\<lambda>(j, m). \<not> mount_ok m) (enumerate i ms) of
        Some (j, m) \<Rightarrow> Inl (bad_mount j)
      | None \<Rightarrow> Inr (req\<lparr>rq_shares := rq_shares req @ map (\<lambda>(j, m). mount_share j m) (enumerate i ms),
          rq_cmdline := rq_cmdline req @ concat (map (\<lambda>(j, m). '' '' @ mount_word j m) (enumerate i ms))\<rparr>))"
proof (induction i ms req rule: add_mounts.induct)
  case (2 i m ms req)
  then show ?case
    by (simp add: mount_ok_def bad_mount_def mount_share_def mount_word_def mount_tag_def Let_def split: option.split)
qed simp

lemma add_cubefs_run:
  "add_cubefs i ms req =
     (case List.find (\<lambda>(j, m). \<not> cubefs_ok m) (enumerate i ms) of
        Some (j, m) \<Rightarrow> Inl (bad_cubefs j)
      | None \<Rightarrow> Inr (req\<lparr>rq_cmdline := rq_cmdline req @ concat (map (\<lambda>m. '' '' @ cubefs_word m) ms)\<rparr>))"
proof (induction i ms req rule: add_cubefs.induct)
  case (2 i m ms req)
  then show ?case
    by (simp add: cubefs_ok_def bad_cubefs_def cubefs_word_def Let_def split: option.split)
qed simp

lemma join_words: "xs \<noteq> [] \<Longrightarrow> join_str [c] (xs @ ys) = join_str [c] xs @ concat (map ((@) [c]) ys)"
proof (induction ys arbitrary: xs)
  case (Cons y ys)
  from Cons.IH [of "xs @ [y]"] Cons.prems show ?case by (simp add: join_str_append)
qed simp

lemma words_text:
  "join_str '' '' (vm_words a) = ''weft.rootfs=virtiofs:'' @ root_tag a @ '' console=hvc0'' @
     concat (map (\<lambda>(j, m). '' '' @ mount_word j m) (enumerate 0 (a_mounts a))) @
     concat (map (\<lambda>m. '' '' @ cubefs_word m) (a_cubefs_mounts a))"
proof -
  have "vm_words a = [''weft.rootfs=virtiofs:'' @ root_tag a, ''console=hvc0''] @
      (map (\<lambda>(i, m). mount_word i m) (enumerate 0 (a_mounts a)) @ map cubefs_word (a_cubefs_mounts a))"
    by (simp only: vm_words_def append_assoc)
  then have "join_str '' '' (vm_words a) = join_str '' '' [''weft.rootfs=virtiofs:'' @ root_tag a, ''console=hvc0''] @
      concat (map ((@) '' '') (map (\<lambda>(i, m). mount_word i m) (enumerate 0 (a_mounts a)) @ map cubefs_word (a_cubefs_mounts a)))"
    by (simp only: join_words list.distinct simp_thms)
  then show ?thesis by (simp add: comp_def case_prod_unfold)
qed

lemma request_run:
  "build_request a rootfs art =
     (case List.find (\<lambda>(i, m). \<not> mount_ok m) (enumerate 0 (a_mounts a)) of
        Some (i, m) \<Rightarrow> Inl (bad_mount i)
      | None \<Rightarrow>
          (case List.find (\<lambda>(i, m). \<not> cubefs_ok m) (enumerate 0 (a_cubefs_mounts a)) of
             Some (i, m) \<Rightarrow> Inl (bad_cubefs i)
           | None \<Rightarrow> Inr (vm_request a rootfs art)))"
  by (simp add: build_request_def Let_def add_mounts_run add_cubefs_run base_request_def boot_fields_def
      vm_request_def vm_shares_def vm_name_def words_text flip: root_tag_def split: option.split)

text \<open>
  C15. The request is the one described: the loops over the mounts and the volumes compute it, unless a
  mount lacks a path or a volume lacks a field; then the first such mount is reported, by its index,
  and volumes are looked at only when every mount is complete.
\<close>

theorem request_described:
  "build_request a rootfs art =
     (case filter (\<lambda>(i, m). \<not> mount_ok m) (enumerate 0 (a_mounts a)) of
        (i, m) # _ \<Rightarrow> Inl (bad_mount i)
      | [] \<Rightarrow>
          (case filter (\<lambda>(i, m). \<not> cubefs_ok m) (enumerate 0 (a_cubefs_mounts a)) of
             (i, m) # _ \<Rightarrow> Inl (bad_cubefs i)
           | [] \<Rightarrow> Inr (vm_request a rootfs art)))"
  by (simp add: request_run find_filter split: list.split option.split)

section \<open>What the guest reads\<close>

text \<open>
  The guest splits its command line into words; \<open>read_mount\<close> is the format the comments give for one
  mount, \<open>weft.mount=virtiofs:<tag>:<guest>[:ro]\<close>, and \<open>guest_mounts\<close> looks each tag up among the shares.
\<close>

definition read_mount :: "string \<Rightarrow> (string \<times> string \<times> bool) option" where
  "read_mount w =
     (case cut_prefix w ''weft.mount=virtiofs:'' of
        None \<Rightarrow> None
      | Some r \<Rightarrow>
          (case split_chr CHR '':'' r of
             [t, g] \<Rightarrow> Some (t, g, False)
           | [t, g, x] \<Rightarrow> if x = ''ro'' then Some (t, g, True) else None
           | _ \<Rightarrow> None))"

definition guest_mounts :: "register_request \<Rightarrow> (string option \<times> string \<times> bool) list" where
  "guest_mounts r =
     map (\<lambda>(t, g, ro). (map_option sh_path (List.find (\<lambda>sh. sh_tag sh = t) (rq_shares r)), g, ro))
       (List.map_filter read_mount (split_chr CHR '' '' (rq_cmdline r)))"

text \<open>Paths and names that are one word, and paths without a colon.\<close>

definition wordy :: "args \<Rightarrow> bool" where
  "wordy a =
     (CHR '' '' \<notin> set (root_tag a) \<and> list_all (\<lambda>m. CHR '' '' \<notin> set (cubefs_word m)) (a_cubefs_mounts a) \<and>
      list_all (\<lambda>m. CHR '' '' \<notin> set (m_guest_path m) \<and> CHR '':'' \<notin> set (m_guest_path m)) (a_mounts a))"

lemma tag_chars: "CHR '' '' \<notin> set (mount_tag i)" "CHR '':'' \<notin> set (mount_tag i)"
  by (simp_all add: mount_tag_def dec_of_nat_char_free is_digit_def)

lemma mount_tag_inject [simp]: "mount_tag i = mount_tag j \<longleftrightarrow> i = j"
  by (simp add: mount_tag_def)

lemma read_mount_word:
  assumes "CHR '':'' \<notin> set (m_guest_path m)"
  shows "read_mount (mount_word i m) = Some (mount_tag i, m_guest_path m, m_read_only m)"
proof -
  have "cut_prefix (mount_word i m) ''weft.mount=virtiofs:'' =
      Some (mount_tag i @ CHR '':'' # m_guest_path m @ ro_suffix (m_read_only m))"
    by (simp add: mount_word_def cut_prefix_def has_prefix_def)
  with assms show ?thesis
    by (simp add: read_mount_def tag_chars ro_suffix_def)
qed

lemma read_other: "read_mount (''weft.rootfs='' @ w) = None" "read_mount ''console=hvc0'' = None"
    "read_mount (cubefs_word c) = None"
  by (simp_all add: read_mount_def cut_prefix_def has_prefix_def cubefs_word_def)

lemma words_split:
  assumes "wordy a"
  shows "split_chr CHR '' '' (join_str '' '' (vm_words a)) = vm_words a"
proof (rule split_join_chr)
  show "\<forall>x\<in>set (vm_words a). CHR '' '' \<notin> set x"
    using assms by (auto simp: vm_words_def wordy_def mount_word_def tag_chars ro_suffix_def list_all_iff
        in_set_enumerate_eq)
qed (simp add: vm_words_def)

lemma words_read:
  assumes "wordy a"
  shows "List.map_filter read_mount (vm_words a) =
    map (\<lambda>(i, m). (mount_tag i, m_guest_path m, m_read_only m)) (enumerate 0 (a_mounts a))"
proof -
  have m: "List.map_filter read_mount (map (\<lambda>(i, m). mount_word i m) ims) =
      map (\<lambda>(i, m). (mount_tag i, m_guest_path m, m_read_only m)) ims"
    if "\<forall>(i, m) \<in> set ims. CHR '':'' \<notin> set (m_guest_path m)" for ims
    using that by (induction ims) (auto simp: List.map_filter_simps read_mount_word)
  have c: "List.map_filter read_mount (map cubefs_word cs) = []" for cs
    by (induction cs) (simp_all add: List.map_filter_simps read_other)
  have "\<forall>(i, m) \<in> set (enumerate 0 (a_mounts a)). CHR '':'' \<notin> set (m_guest_path m)"
    using assms by (auto simp: wordy_def list_all_iff in_set_enumerate_eq)
  from m [OF this] c read_other(1) [of "''virtiofs:'' @ root_tag a"] read_other(2) show ?thesis
    by (simp add: vm_words_def List.map_filter_def)
qed

lemma find_share:
  "(k, m) \<in> set (enumerate i ms) \<Longrightarrow>
   List.find (\<lambda>sh. sh_tag sh = mount_tag k) (map (\<lambda>(j, m). mount_share j m) (enumerate i ms)) = Some (mount_share k m)"
proof (induction ms arbitrary: i)
  case (Cons x ms)
  then show ?case by (auto simp: mount_share_def in_set_enumerate_eq)
qed simp

text \<open>
  C16. The guest mounts what was asked for: when every path and name is one word, no guest path has a
  colon and the tag of the root file system is not one of the synthesised tags, the words of the
  command line give back every mount in order, with its guest path and mode, and looking up its tag
  among the shares gives its host path.
\<close>

theorem guest_reads_mounts:
  assumes "wordy a" and "root_tag a \<notin> mount_tag ` {..<length (a_mounts a)}"
  shows "guest_mounts (vm_request a rootfs art) =
    map (\<lambda>m. (Some (m_host_path m), m_guest_path m, m_read_only m)) (a_mounts a)"
proof -
  let ?ms = "enumerate 0 (a_mounts a)"
  have found: "List.find (\<lambda>sh. sh_tag sh = mount_tag i) (vm_shares a rootfs) = Some (mount_share i m)"
    if "(i, m) \<in> set ?ms" for i m
    using find_share [OF that] that assms(2) by (auto simp: vm_shares_def in_set_enumerate_eq)
  have "map (\<lambda>(i, m). (map_option sh_path (List.find (\<lambda>sh. sh_tag sh = mount_tag i) (vm_shares a rootfs)),
        m_guest_path m, m_read_only m)) ?ms =
      map ((\<lambda>m. (Some (m_host_path m), m_guest_path m, m_read_only m)) \<circ> snd) ?ms"
    by (rule map_cong) (auto simp: found mount_share_def)
  then have "map (\<lambda>(i, m). (map_option sh_path (List.find (\<lambda>sh. sh_tag sh = mount_tag i) (vm_shares a rootfs)),
        m_guest_path m, m_read_only m)) ?ms =
      map (\<lambda>m. (Some (m_host_path m), m_guest_path m, m_read_only m)) (a_mounts a)"
    by (simp flip: map_map)
  then show ?thesis
    by (simp add: guest_mounts_def vm_request_def words_split [OF assms(1)] words_read [OF assms(1)]
        comp_def case_prod_unfold)
qed

text \<open>
  The synthesised tags are not reserved: a root file system tag that is one of them makes the
  guest find the root file system where it looks for that mount.
\<close>

theorem mount_tag_collides:
  assumes "a_mount_tag a = mount_tag i" and "i < length (a_mounts a)"
  shows "map_option sh_path (List.find (\<lambda>sh. sh_tag sh = mount_tag i) (rq_shares (vm_request a rootfs art))) = Some rootfs
    \<and> mount_share i (a_mounts a ! i) \<in> set (rq_shares (vm_request a rootfs art))"
proof -
  have "root_tag a = mount_tag i" using assms(1) by (simp add: root_tag_def mount_tag_def)
  moreover have "(i, a_mounts a ! i) \<in> set (enumerate 0 (a_mounts a))"
    using assms(2) by (simp add: in_set_enumerate_eq)
  ultimately show ?thesis by (force simp: vm_request_def vm_shares_def)
qed

definition sample_mounts :: "mount list" where
  "sample_mounts =
     [\<lparr>m_host_path = ''/src'', m_guest_path = ''/work'', m_read_only = True\<rparr>,
      \<lparr>m_host_path = ''/tmp/x'', m_guest_path = ''/out'', m_read_only = False\<rparr>]"

definition sample_args :: args where
  "sample_args = (plain_args [] ''alpine:3'')\<lparr>a_mounts := sample_mounts\<rparr>"

definition sample_artefacts :: boot_artefacts where
  "sample_artefacts = \<lparr>ba_boot_iso = [], ba_kernel = ''/k'', ba_initrd = []\<rparr>"

lemma sample_wordy: "wordy sample_args" "root_tag sample_args \<notin> mount_tag ` {..<length (a_mounts sample_args)}"
  by (auto simp: wordy_def sample_args_def plain_args_def sample_mounts_def root_tag_def mount_tag_def)

theorem guest_reads_mounts_witness:
  "guest_mounts (vm_request sample_args ''/r'' sample_artefacts) = [(Some ''/src'', ''/work'', True), (Some ''/tmp/x'', ''/out'', False)]"
  using guest_reads_mounts [OF sample_wordy, of "''/r''" sample_artefacts]
  by (simp add: sample_args_def plain_args_def sample_mounts_def)

theorem mount_tag_collides_witness:
  "map_option sh_path (List.find (\<lambda>sh. sh_tag sh = ''mount-0'')
     (rq_shares (vm_request (sample_args\<lparr>a_mount_tag := ''mount-0''\<rparr>) ''/r'' sample_artefacts))) = Some ''/r''"
proof -
  have t: "mount_tag 0 = ''mount-0''" by code_simp
  have "a_mount_tag (sample_args\<lparr>a_mount_tag := ''mount-0''\<rparr>) = mount_tag 0"
      "0 < length (a_mounts (sample_args\<lparr>a_mount_tag := ''mount-0''\<rparr>))"
    by (simp_all add: t sample_args_def plain_args_def sample_mounts_def)
  from mount_tag_collides [OF this, of "''/r''" sample_artefacts] show ?thesis by (simp add: t)
qed

end
