(* ===== verification/Pod.thy ===== *)
theory Pod
  imports Run Oci "HOL-Library.AList"
begin

text \<open>
  Pod mode (\<open>pod.go\<close>): several containers in one machine.  The manifest is read and checked, each
  image pulled, each container filled in from its image, and the specification for the guest written
  to a share of its own.  The specification and its check are those of the vendored \<open>pod\<close> package
  (\<open>spec.go\<close>).  A Go map is an association list with distinct keys; its order does not matter, since
  the encoder sorts the keys.
\<close>

section \<open>Types\<close>

record network =
  nw_interface :: string
  nw_address :: string
  nw_gateway :: string
  nw_dns :: "string list"
  nw_hostname :: string

record manifest_ctr =
  mc_id :: string
  mc_image :: string
  mc_command :: "string list"
  mc_env :: "(string \<times> string) list"
  mc_workdir :: string
  mc_user :: string
  mc_restart :: string

record pod_manifest =
  pm_pod_id :: string
  pm_containers :: "manifest_ctr list"
  pm_network :: "network option"

text \<open>The fields of \<open>pod.Container\<close>, \<open>pod.Share\<close> and \<open>pod.Spec\<close> that this program sets; the others
  stay at their zero values.\<close>

record pod_container =
  pc_id :: string
  pc_rootfs_tag :: string
  pc_command :: "string list"
  pc_env :: "(string \<times> string) list"
  pc_workdir :: string
  pc_user :: string
  pc_restart :: string

record pod_share =
  ps_tag :: string
  ps_mount_point :: string

record pod_spec =
  sp_pod_id :: string
  sp_containers :: "pod_container list"
  sp_shares :: "pod_share list"
  sp_network :: "network option"

section \<open>Their JSON\<close>

definition network_shape :: shape where
  "network_shape = SStruct
     [(''interface'', True, SStr), (''address'', True, SStr), (''gateway'', True, SStr), (''dns'', True, str_list),
      (''hostname'', True, SStr)]"

definition manifest_ctr_shape :: shape where
  "manifest_ctr_shape = SStruct
     [(''id'', False, SStr), (''image'', False, SStr), (''command'', True, str_list), (''env'', True, str_map),
      (''workdir'', True, SStr), (''user'', True, SStr), (''restart'', True, SStr)]"

definition pod_manifest_shape :: shape where
  "pod_manifest_shape = SStruct
     [(''pod_id'', False, SStr), (''containers'', False, SList manifest_ctr_shape), (''network'', True, SPtr network_shape)]"

definition pod_mount_shape :: shape where
  "pod_mount_shape = SStruct
     [(''source'', False, SStr), (''destination'', False, SStr), (''type'', True, SStr), (''options'', True, str_list)]"

definition resources_shape :: shape where
  "resources_shape = SStruct [(''cpu_shares'', True, SUint 64), (''mem_bytes'', True, SUint 64), (''pids_max'', True, SInt 64)]"

definition pod_container_shape :: shape where
  "pod_container_shape = SStruct
     [(''id'', False, SStr), (''rootfs_tag'', False, SStr), (''command'', True, str_list), (''args'', True, str_list),
      (''env'', True, str_map), (''workdir'', True, SStr), (''user'', True, SStr), (''restart'', True, SStr),
      (''mounts'', True, SList pod_mount_shape), (''resources'', True, resources_shape), (''privileged'', True, SBool),
      (''net'', True, SStr)]"

definition pod_share_shape :: shape where
  "pod_share_shape = SStruct [(''tag'', False, SStr), (''mount_point'', False, SStr), (''readonly'', True, SBool)]"

definition wg_peer_shape :: shape where
  "wg_peer_shape = SStruct
     [(''public_key'', False, SStr), (''endpoint'', True, SStr), (''allowed_ips'', False, str_list),
      (''persistent_keepalive'', True, SUint 16)]"

definition wireguard_shape :: shape where
  "wireguard_shape = SStruct
     [(''interface'', True, SStr), (''private_key'', False, SStr), (''listen_port'', True, SUint 16),
      (''address'', False, SStr), (''peers'', True, SList wg_peer_shape)]"

definition cubefs_shape :: shape where
  "cubefs_shape = SStruct
     [(''volume'', False, SStr), (''masters'', False, str_list), (''owner'', False, SStr), (''access_key'', True, SStr),
      (''secret_key'', True, SStr), (''subdir'', True, SStr)]"

definition share_mount_shape :: shape where
  "share_mount_shape = SStruct
     [(''id'', False, SStr), (''action'', True, SStr), (''backend'', True, SStr), (''mount_point'', False, SStr),
      (''readonly'', True, SBool), (''cubefs'', True, SPtr cubefs_shape)]"

definition pod_spec_shape :: shape where
  "pod_spec_shape = SStruct
     [(''pod_id'', False, SStr), (''containers'', False, SList pod_container_shape),
      (''shares'', True, SList pod_share_shape), (''network'', True, SPtr network_shape),
      (''wireguard'', True, SPtr wireguard_shape), (''share_mounts'', True, SList share_mount_shape),
      (''labels'', True, str_map)]"

definition vmap :: "gval \<Rightarrow> (string \<times> string) list" where
  "vmap v = map (\<lambda>(k, x). (k, vstr x)) (members v)"

definition network_of :: "gval \<Rightarrow> network option" where
  "network_of v =
     (if v = VNil then None
      else Some \<lparr>nw_interface = vstr (vfield ''interface'' v), nw_address = vstr (vfield ''address'' v),
                 nw_gateway = vstr (vfield ''gateway'' v), nw_dns = vstrs (vfield ''dns'' v),
                 nw_hostname = vstr (vfield ''hostname'' v)\<rparr>)"

definition manifest_ctr_of :: "gval \<Rightarrow> manifest_ctr" where
  "manifest_ctr_of v =
     \<lparr>mc_id = vstr (vfield ''id'' v), mc_image = vstr (vfield ''image'' v), mc_command = vstrs (vfield ''command'' v),
      mc_env = vmap (vfield ''env'' v), mc_workdir = vstr (vfield ''workdir'' v), mc_user = vstr (vfield ''user'' v),
      mc_restart = vstr (vfield ''restart'' v)\<rparr>"

definition pod_manifest_of :: "gval \<Rightarrow> pod_manifest" where
  "pod_manifest_of v =
     \<lparr>pm_pod_id = vstr (vfield ''pod_id'' v), pm_containers = map manifest_ctr_of (vlist (vfield ''containers'' v)),
      pm_network = network_of (vfield ''network'' v)\<rparr>"

definition unmarshal_pod_manifest :: "string \<Rightarrow> error + pod_manifest" where
  "unmarshal_pod_manifest b = decoded pod_manifest_of pod_manifest_shape b"

definition map_val :: "(string \<times> string) list \<Rightarrow> gval" where
  "map_val m = (if m = [] then VNil else VMap (map (\<lambda>(k, x). (k, VStr x)) m))"

definition list_val :: "('a \<Rightarrow> gval) \<Rightarrow> 'a list \<Rightarrow> gval" where
  "list_val f xs = (if xs = [] then VNil else VList (map f xs))"

definition network_val :: "network option \<Rightarrow> gval" where
  "network_val n =
     (case n of
        None \<Rightarrow> VNil
      | Some n \<Rightarrow> VStruct
          [(''interface'', VStr (nw_interface n)), (''address'', VStr (nw_address n)), (''gateway'', VStr (nw_gateway n)),
           (''dns'', strs_val (nw_dns n)), (''hostname'', VStr (nw_hostname n))])"

definition pod_container_val :: "pod_container \<Rightarrow> gval" where
  "pod_container_val c = VStruct
     [(''id'', VStr (pc_id c)), (''rootfs_tag'', VStr (pc_rootfs_tag c)), (''command'', strs_val (pc_command c)),
      (''args'', VNil), (''env'', map_val (pc_env c)), (''workdir'', VStr (pc_workdir c)), (''user'', VStr (pc_user c)),
      (''restart'', VStr (pc_restart c)), (''mounts'', VNil), (''resources'', zero_of resources_shape),
      (''privileged'', VBool False), (''net'', VStr [])]"

definition pod_share_val :: "pod_share \<Rightarrow> gval" where
  "pod_share_val sh = VStruct
     [(''tag'', VStr (ps_tag sh)), (''mount_point'', VStr (ps_mount_point sh)), (''readonly'', VBool False)]"

definition pod_spec_val :: "pod_spec \<Rightarrow> gval" where
  "pod_spec_val sp = VStruct
     [(''pod_id'', VStr (sp_pod_id sp)), (''containers'', list_val pod_container_val (sp_containers sp)),
      (''shares'', list_val pod_share_val (sp_shares sp)), (''network'', network_val (sp_network sp)),
      (''wireguard'', VNil), (''share_mounts'', VNil), (''labels'', VNil)]"

definition marshal_pod_spec :: "pod_spec \<Rightarrow> string" where
  "marshal_pod_spec sp = marshal pod_spec_shape (pod_spec_val sp)"

section \<open>The manifest\<close>

fun check_containers :: "string \<Rightarrow> nat \<Rightarrow> manifest_ctr list \<Rightarrow> error + unit" where
  "check_containers path i [] = Inr ()"
| "check_containers path i (c # cs) =
     (if mc_id c = [] then Inl (Errorf ''pod manifest %s: container[%d] missing id'' [path, dec_of_nat i])
      else if mc_image c = [] then Inl (Errorf ''pod manifest %s: container %q missing image'' [path, mc_id c])
      else check_containers path (Suc i) cs)"

definition load_manifest :: "string \<Rightarrow> (fs, pod_manifest) io" where
  "load_manifest path =
     io_bind (io_wrap (Wrapf ''read pod manifest %s: %w'' [path]) (os_read_file path)) (\<lambda>b.
     io_bind (io_wrap (Wrapf ''decode pod manifest %s: %w'' [path]) (io_lift (unmarshal_pod_manifest b))) (\<lambda>m.
     if pm_pod_id m = [] then io_throw (Errorf ''pod manifest %s: pod_id is required'' [path])
     else if pm_containers m = [] then io_throw (Errorf ''pod manifest %s: at least one container is required'' [path])
     else io_bind (io_lift (check_containers path 0 (pm_containers m))) (\<lambda>_. io_return m)))"

section \<open>The containers\<close>

definition env_to_map :: "string list \<Rightarrow> (string \<times> string) list" where
  "env_to_map env =
     fold (\<lambda>e m. case cut_chr CHR ''='' e of Some (k, v) \<Rightarrow> AList.update k v m | None \<Rightarrow> m) env []"

definition container_from_image :: "manifest_ctr \<Rightarrow> string \<Rightarrow> string \<Rightarrow> (fs, pod_container) io" where
  "container_from_image c tag rootfs =
     (let cfgPath = path_join [rootfs, ''.weft-microvm'', ''config.json''] in
      io_bind (io_wrap (Wrapf ''read %s: %w'' [cfgPath]) (os_read_file cfgPath)) (\<lambda>b.
      io_bind (io_wrap (Wrapf ''decode %s: %w'' [cfgPath])
        (io_lift (case unmarshal_config b of Some p \<Rightarrow> Inr p | None \<Rightarrow> Inl (Extern ''encoding/json'')))) (\<lambda>cf.
      let command = (if mc_command c = [] then ps_args cf else mc_command c) in
      if command = [] then io_throw (Errorf ''no command: image has no entrypoint/cmd and manifest set none'' [])
      else
      let env = fold (\<lambda>(k, v). AList.update k v) (mc_env c) (env_to_map (ps_env cf));
          workdir = (if mc_workdir c = [] then ps_cwd cf else mc_workdir c);
          user = (if mc_user c = [] \<and> (ps_uid cf \<noteq> 0 \<or> ps_gid cf \<noteq> 0)
                  then dec_of_nat (unat (ps_uid cf)) @ '':'' @ dec_of_nat (unat (ps_gid cf)) else mc_user c)
      in io_return
        \<lparr>pc_id = mc_id c, pc_rootfs_tag = tag, pc_command = command, pc_env = env, pc_workdir = workdir,
         pc_user = user, pc_restart = mc_restart c\<rparr>)))"

text \<open>The loop of \<open>RunPod\<close> over the containers, with the specification and the shares so far.\<close>

fun add_containers ::
  "remote \<Rightarrow> environ \<Rightarrow> nat \<Rightarrow> manifest_ctr list \<Rightarrow> pod_spec \<times> share list \<Rightarrow> (fs, pod_spec \<times> share list) io" where
  "add_containers rm env i [] (spec, shares) = io_return (spec, shares)"
| "add_containers rm env i (c # cs) (spec, shares) =
     (let tag = ''rootfs'' @ dec_of_nat i; rootfs = rootfs_path env (refsafe (mc_image c)) in
      io_bind (io_try (os_stat rootfs)) (\<lambda>st.
      io_bind (case st of
          Inr _ \<Rightarrow> io_return ()
        | Inl _ \<Rightarrow>
            if env ''WEFT_NO_AUTO_PULL'' = ''1'' then
              io_throw (Errorf ''container %q: image %q not pulled and WEFT_NO_AUTO_PULL=1 (missing %s)''
                [mc_id c, mc_image c, rootfs])
            else io_wrap (Wrapf ''container %q: pull %s: %w'' [mc_id c, mc_image c])
              (pull_image rm env (mc_image c))) (\<lambda>_.
      io_bind (io_wrap (Wrapf ''container %q: %w'' [mc_id c]) (container_from_image c tag rootfs)) (\<lambda>ctr.
      add_containers rm env (Suc i) cs
        (spec\<lparr>sp_containers := sp_containers spec @ [ctr],
              sp_shares := sp_shares spec @ [\<lparr>ps_tag = tag, ps_mount_point = ''/run/weft/rootfs/'' @ mc_id c\<rparr>]\<rparr>,
         shares @ [\<lparr>sh_tag = tag, sh_path = rootfs, sh_read_only = False, sh_clone = True\<rparr>])))))"

section \<open>The specification\<close>

text \<open>\<open>Spec.Validate\<close>; the program sets no share mounts, so that its second loop has nothing to do.\<close>

fun validate_containers :: "nat \<Rightarrow> string list \<Rightarrow> pod_container list \<Rightarrow> error + unit" where
  "validate_containers i seen [] = Inr ()"
| "validate_containers i seen (c # cs) =
     (if pc_id c = [] then Inl (Errorf ''container[%d]: id is required'' [dec_of_nat i])
      else if pc_id c \<in> set seen then Inl (Errorf ''container[%d]: duplicate id %q'' [dec_of_nat i, pc_id c])
      else if pc_rootfs_tag c = [] then Inl (Errorf ''container %q: rootfs_tag is required'' [pc_id c])
      else validate_containers (Suc i) (pc_id c # seen) cs)"

definition validate :: "pod_spec \<Rightarrow> error + unit" where
  "validate sp =
     (if sp_pod_id sp = [] then Inl (Errorf ''pod_id is required'' [])
      else if sp_containers sp = [] then Inl (Errorf ''at least one container is required'' [])
      else validate_containers 0 [] (sp_containers sp))"

definition write_pod_json :: "environ \<Rightarrow> string \<Rightarrow> pod_spec \<Rightarrow> (fs, string) io" where
  "write_pod_json env podID spec =
     (let dir = path_join [data_dir env, ''pods'', podID] in
      io_bind (io_wrap (Wrapf ''mkdir pod config dir: %w'' []) (os_mkdir_all dir 0x1ED)) (\<lambda>_.
      io_bind (io_wrap (Wrapf ''write pod.json: %w'' [])
        (os_write_file (path_join [dir, ''pod.json'']) (marshal_pod_spec spec) 0x1A4)) (\<lambda>_.
      io_return dir)))"

section \<open>The run\<close>

definition config_tag :: string where
  "config_tag = ''weftcfg''"

definition run_pod :: "server \<Rightarrow> remote \<Rightarrow> environ \<Rightarrow> args \<Rightarrow> (world, unit) io" where
  "run_pod sv rm env a =
     io_bind (on_fs (load_manifest (a_pod a))) (\<lambda>man.
     io_bind (on_fs (add_containers rm env 0 (pm_containers man)
       (\<lparr>sp_pod_id = pm_pod_id man, sp_containers = [], sp_shares = [], sp_network = pm_network man\<rparr>, [])))
       (\<lambda>(spec, shares).
     io_bind (io_wrap (Wrapf ''pod spec: %w'' []) (io_lift (validate spec))) (\<lambda>_.
     io_bind (on_fs (write_pod_json env (pm_pod_id man) spec)) (\<lambda>cfgShare.
     let shares = \<lparr>sh_tag = config_tag, sh_path = cfgShare, sh_read_only = True, sh_clone = False\<rparr> # shares in
     io_bind (on_fs (locate_pod_boot env)) (\<lambda>(kernel, initrd).
     let vmName = ''weft-microvm-pod-'' @ pm_pod_id man;
         req = \<lparr>rq_name = vmName, rq_project = a_project a, rq_host_uuid = [], rq_image = [], rq_cpu = 0, rq_mem_mb = 0,
                rq_shares = shares, rq_cmdline = ''weft.config=virtiofs:'' @ config_tag @ '' console=hvc0'',
                rq_kernel = kernel, rq_initrd = initrd, rq_boot_iso = []\<rparr>
     in register_and_start sv (a_weft_socket a) req
          \<lparr>st_name = vmName, st_project = [], st_host_uuid = []\<rparr>)))))"

definition run_args :: "server \<Rightarrow> remote \<Rightarrow> environ \<Rightarrow> args \<Rightarrow> (world, unit) io" where
  "run_args sv rm env a = (if a_pod a \<noteq> [] then run_pod sv rm env a else run_micro_vm sv rm env a)"

end
