(* ===== verification/Session.thy ===== *)
theory Session
  imports Pod
begin

text \<open>
  What the daemon sees of a run, as a state machine: a machine is registered, then started.  The
  step relation is the protocol; \<open>vm_client\<close> is the contract of an operation that prepares a machine
  and then makes the calls, and \<open>paired_client\<close> also says what is in them.  Both modes of the program are
  interpretations, and so is their dispatcher.
\<close>

section \<open>The protocol\<close>

datatype phase = Idle | Registered register_request | Running register_request | Broken

inductive session_step :: "server \<Rightarrow> rpc list \<times> phase \<Rightarrow> rpc list \<times> phase \<Rightarrow> bool" for sv where
  registers: "sv_call sv log (Register r) = None \<Longrightarrow> session_step sv (log, Idle) (log @ [Register r], Registered r)"
| refused: "sv_call sv log (Register r) = Some e \<Longrightarrow> session_step sv (log, Idle) (log @ [Register r], Broken)"
| starts: "sv_call sv log (Start q) = None \<Longrightarrow> st_name q = rq_name r \<Longrightarrow>
    session_step sv (log, Registered r) (log @ [Start q], Running r)"
| crashed: "sv_call sv log (Start q) = Some e \<Longrightarrow> st_name q = rq_name r \<Longrightarrow>
    session_step sv (log, Registered r) (log @ [Start q], Broken)"

declare session_step.intros [intro]

abbreviation session :: "server \<Rightarrow> rpc list \<times> phase \<Rightarrow> rpc list \<times> phase \<Rightarrow> bool" where
  "session sv \<equiv> (session_step sv)\<^sup>*\<^sup>*"

inductive_simps running_step [simp]: "session_step sv (log, Running r) y"
inductive_simps broken_step [simp]: "session_step sv (log, Broken) y"
inductive_cases step_cases: "session_step sv (log, ph) (log', ph')"

text \<open>
  The phases have an order, which the steps follow strictly upwards: a session never comes back to a
  phase, and it ends after two calls.
\<close>

fun phase_rank :: "phase \<Rightarrow> nat" where
  "phase_rank Idle = 0"
| "phase_rank (Registered r) = 1"
| "phase_rank (Running r) = 2"
| "phase_rank Broken = 2"

instantiation phase :: order
begin

definition less_phase where
  "ph < ph' \<longleftrightarrow> phase_rank ph < phase_rank ph'
     \<and> (case (ph, ph') of (Registered r, Running r') \<Rightarrow> r = r' | _ \<Rightarrow> True)"

definition less_eq_phase where
  "ph \<le> ph' \<longleftrightarrow> ph = ph' \<or> ph < (ph' :: phase)"

instance
  by standard (auto simp: less_eq_phase_def less_phase_def split: phase.splits)

end

lemma step_upwards: "session_step sv (l, ph) (l', ph') \<Longrightarrow> ph < ph' \<and> length l' = Suc (length l)"
  by (erule step_cases) (simp_all add: less_phase_def)

lemma session_mono:
  "session sv (l, ph) (l', ph') \<Longrightarrow> ph \<le> ph' \<and> length l' \<le> length l + phase_rank ph' - phase_rank ph"
proof (induction "(l', ph')" arbitrary: l' ph' rule: rtranclp_induct)
  case (step y)
  obtain k p where y: "y = (k, p)" by fastforce
  have "ph \<le> p" "length k \<le> length l + phase_rank p - phase_rank ph" using step(3) y by auto
  moreover have "p < ph'" "length l' = Suc (length k)" using step(2) y step_upwards by auto
  moreover have "phase_rank ph \<le> phase_rank p" if "ph \<le> p"
    using that by (auto simp: less_eq_phase_def less_phase_def)
  moreover have "phase_rank p < phase_rank ph'" using \<open>p < ph'\<close> by (simp add: less_phase_def)
  ultimately show ?case by auto
qed simp

text \<open>What has been called in each phase, and what was answered.\<close>

fun phase_log :: "server \<Rightarrow> rpc list \<Rightarrow> rpc list \<Rightarrow> phase \<Rightarrow> bool" where
  "phase_log sv log log' Idle = (log' = log)"
| "phase_log sv log log' (Registered r) = (log' = log @ [Register r] \<and> sv_call sv log (Register r) = None)"
| "phase_log sv log log' (Running r) =
     (\<exists>q. log' = log @ [Register r, Start q] \<and> st_name q = rq_name r
        \<and> sv_call sv log (Register r) = None \<and> sv_call sv (log @ [Register r]) (Start q) = None)"
| "phase_log sv log log' Broken =
     (\<exists>r. log' = log @ [Register r] \<and> sv_call sv log (Register r) \<noteq> None
        \<or> (\<exists>q. log' = log @ [Register r, Start q] \<and> st_name q = rq_name r
             \<and> sv_call sv log (Register r) = None \<and> sv_call sv (log @ [Register r]) (Start q) \<noteq> None))"

lemma phase_log_step:
  "session_step sv (l, ph) (l', ph') \<Longrightarrow> phase_log sv log l ph \<Longrightarrow> phase_log sv log l' ph'"
  by (erule step_cases) auto

lemma session_log:
  assumes "session sv (log, Idle) (log', ph)"
  shows "phase_log sv log log' ph"
  using assms
proof (induction "(log', ph)" arbitrary: log' ph rule: rtranclp_induct)
  case (step y)
  then show ?case by (cases y) (auto dest: phase_log_step)
qed simp

section \<open>Clients\<close>

text \<open>The calls of \<open>register_and_start\<close> follow the protocol.\<close>

lemma calls_session:
  assumes "st_name q = rq_name r"
  shows "\<exists>ph. session sv (w_log w, Idle) (w_log (snd (register_and_start sv socket r q w)), ph)
    \<and> (fst (register_and_start sv socket r q w) = Inr () \<longleftrightarrow> (\<exists>r. ph = Running r))"
proof (cases "sv_dial sv socket")
  case (Some e)
  then show ?thesis by (auto simp: register_and_start_def dial_weft_def io_defs)
next
  case None
  show ?thesis
  proof (cases "sv_call sv (w_log w) (Register r)")
    case (Some e)
    then have "session sv (w_log w, Idle) (w_log w @ [Register r], Broken)" by blast
    with Some None show ?thesis
      by (auto simp: register_and_start_def dial_weft_def io_defs call_def)
  next
    case ok: None
    have s: "session sv (w_log w, Idle) (w_log w @ [Register r, Start q], ph)"
      if "session_step sv (w_log w @ [Register r], Registered r) (w_log w @ [Register r, Start q], ph)" for ph
      using ok that registers [of sv "w_log w" r] by (blast intro: converse_rtranclp_into_rtranclp)
    show ?thesis
    proof (cases "sv_call sv (w_log w @ [Register r]) (Start q)")
      case (Some e)
      have "session_step sv (w_log w @ [Register r], Registered r) (w_log w @ [Register r, Start q], Broken)"
        using crashed [OF Some assms] by simp
      from s [OF this] Some ok None show ?thesis
        by (auto simp: register_and_start_def dial_weft_def io_defs call_def)
    next
      case fine: None
      have "session_step sv (w_log w @ [Register r], Registered r) (w_log w @ [Register r, Start q], Running r)"
        using starts [OF fine assms] by simp
      from s [OF this] fine ok None show ?thesis
        by (auto simp: register_and_start_def dial_weft_def io_defs call_def)
    qed
  qed
qed

text \<open>A client either fails without calling, or has a request and goes on to the calls.\<close>

locale vm_client =
  fixes client :: "server \<Rightarrow> remote \<Rightarrow> environ \<Rightarrow> args \<Rightarrow> (world, unit) io"
  assumes prepares: "(\<exists>e s. client sv rm env a w = (Inl e, w\<lparr>w_fs := s\<rparr>)) \<or>
    (\<exists>s r q. st_name q = rq_name r \<and>
       client sv rm env a w = register_and_start sv (a_weft_socket a) r q (w\<lparr>w_fs := s\<rparr>))"
begin

lemma follows:
  "\<exists>ph. session sv (w_log w, Idle) (w_log (snd (client sv rm env a w)), ph)
     \<and> (fst (client sv rm env a w) = Inr () \<longleftrightarrow> (\<exists>r. ph = Running r))"
proof -
  consider (early) e s where "client sv rm env a w = (Inl e, w\<lparr>w_fs := s\<rparr>)"
    | (calls) s r q where "st_name q = rq_name r"
        "client sv rm env a w = register_and_start sv (a_weft_socket a) r q (w\<lparr>w_fs := s\<rparr>)"
    using prepares by metis
  then show ?thesis
  proof cases
    case early
    then show ?thesis by auto
  next
    case calls
    from calls_session [OF calls(1), of sv "w\<lparr>w_fs := s\<rparr>" "a_weft_socket a"] show ?thesis
      by (simp add: calls(2))
  qed
qed

text \<open>The new calls are a registration, perhaps followed by the start of what was registered.\<close>

lemma log_shape:
  "\<exists>ph. phase_log sv (w_log w) (w_log (snd (client sv rm env a w))) ph
     \<and> (fst (client sv rm env a w) = Inr () \<longleftrightarrow> (\<exists>r. ph = Running r))"
  using follows session_log by blast

end

lemma on_fs_run: "on_fs m w = (fst (m (w_fs w)), w\<lparr>w_fs := snd (m (w_fs w))\<rparr>)"
  by (simp add: on_fs_def io_zoom_def split: prod.split)

text \<open>
  Preparing on the file system and then making the calls with a request and a start for which \<open>P\<close>
  holds; and how preparing steps go together.
\<close>

definition prepared ::
  "(register_request \<Rightarrow> start_request \<Rightarrow> bool) \<Rightarrow> server \<Rightarrow> string \<Rightarrow> (world, unit) io \<Rightarrow> bool" where
  "prepared P sv socket m \<longleftrightarrow> (\<forall>w. (\<exists>e s. m w = (Inl e, w\<lparr>w_fs := s\<rparr>)) \<or>
     (\<exists>s r q. P r q \<and> m w = register_and_start sv socket r q (w\<lparr>w_fs := s\<rparr>)))"

lemma same_world: "\<exists>s. w = w\<lparr>w_fs := s\<rparr>" for w :: world
  by (metis world.surjective world.update_convs(1) old.unit.exhaust)

lemma prepared_calls: "P r q \<Longrightarrow> prepared P sv socket (register_and_start sv socket r q)"
  unfolding prepared_def by (metis same_world)

lemma prepared_fs:
  assumes "\<And>x. prepared P sv socket (f x)"
  shows "prepared P sv socket (io_bind (on_fs m) f)"
  unfolding prepared_def
proof
  fix w
  show "(\<exists>e s. io_bind (on_fs m) f w = (Inl e, w\<lparr>w_fs := s\<rparr>)) \<or>
     (\<exists>s r q. P r q \<and> io_bind (on_fs m) f w = register_and_start sv socket r q (w\<lparr>w_fs := s\<rparr>))"
  proof (cases "fst (m (w_fs w))")
    case (Inl e)
    then show ?thesis by (auto simp: io_bind_def on_fs_run)
  next
    case (Inr x)
    then have run: "io_bind (on_fs m) f w = f x (w\<lparr>w_fs := snd (m (w_fs w))\<rparr>)"
      by (simp add: io_bind_def on_fs_run)
    from assms [of x, unfolded prepared_def, rule_format, of "w\<lparr>w_fs := snd (m (w_fs w))\<rparr>"]
    show ?thesis by (simp add: run)
  qed
qed

lemma prepared_lift:
  assumes "\<And>x. r = Inr x \<Longrightarrow> prepared P sv socket (f x)"
  shows "prepared P sv socket (io_bind (io_lift r) f)"
proof (cases r)
  case (Inl e)
  then show ?thesis by (auto simp: prepared_def io_defs intro: same_world)
next
  case (Inr x)
  then have "io_bind (io_lift r) f = f x" by (simp add: io_defs)
  with assms [OF Inr] show ?thesis by simp
qed

lemma prepared_wrap_lift:
  "(\<And>x. r = Inr x \<Longrightarrow> prepared P sv socket (f x)) \<Longrightarrow> prepared P sv socket (io_bind (io_wrap g (io_lift r)) f)"
  using prepared_lift [of "case r of Inl e \<Rightarrow> Inl (g e) | Inr x \<Rightarrow> Inr x" P sv socket f]
  by (cases r) (simp_all add: io_defs)

lemmas prepared_intros = prepared_calls prepared_fs prepared_lift prepared_wrap_lift

text \<open>The name and the project of the two calls, in each mode.\<close>

definition micro_pair :: "args \<Rightarrow> register_request \<Rightarrow> start_request \<Rightarrow> bool" where
  "micro_pair a r q = (st_name q = rq_name r \<and> rq_project r = a_project a \<and> st_project q = a_project a)"

definition pod_pair :: "args \<Rightarrow> register_request \<Rightarrow> start_request \<Rightarrow> bool" where
  "pod_pair a r q = (st_name q = rq_name r \<and> rq_project r = a_project a \<and> st_project q = [])"

lemma add_mounts_keep: "add_mounts i ms req = Inr req' \<Longrightarrow> rq_project req' = rq_project req"
  by (induction i ms req rule: add_mounts.induct) (auto simp: Let_def split: if_splits)

lemma add_cubefs_keep: "add_cubefs i ms req = Inr req' \<Longrightarrow> rq_project req' = rq_project req"
  by (induction i ms req rule: add_cubefs.induct) (auto simp: Let_def split: if_splits)

lemma build_project: "build_request a rootfs art = Inr req \<Longrightarrow> rq_project req = a_project a"
  by (auto simp: build_request_def Let_def base_request_def boot_fields_def split: sum.splits if_splits
      dest!: add_mounts_keep add_cubefs_keep)

lemma micro_prepared: "prepared (micro_pair a) sv (a_weft_socket a) (run_micro_vm sv rm env a)"
proof -
  have ensured: "prepared P sv socket (io_bind (if b then on_fs m else io_return ()) f)"
    if "\<And>x. prepared P sv socket (f x)" for P socket b m f
    using that by (auto intro: prepared_fs)
  show ?thesis
    unfolding run_micro_vm_def Let_def
    by (intro ensured prepared_fs prepared_lift prepared_calls) (simp add: micro_pair_def build_project)
qed

lemma pod_prepared: "prepared (pod_pair a) sv (a_weft_socket a) (run_pod sv rm env a)"
  by (auto simp: run_pod_def Let_def pod_pair_def split: prod.split intro!: prepared_intros)

text \<open>
  A client that prepares and then makes the calls with a pair of its own kind: the contract of both
  modes, which gives the one above.
\<close>

locale paired_client =
  fixes client :: "server \<Rightarrow> remote \<Rightarrow> environ \<Rightarrow> args \<Rightarrow> (world, unit) io"
    and pair :: "args \<Rightarrow> register_request \<Rightarrow> start_request \<Rightarrow> bool"
  assumes preparation: "prepared (pair a) sv (a_weft_socket a) (client sv rm env a)"
    and same_name: "pair a r q \<Longrightarrow> st_name q = rq_name r"

sublocale paired_client \<subseteq> vm_client client
proof
  fix sv rm env a w
  show "(\<exists>e s. client sv rm env a w = (Inl e, w\<lparr>w_fs := s\<rparr>)) \<or>
    (\<exists>s r q. st_name q = rq_name r \<and>
       client sv rm env a w = register_and_start sv (a_weft_socket a) r q (w\<lparr>w_fs := s\<rparr>))"
    using preparation [of a sv rm env] same_name unfolding prepared_def by blast
qed

context paired_client
begin

text \<open>What the daemon has been asked, with what in it.\<close>

lemma paired_log:
  "\<exists>r q new. w_log (snd (client sv rm env a w)) = w_log w @ new
    \<and> (new = [] \<or> pair a r q \<and> (new = [Register r] \<or> new = [Register r, Start q]))"
proof -
  consider (early) e s where "client sv rm env a w = (Inl e, w\<lparr>w_fs := s\<rparr>)"
    | (calls) s r q where "pair a r q" "client sv rm env a w = register_and_start sv (a_weft_socket a) r q (w\<lparr>w_fs := s\<rparr>)"
    using preparation [of a sv rm env] unfolding prepared_def by blast
  then show ?thesis
  proof cases
    case calls
    have "w_log (snd (register_and_start sv (a_weft_socket a) r q v)) \<in>
        {w_log v, w_log v @ [Register r], w_log v @ [Register r, Start q]}" for v
      by (simp add: register_and_start_def dial_weft_def call_def io_defs split: option.split)
    from this [of "w\<lparr>w_fs := s\<rparr>"] calls show ?thesis
      by (auto intro: exI [of _ "[]"] exI [of _ "[Register r]"] exI [of _ "[Register r, Start q]"])
  qed auto
qed

end

interpretation micro: paired_client run_micro_vm micro_pair
  by unfold_locales (rule micro_prepared, simp add: micro_pair_def)

interpretation pod: paired_client run_pod pod_pair
  by unfold_locales (rule pod_prepared, simp add: pod_pair_def)

interpretation either: vm_client run_args
  by unfold_locales (use micro.prepares pod.prepares in \<open>auto simp: run_args_def\<close>)

text \<open>
  C12. Every run keeps to the protocol: from an idle session the calls it makes lead along its steps,
  so that a machine is started only after the daemon has accepted the registration of that name, at
  most one is registered and at most one started; and the run reports success exactly when the
  machine is running.
\<close>

theorem run_follows_protocol:
  "\<exists>ph. session sv (w_log w, Idle) (w_log (snd (run_args sv rm env a w)), ph)
     \<and> phase_log sv (w_log w) (w_log (snd (run_args sv rm env a w))) ph
     \<and> (fst (run_args sv rm env a w) = Inr () \<longleftrightarrow> (\<exists>r. ph = Running r))"
  using either.follows [of sv w rm env a] session_log by blast

text \<open>
  The two modes treat the project differently: both register the machine in the project asked for,
  but pod mode starts it in none, while the single-container mode starts it in that project.
\<close>

theorem pod_start_drops_project:
  "list_all (\<lambda>c. case c of Register r \<Rightarrow> rq_project r = a_project a | Start q \<Rightarrow> st_project q = [])
     (drop (length (w_log w)) (w_log (snd (run_pod sv rm env a w))))
   \<and> list_all (\<lambda>c. case c of Register r \<Rightarrow> rq_project r = a_project a | Start q \<Rightarrow> st_project q = a_project a)
     (drop (length (w_log w)) (w_log (snd (run_micro_vm sv rm env a w))))"
  using pod.paired_log [of sv rm env a w] micro.paired_log [of sv rm env a w]
  by (auto simp: pod_pair_def micro_pair_def)

end
