(* ===== verification/Run_Correct.thy ===== *)
theory Run_Correct
  imports Request Session Pull_Refine
begin

text \<open>
  Whole runs: that a run with everything in place succeeds, and with which calls; what the override of
  the command leaves behind for later runs; and what is booted after a pull that failed.
\<close>

section \<open>Steps on a file system with one name per file\<close>

lemma ready_present:
  assumes "ready s" and "plains p" and "p \<noteq> []" and "view s p = Some x" and "x = ADir \<or> (\<exists>b. x = AFile b)"
  shows "present s (abs_path p)"
proof -
  from assms(4,5) obtain nd where nd: "node_at s p = Some nd" "\<nexists>t. nd = Symlink t"
    by (auto simp: view_def split: option.splits node.splits)
  have "path_open s p" using tree_ok_open readyD(1,2) [OF assms(1)] nd(1) by fastforce
  with nd assms(2,3) show ?thesis by (simp add: present_def os_stat_def walk_open_Some)
qed

lemma ready_read:
  assumes "ready s" and "plains p" and "p \<noteq> []" and "view s p = Some (AFile b)"
  shows "os_read_file (abs_path p) s = (Inr b, s)"
proof -
  from assms(4) obtain i where nd: "node_at s p = Some (File i)" "i_data (fs_inodes s i) = b"
    by (auto simp: view_AFile)
  have "path_open s p" using tree_ok_open readyD(1,2) [OF assms(1)] nd(1) by fastforce
  with nd assms(2,3) readyD(1) [OF assms(1)] show ?thesis
    by (simp add: os_read_file_def walk_open_Some allowed_def)
qed

lemma view_parent:
  assumes "ready s" and "view s (p @ [c]) \<noteq> None"
  shows "view s p = Some ADir"
proof -
  from assms(2) obtain nd where "node_at s (p @ [c]) = Some nd" by auto
  with readyD(2) [OF assms(1)] have "is_dir_at s (butlast (p @ [c]))"
    unfolding tree_ok_def by blast
  then show ?thesis by simp
qed

lemma stat_missing_present:
  assumes "ready s" and "plains p" and "clear_to s p" and "view s p = None"
  shows "\<not> present s (abs_path p)"
  using stat_missing [OF assms(2) clear_to_avoids [OF assms(3)]] assms(4)
  by (metis fst_conv present_def view_None sum.disc(1))

text \<open>A kernel in the data directory is what is booted.\<close>

definition kernel_file :: "path \<Rightarrow> path" where
  "kernel_file D = D @ [''weft-microvm'', ''kernel'']"

lemma locate_kernel:
  assumes "env ''XDG_DATA_HOME'' = abs_path D" and "plains D" and "env ''WEFT_KERNEL'' = []"
    and "ready s" and "view s (kernel_file D) = Some (AFile k)"
  shows "\<exists>art. locate_boot_artefacts env s = (Inr art, s) \<and> ba_kernel art = abs_path (kernel_file D)"
proof -
  have k: "path_join [data_dir env, ''kernel''] = abs_path (kernel_file D)" "plains (kernel_file D)"
    using path_join_plain [of "D @ [''weft-microvm'']" "''kernel''"] assms(2)
    by (simp_all add: data_dir_abs [of env D, OF assms(1,2)] kernel_file_def plain_def)
  have "present s (abs_path (kernel_file D))"
    by (rule ready_present [OF assms(4) k(2) _ assms(5)]) (simp_all add: kernel_file_def)
  with assms(3) show ?thesis
    by (simp add: locate_run candidates_def Let_def k(1))
qed

section \<open>A run that succeeds\<close>

text \<open>A daemon that can be reached and accepts every call.\<close>

definition accepts :: "server \<Rightarrow> string \<Rightarrow> bool" where
  "accepts sv socket \<longleftrightarrow> sv_dial sv socket = None \<and> (\<forall>log c. sv_call sv log c = None)"

definition mounts_ok :: "args \<Rightarrow> bool" where
  "mounts_ok a = (list_all mount_ok (a_mounts a) \<and> list_all cubefs_ok (a_cubefs_mounts a))"

definition start_of :: "args \<Rightarrow> start_request" where
  "start_of a = \<lparr>st_name = vm_name a, st_project = a_project a, st_host_uuid = a_host_uuid a\<rparr>"

lemma calls_accepted:
  "accepts sv socket \<Longrightarrow>
   register_and_start sv socket r q w = (Inr (), w\<lparr>w_log := w_log w @ [Register r, Start q]\<rparr>)"
  by (simp add: accepts_def register_and_start_def dial_weft_def call_def io_defs)

lemma request_ok:
  assumes "mounts_ok a"
  shows "build_request a rootfs art = Inr (vm_request a rootfs art)"
proof -
  have "List.find (\<lambda>(i, m). \<not> P m) (enumerate n xs) = None" if "list_all P xs" for P n and xs :: "'b list"
    using that by (auto simp: find_None_iff list_all_iff in_set_enumerate_eq dest: nth_mem)
  from this [of mount_ok] this [of cubefs_ok] assms show ?thesis by (simp add: request_run mounts_ok_def)
qed

lemma run_from:
  assumes "if a_host_uuid a = [] then ensure_image rm env (rootfs_path env (refsafe (a_image a))) a (w_fs w) = (Inr (), s)
      else s = w_fs w"
    and "locate_boot_artefacts env s = (Inr art, s)" and "mounts_ok a" and "accepts sv (a_weft_socket a)"
  shows "run_micro_vm sv rm env a w = (Inr (), w\<lparr>w_fs := s,
     w_log := w_log w @ [Register (vm_request a (rootfs_path env (refsafe (a_image a))) art), Start (start_of a)]\<rparr>)"
proof -
  have "rq_name (vm_request a rootfs art) = vm_name a" for rootfs by (simp add: vm_request_def)
  with assms(1,2) show ?thesis
    by (auto simp: run_micro_vm_def Let_def io_bind_def io_lift_def io_return_def on_fs_run request_ok [OF assms(3)]
        calls_accepted [OF assms(4)] start_of_def split: if_splits)
qed

lemma ensure_present:
  "present s rootfs \<Longrightarrow> ensure_image rm env rootfs a s = apply_run_overrides rootfs a s"
  using stat_same [of rootfs s]
  by (cases "os_stat rootfs s"; cases "fst (os_stat rootfs s)")
     (auto simp: ensure_image_def present_def io_bind_def io_try_def io_return_def)

lemma no_override: "a_cmd a = [] \<Longrightarrow> apply_run_overrides rootfs a = io_return ()"
  by (simp add: apply_run_overrides_def)

lemma run_present:
  assumes "a_host_uuid a \<noteq> [] \<or> (a_cmd a = [] \<and> present (w_fs w) (rootfs_path env (refsafe (a_image a))))"
    and "locate_boot_artefacts env (w_fs w) = (Inr art, w_fs w)" and "mounts_ok a" and "accepts sv (a_weft_socket a)"
  shows "run_micro_vm sv rm env a w = (Inr (), w\<lparr>w_log := w_log w @
     [Register (vm_request a (rootfs_path env (refsafe (a_image a))) art), Start (start_of a)]\<rparr>)"
proof -
  have "if a_host_uuid a = [] then ensure_image rm env (rootfs_path env (refsafe (a_image a))) a (w_fs w) = (Inr (), w_fs w)
      else w_fs w = w_fs w"
    using assms(1) by (auto simp: ensure_present no_override io_run)
  from run_from [OF this assms(2-)] show ?thesis by simp
qed

text \<open>
  C5. A run with everything in place succeeds: when something can be booted, the mounts are complete,
  the daemon accepts, and the root file system is there with nothing to override (or the machine is
  for another host, where none of that is looked at), it registers exactly the request described and
  starts it, and leaves the file system alone.
\<close>

theorem run_boots:
  assumes "a_host_uuid a \<noteq> [] \<or> (a_cmd a = [] \<and> present (w_fs w) (rootfs_path env (refsafe (a_image a))))"
    and "locate_boot_artefacts env (w_fs w) = (Inr art, w_fs w)" and "mounts_ok a" and "accepts sv (a_weft_socket a)"
  shows "run_micro_vm sv rm env a w = (Inr (), w\<lparr>w_log := w_log w @
     [Register (vm_request a (rootfs_path env (refsafe (a_image a))) art), Start (start_of a)]\<rparr>)"
  by (rule run_present [OF assms])

section \<open>Overriding the command\<close>

lemma cache_rootfs:
  assumes "cache_at env D img"
  shows "rootfs_path env (refsafe img) = abs_path (rootfs_dir D img)"
    and "path_join [abs_path (rootfs_dir D img), ''.weft-microvm'', ''config.json''] = abs_path (sentinel_file D img)"
    and "plains (sentinel_file D img)" and "sentinel_file D img \<noteq> []"
  using cache_places(2,3) [OF assms] cache_plains [OF assms] by (simp_all add: sentinel_file_def plain_names)

lemma sentinel_rootfs:
  assumes "ready s" and "view s (sentinel_file D img) \<noteq> None"
  shows "view s (rootfs_dir D img) = Some ADir"
proof -
  have "view s (rootfs_dir D img @ [''.weft-microvm'']) = Some ADir"
    by (rule view_parent [OF assms(1), of _ "''config.json''"]) (use assms(2) in \<open>simp add: sentinel_file_def\<close>)
  then show ?thesis by (intro view_parent [OF assms(1), of _ "''.weft-microvm''"]) (simp del: view_None view_ADir)
qed

lemma sentinel_present:
  assumes "cache_at env D img" and "ready s" and "view s (sentinel_file D img) \<noteq> None"
  shows "present s (rootfs_path env (refsafe img))"
  unfolding cache_rootfs(1) [OF assms(1)]
  by (rule ready_present [OF assms(2) cache_plains(2) [OF assms(1)] _ sentinel_rootfs [OF assms(2,3)]])
     (simp_all add: rootfs_dir_def)

text \<open>The same names, and files with the same numbers: what an overwritten file leaves as it was.\<close>

definition same_names :: "fs \<Rightarrow> fs \<Rightarrow> bool" where
  "same_names s s' \<longleftrightarrow> (\<forall>q. node_at s' q = node_at s q) \<and> fs_super s' = fs_super s \<and> fs_cwd s' = fs_cwd s"

lemma same_names_put: "node_at s p = Some (File i) \<Longrightarrow> same_names s (put_file p b m s)"
  by (simp add: same_names_def put_file_def fd_write_def truncate_file_def fs_simps)

lemma present_same: "same_names s s' \<Longrightarrow> present s' p = present s p"
  using walk_cong [of s' s] by (auto simp: same_names_def present_def os_stat_def split: sum.splits place.splits)

lemma locate_same:
  assumes "same_names s s'" and "locate_boot_artefacts env s = (Inr art, s)"
  shows "locate_boot_artefacts env s' = (Inr art, s')"
proof -
  have "present s' = present s" using present_same [OF assms(1)] by blast
  moreover from this have "candidates env s' = candidates env s" by (simp add: candidates_def)
  ultimately show ?thesis using assms(2) by (auto simp: locate_run split: option.splits)
qed

lemma override_run:
  assumes c: "cache_at env D img" and r: "ready s" and f: "view s (sentinel_file D img) = Some (AFile (marshal_config p))"
    and "config_ok p" and "a_cmd a \<noteq> []"
  shows "\<exists>s'. apply_run_overrides (abs_path (rootfs_dir D img)) a s = (Inr (), s') \<and> ready s' \<and> same_names s s'
    \<and> view s' = (view s)(sentinel_file D img \<mapsto> AFile (marshal_config (p\<lparr>ps_args := a_cmd a\<rparr>)))"
proof -
  note p = cache_rootfs(3,4) [OF c]
  have d: "is_dir_at s (butlast (sentinel_file D img))"
    using view_parent [OF r, of "butlast (sentinel_file D img)" "last (sentinel_file D img)"] f p(2)
    by (simp flip: view_ADir)
  from f obtain i where i: "node_at s (sentinel_file D img) = Some (File i)" by (auto simp: view_AFile)
  have w: "writable_at s (sentinel_file D img)"
    using p parents_open [OF r p d] i readyD(1) [OF r] by (simp add: writable_at_def allowed_def)
  have "apply_run_overrides (abs_path (rootfs_dir D img)) a s =
      (Inr (), put_file (sentinel_file D img) (marshal_config (p\<lparr>ps_args := a_cmd a\<rparr>)) 0x1A4 s)"
    using assms(5) ready_read [OF r p f] config_decode [OF assms(4)] write_file_run [OF w]
    by (simp add: apply_run_overrides_def Let_def cache_rootfs(2) [OF c] io_defs apply_user_overrides_def)
  then show ?thesis
    using ready_put_file [OF r p d] view_put_file [OF r] i same_names_put [OF i] by auto
qed

text \<open>
  C25. An override of the command outlives its run: it is written into the shared cache of the image,
  so that a later run that overrides nothing boots the same changed file, and the file system after
  both is the one before with the new arguments in that file.
\<close>

theorem override_persists:
  assumes "cache_at env D (a_image a)" and "env ''WEFT_KERNEL'' = []" and "ready (w_fs w)"
    and "view (w_fs w) (kernel_file D) = Some (AFile k)"
    and "view (w_fs w) (sentinel_file D (a_image a)) = Some (AFile (marshal_config p))" and "config_ok p"
    and "a_host_uuid a = []" and "a_cmd a \<noteq> []" and "mounts_ok a" and "accepts sv (a_weft_socket a)"
  shows "\<exists>w1 w2. run_micro_vm sv rm env a w = (Inr (), w1)
    \<and> run_micro_vm sv rm' env (a\<lparr>a_cmd := []\<rparr>) w1 = (Inr (), w2)
    \<and> view (w_fs w2) = (view (w_fs w))(sentinel_file D (a_image a) \<mapsto> AFile (marshal_config (p\<lparr>ps_args := a_cmd a\<rparr>)))"
proof -
  let ?R = "rootfs_path env (refsafe (a_image a))" and ?b = "a\<lparr>a_cmd := []\<rparr>"
  note R = cache_rootfs [OF assms(1)]
  have e: "env ''XDG_DATA_HOME'' = abs_path D" "plains D" using assms(1) by (simp_all add: cache_at_def)
  note there = sentinel_present [OF assms(1)]
  obtain s1 where s1: "apply_run_overrides ?R a (w_fs w) = (Inr (), s1)" "ready s1"
      "view s1 = (view (w_fs w))(sentinel_file D (a_image a) \<mapsto> AFile (marshal_config (p\<lparr>ps_args := a_cmd a\<rparr>)))"
    using override_run [OF assms(1,3,5,6,8)] R(1) by auto
  have "view s1 (kernel_file D) = Some (AFile k)"
    using assms(4) by (simp add: s1(3) kernel_file_def sentinel_file_def rootfs_dir_def root_dir_def)
  then obtain art where art: "locate_boot_artefacts env s1 = (Inr art, s1)"
    using locate_kernel [of env D, OF e assms(2) s1(2)] by blast
  let ?w1 = "w\<lparr>w_fs := s1, w_log := w_log w @ [Register (vm_request a ?R art), Start (start_of a)]\<rparr>"
  have "run_micro_vm sv rm env a w = (Inr (), ?w1)"
    using there [OF assms(3)] s1(1) assms(5,7)
    by (intro run_from [OF _ art assms(9,10)]) (simp add: ensure_present del: view_None)
  moreover have "present s1 ?R" by (rule there [OF s1(2)]) (simp add: s1(3) del: view_None)
  then have "run_micro_vm sv rm' env ?b ?w1 = (Inr (), ?w1\<lparr>w_log := w_log ?w1 @
      [Register (vm_request ?b ?R art), Start (start_of ?b)]\<rparr>)"
    using run_present [of ?b ?w1 env art sv rm'] art assms(9,10) by (simp add: mounts_ok_def)
  ultimately show ?thesis using s1(3) by auto
qed

section \<open>After a pull that failed\<close>

lemma failed_run:
  assumes c: "cache_at env D (a_image a)" and "env ''WEFT_NO_AUTO_PULL'' \<noteq> ''1''" and "a_host_uuid a = []"
    and "ready (w_fs w)" and "not_pulled D (a_image a) (view (w_fs w))"
    and "view (w_fs w) (rootfs_dir D (a_image a)) = None"
    and "pull_image rm env (a_image a) (w_fs w) = (Inl err, s1)"
  shows "run_micro_vm sv rm env a w = (Inl (Wrapf ''auto-pull %s: %w'' [a_image a] err), w\<lparr>w_fs := s1\<rparr>)"
proof -
  let ?R = "rootfs_path env (refsafe (a_image a))"
  have "clear_to (w_fs w) (rootfs_dir D (a_image a))"
    using assms(5) by (auto simp: not_pulled_def clear_to_iff sentinel_file_def)
  then have "\<not> present (w_fs w) ?R"
    unfolding cache_rootfs(1) [OF c] by (intro stat_missing_present [OF assms(4) cache_plains(2) [OF c] _ assms(6)])
  then show ?thesis
    using stat_same [of ?R "w_fs w"] assms(2,3,7)
    by (cases "os_stat ?R (w_fs w)")
       (auto simp: run_micro_vm_def Let_def io_bind_def on_fs_run ensure_image_def io_try_def io_wrap_def present_def
         split: sum.splits)
qed

lemma boots_what_is_left:
  assumes c: "cache_at env D (a_image a)" and "env ''WEFT_KERNEL'' = []"
    and "a_host_uuid a = []" and "a_cmd a = []" and "mounts_ok a" and "accepts sv (a_weft_socket a)"
    and r: "ready s" and "view s (kernel_file D) = Some (AFile k)" and "view s (rootfs_dir D (a_image a)) = Some ADir"
  shows "\<exists>art. run_micro_vm sv rm env a (w\<lparr>w_fs := s\<rparr>) = (Inr (), w\<lparr>w_fs := s, w_log := w_log w @
      [Register (vm_request a (abs_path (rootfs_dir D (a_image a))) art), Start (start_of a)]\<rparr>)"
proof -
  have e: "env ''XDG_DATA_HOME'' = abs_path D" "plains D" using c by (simp_all add: cache_at_def)
  obtain art where art: "locate_boot_artefacts env s = (Inr art, s)"
    using locate_kernel [of env D, OF e assms(2) r assms(8)] by blast
  have "present s (rootfs_path env (refsafe (a_image a)))"
    unfolding cache_rootfs(1) [OF c]
    by (rule ready_present [OF r cache_plains(2) [OF c] _ assms(9)]) (simp_all add: rootfs_dir_def)
  then have "run_micro_vm sv rm env a (w\<lparr>w_fs := s\<rparr>) = (Inr (), w\<lparr>w_fs := s, w_log := w_log w @
      [Register (vm_request a (abs_path (rootfs_dir D (a_image a))) art), Start (start_of a)]\<rparr>)"
    using run_present [of a "w\<lparr>w_fs := s\<rparr>" env art sv rm] art assms(3-6) cache_rootfs(1) [OF c] by simp
  then show ?thesis by blast
qed

text \<open>
  A pull that failed is not tried again: when the image is not there and its manifest cannot be
  had, the run fails without a call; but the same run, made again against the same registry, succeeds
  and boots a machine whose root file system is the empty directory the failed pull left.
\<close>

theorem failed_pull_boots_empty:
  assumes "cache_at env D (a_image a)" and "env ''WEFT_KERNEL'' = []" and "env ''WEFT_NO_AUTO_PULL'' \<noteq> ''1''"
    and "ready (w_fs w)" and "view (w_fs w) (kernel_file D) = Some (AFile k)"
    and "not_pulled D (a_image a) (view (w_fs w))" and "view (w_fs w) (rootfs_dir D (a_image a)) = None"
    and "new_repository (canonical_ref env (a_image a)) = Inr repo"
    and "fetch_manifest rm repo (a_image a) = Inl err"
    and "a_host_uuid a = []" and "a_cmd a = []" and "mounts_ok a" and "accepts sv (a_weft_socket a)"
  shows "\<exists>w1 w2 art. run_micro_vm sv rm env a w = (Inl (Wrapf ''auto-pull %s: %w'' [a_image a] err), w1)
    \<and> w_log w1 = w_log w
    \<and> run_micro_vm sv rm env a w1 = (Inr (), w2)
    \<and> w_log w2 = w_log w @ [Register (vm_request a (abs_path (rootfs_dir D (a_image a))) art), Start (start_of a)]
    \<and> view (w_fs w2) (rootfs_dir D (a_image a)) = Some ADir
    \<and> (\<forall>c. view (w_fs w2) (rootfs_dir D (a_image a) @ [c]) = None)"
proof -
  let ?F = "rootfs_dir D (a_image a)" and ?s = "w_fs w"
  obtain s1 where s1: "pull_image rm env (a_image a) ?s = (Inl err, s1)" "ready s1" "view s1 = spec_dirs ?F (view ?s)"
      "is_dir_at s1 ?F"
    using failed_pull [OF assms(1,4,8,6,9)] by blast
  have "view s1 (kernel_file D) = Some (AFile k)" "view s1 ?F = Some ADir"
    using assms(5) s1(4) by (simp_all add: s1(3) [symmetric]) (simp add: s1(3) spec_dirs_def del: view_None)
  then obtain art where second: "run_micro_vm sv rm env a (w\<lparr>w_fs := s1\<rparr>) = (Inr (), w\<lparr>w_fs := s1, w_log := w_log w @
      [Register (vm_request a (abs_path ?F) art), Start (start_of a)]\<rparr>)"
    using boots_what_is_left [OF assms(1,2,10-13) s1(2)] by blast
  have "view ?s (?F @ [c]) = None" for c
    using view_parent [OF assms(4), of ?F c] assms(7) by (metis option.distinct(1))
  then have "view s1 (?F @ [c]) = None" for c
    by (simp add: s1(3) spec_dirs_def del: view_None)
  then show ?thesis
    using failed_run [OF assms(1,3,10,4,6,7) s1(1)] second s1(4) by (auto simp del: view_None)
qed

section \<open>Concrete runs\<close>

definition sample_server :: server where
  "sample_server = \<lparr>sv_dial = (\<lambda>_. None), sv_call = (\<lambda>_ _. None)\<rparr>"

text \<open>A data directory with a kernel only, and one with an image as well.\<close>

definition sample_kernel :: fs where
  "sample_kernel =
     \<lparr>fs_nodes = [([], Dir 0x1ED), ([''d''], Dir 0x1ED), ([''d'', ''weft-microvm''], Dir 0x1ED),
                  ([''d'', ''weft-microvm'', ''kernel''], File 0)],
      fs_inodes = (\<lambda>i. \<lparr>i_data = ''x'', i_mode = 0x1A4, i_mtime = 1\<rparr>),
      fs_next = 1, fs_cwd = [], fs_super = True, fs_umask = 0x12, fs_now = 7\<rparr>"

definition config_inode :: "nat \<Rightarrow> inode" where
  "config_inode i = \<lparr>i_data = marshal_config sample_process, i_mode = 0x1A4, i_mtime = 1\<rparr>"

definition sample_image :: fs where
  "sample_image =
     \<lparr>fs_nodes = fs_nodes sample_kernel @
        [([''d'', ''weft-microvm'', ''images''], Dir 0x1ED), (root_dir [''d''] ''alpine:3'', Dir 0x1ED),
         (rootfs_dir [''d''] ''alpine:3'', Dir 0x1ED), (rootfs_dir [''d''] ''alpine:3'' @ [''.weft-microvm''], Dir 0x1ED),
         (sentinel_file [''d''] ''alpine:3'', File 1)],
      fs_inodes = config_inode,
      fs_next = 2, fs_cwd = [], fs_super = True, fs_umask = 0x12, fs_now = 7\<rparr>"

lemma sample_accepts: "accepts sample_server socket"
  by (simp add: accepts_def sample_server_def)

lemma sample_ready: "ready sample_kernel" "ready sample_image"
  by (rule ready_check_ready, code_simp)+

lemma sample_run_cache: "cache_at sample_env [''d''] (a_image sample_args)" "sample_env ''WEFT_KERNEL'' = []"
    "sample_env ''WEFT_NO_AUTO_PULL'' \<noteq> ''1''" "mounts_ok sample_args" "a_host_uuid sample_args = []"
    "a_image sample_args = ''alpine:3''" "a_cmd sample_args = []"
  by code_simp+

lemma sample_kernels: "view sample_kernel (kernel_file [''d'']) = Some (AFile ''x'')"
    "view sample_image (kernel_file [''d'']) = Some (AFile (marshal_config sample_process))"
    "view sample_image (sentinel_file [''d''] ''alpine:3'') = Some (AFile (marshal_config sample_process))"
  by (simp_all add: view_AFile sample_kernel_def sample_image_def config_inode_def node_at_def kernel_file_def sentinel_file_def
      rootfs_dir_def root_dir_def)

theorem run_boots_witness:
  "\<exists>art. run_micro_vm sample_server (sample_remote []) sample_env sample_args \<lparr>w_fs = sample_image, w_log = []\<rparr> =
     (Inr (), \<lparr>w_fs = sample_image, w_log =
        [Register (vm_request sample_args (abs_path (rootfs_dir [''d''] ''alpine:3'')) art), Start (start_of sample_args)]\<rparr>)"
proof -
  have e: "sample_env ''XDG_DATA_HOME'' = abs_path [''d'']" "plains [''d'']" by code_simp+
  obtain art where art: "locate_boot_artefacts sample_env sample_image = (Inr art, sample_image)"
    using locate_kernel [of sample_env "[''d'']", OF e sample_run_cache(2) sample_ready(2) sample_kernels(2)] by blast
  have "present sample_image (rootfs_path sample_env (refsafe (a_image sample_args)))"
    by (rule sentinel_present [OF sample_run_cache(1) sample_ready(2)])
       (simp add: sample_run_cache(6) sample_kernels(3) del: view_None)
  then show ?thesis
    using run_boots [of sample_args "\<lparr>w_fs = sample_image, w_log = []\<rparr>" sample_env art sample_server "sample_remote []"]
      art sample_run_cache(4-7) sample_accepts cache_rootfs(1) [OF sample_run_cache(1)] by auto
qed

theorem override_persists_witness:
  "\<exists>w1 w2. run_micro_vm sample_server (sample_remote []) sample_env (sample_args\<lparr>a_cmd := [''sh'']\<rparr>)
      \<lparr>w_fs = sample_image, w_log = []\<rparr> = (Inr (), w1)
    \<and> run_micro_vm sample_server (sample_remote []) sample_env sample_args w1 = (Inr (), w2)
    \<and> view (w_fs w2) (sentinel_file [''d''] ''alpine:3'') = Some (AFile (marshal_config (sample_process\<lparr>ps_args := [''sh'']\<rparr>)))"
proof -
  let ?a = "sample_args\<lparr>a_cmd := [''sh'']\<rparr>" and ?w = "\<lparr>w_fs = sample_image, w_log = []\<rparr>"
  have a: "a_image ?a = ''alpine:3''" "a_host_uuid ?a = []" "a_cmd ?a \<noteq> []" "mounts_ok ?a" "?a\<lparr>a_cmd := []\<rparr> = sample_args"
    using sample_run_cache by (simp_all add: mounts_ok_def sample_args_def plain_args_def)
  show ?thesis
    using override_persists [of sample_env "[''d'']" ?a ?w, OF _ sample_run_cache(2)] a sample_run_cache(1,6)
      sample_ready(2) sample_kernels(2,3) sample_process_ok sample_accepts
    by fastforce
qed

theorem failed_pull_boots_empty_witness:
  "\<exists>w1 w2 e. run_micro_vm sample_server broken_remote sample_env sample_args \<lparr>w_fs = sample_kernel, w_log = []\<rparr> = (Inl e, w1)
    \<and> run_micro_vm sample_server broken_remote sample_env sample_args w1 = (Inr (), w2)
    \<and> view (w_fs w2) (rootfs_dir [''d''] ''alpine:3'' @ [''bin'']) = None"
proof -
  have "not_pulled [''d''] ''alpine:3'' (view sample_kernel)" "view sample_kernel (rootfs_dir [''d''] ''alpine:3'') = None"
    by code_simp+
  then show ?thesis
    using failed_pull_boots_empty [of sample_env "[''d'']" sample_args "\<lparr>w_fs = sample_kernel, w_log = []\<rparr>",
      OF sample_run_cache(1-3)] sample_run_cache(4-7) sample_ready(1) sample_kernels(1) sample_reference sample_broken
      sample_accepts by fastforce
qed

end
