(* ===== verification/Run_Fresh.thy ===== *)
theory Run_Fresh
  imports Run_Correct
begin

text \<open>
  The whole way from an empty cache to a running machine: the pull, the override of the command, the
  search for a kernel, the request and the calls, as one run.
\<close>

section \<open>Making sure of an image that is not there\<close>

definition with_command :: "string list \<Rightarrow> process_spec \<Rightarrow> process_spec" where
  "with_command cmd p = (if cmd = [] then p else p\<lparr>ps_args := cmd\<rparr>)"

lemma spec_pull_sentinel:
  "spec_pull D img mb ls cb out t = Some t' \<Longrightarrow> t' (sentinel_file D img) = Some (AFile out)"
  by (auto simp: spec_pull_def spec_write_def bind_eq_Some_conv split: if_splits)

lemma override_view:
  assumes "cache_at env D (a_image a)" and "ready s" and "config_ok p"
    and "view s (sentinel_file D (a_image a)) = Some (AFile (marshal_config p))"
  shows "\<exists>s'. apply_run_overrides (abs_path (rootfs_dir D (a_image a))) a s = (Inr (), s') \<and> ready s' \<and> same_names s s'
    \<and> view s' = (view s)(sentinel_file D (a_image a) \<mapsto> AFile (marshal_config (with_command (a_cmd a) p)))"
proof (cases "a_cmd a = []")
  case True
  with assms(2,4) show ?thesis
    by (auto simp: no_override io_run with_command_def same_names_def intro!: exI [of _ s] simp del: view_AFile)
next
  case False
  with override_run [OF assms(1,2,4,3)] show ?thesis by (simp add: with_command_def)
qed

lemma ensure_pulls:
  assumes c: "cache_at env D (a_image a)" and "env ''WEFT_NO_AUTO_PULL'' \<noteq> ''1''" and "ready s"
    and np: "not_pulled D (a_image a) (view s)" and "view s (rootfs_dir D (a_image a)) = None"
    and "new_repository (canonical_ref env (a_image a)) = Inr repo"
    and "serves rm repo (a_image a) mb ls cb proc" and "config_ok proc"
    and t: "spec_pull D (a_image a) mb ls cb (marshal_config proc) (view s) = Some t"
  shows "\<exists>s'. ensure_image rm env (abs_path (rootfs_dir D (a_image a))) a s = (Inr (), s') \<and> ready s'
    \<and> view s' = t(sentinel_file D (a_image a) \<mapsto> AFile (marshal_config (with_command (a_cmd a) proc)))"
proof -
  let ?F = "rootfs_dir D (a_image a)"
  obtain s1 where s1: "pull_image rm env (a_image a) s = (Inr (), s1)" "ready s1" "view s1 = t"
    using pull_runs [OF c assms(3,6) np assms(7) t] by blast
  have "view s1 (sentinel_file D (a_image a)) = Some (AFile (marshal_config proc))"
    unfolding s1(3) by (rule spec_pull_sentinel [OF t])
  then obtain s2 where s2: "apply_run_overrides (abs_path ?F) a s1 = (Inr (), s2)" "ready s2"
      "view s2 = t(sentinel_file D (a_image a) \<mapsto> AFile (marshal_config (with_command (a_cmd a) proc)))"
    using override_view [OF c s1(2) assms(8)] s1(3) by blast
  have "clear_to s ?F" using np by (auto simp: not_pulled_def clear_to_iff sentinel_file_def)
  then have "\<not> present s (abs_path ?F)"
    using stat_missing_present [OF assms(3) cache_plains(2) [OF c]] assms(5) by blast
  then have "ensure_image rm env (abs_path ?F) a s = (Inr (), s2)"
    using stat_same [of "abs_path ?F" s] assms(2) s1(1) s2(1)
    by (cases "os_stat (abs_path ?F) s")
       (auto simp: ensure_image_def io_bind_def io_try_def io_wrap_def present_def split: sum.splits)
  with s2 show ?thesis by blast
qed

section \<open>From nothing to a machine\<close>

text \<open>
  C4. From an empty cache to a running machine: when the image is not there, the registry serves it, a
  kernel is in the data directory, the mounts are complete and the daemon accepts, one run pulls the
  image, applies the override, registers exactly the request described and starts it; and the tree
  afterwards is the one the pull describes, with the process of the image's configuration, its
  arguments replaced by those asked for, in the file the guest reads.
\<close>

theorem run_pulls_and_boots:
  assumes c: "cache_at env D (a_image a)" and "env ''WEFT_KERNEL'' = []" and "env ''WEFT_NO_AUTO_PULL'' \<noteq> ''1''"
    and "ready (w_fs w)" and "not_pulled D (a_image a) (view (w_fs w))"
    and "view (w_fs w) (rootfs_dir D (a_image a)) = None"
    and "new_repository (canonical_ref env (a_image a)) = Inr repo"
    and "serves rm repo (a_image a) mb ls cb proc" and "config_ok proc"
    and "spec_pull D (a_image a) mb ls cb (marshal_config proc) (view (w_fs w)) = Some t"
    and "t (kernel_file D) = Some (AFile k)"
    and "a_host_uuid a = []" and "mounts_ok a" and "accepts sv (a_weft_socket a)"
  shows "\<exists>s art. run_micro_vm sv rm env a w = (Inr (), w\<lparr>w_fs := s, w_log := w_log w @
       [Register (vm_request a (abs_path (rootfs_dir D (a_image a))) art), Start (start_of a)]\<rparr>)
    \<and> ba_kernel art = abs_path (kernel_file D)
    \<and> view s = t(sentinel_file D (a_image a) \<mapsto> AFile (marshal_config (with_command (a_cmd a) proc)))"
proof -
  have e: "env ''XDG_DATA_HOME'' = abs_path D" "plains D" using c by (simp_all add: cache_at_def)
  obtain s where s: "ensure_image rm env (abs_path (rootfs_dir D (a_image a))) a (w_fs w) = (Inr (), s)" "ready s"
      "view s = t(sentinel_file D (a_image a) \<mapsto> AFile (marshal_config (with_command (a_cmd a) proc)))"
    using ensure_pulls [OF c assms(3-10)] by blast
  have "view s (kernel_file D) = Some (AFile k)"
    using assms(11) by (simp add: s(3) kernel_file_def sentinel_file_def rootfs_dir_def root_dir_def)
  then obtain art where art: "locate_boot_artefacts env s = (Inr art, s)" "ba_kernel art = abs_path (kernel_file D)"
    using locate_kernel [of env D, OF e assms(2) s(2)] by blast
  have "run_micro_vm sv rm env a w = (Inr (), w\<lparr>w_fs := s, w_log := w_log w @
      [Register (vm_request a (rootfs_path env (refsafe (a_image a))) art), Start (start_of a)]\<rparr>)"
    by (rule run_from [OF _ art(1) assms(13,14)]) (simp add: assms(12) cache_rootfs(1) [OF c] s(1))
  with art(2) s(3) show ?thesis using cache_rootfs(1) [OF c] by auto
qed

text \<open>Two layers and a command of the user's, beside a kernel.\<close>

lemma sample_proc_ok: "config_ok sample_proc"
  by (simp add: config_ok_def sample_proc_def utf8_def utf8_fix_ascii code_def)

lemma sample_run_spec:
  "\<exists>t. spec_pull [''d''] ''alpine:3'' mb [layer_one, layer_two] cb out (view sample_kernel) = Some t
     \<and> t (rootfs_dir [''d''] ''alpine:3'' @ [''bin'', ''app'']) = Some (AFile ''v2'')
     \<and> t (kernel_file [''d'']) = Some (AFile ''x'')"
proof -
  let ?t = "the (spec_pull [''d''] ''alpine:3'' mb [layer_one, layer_two] cb out (view sample_kernel))"
  have "spec_pull [''d''] ''alpine:3'' mb [layer_one, layer_two] cb out (view sample_kernel) \<noteq> None"
      "?t (rootfs_dir [''d''] ''alpine:3'' @ [''bin'', ''app'']) = Some (AFile ''v2'')"
      "?t (kernel_file [''d'']) = Some (AFile ''x'')"
    by code_simp+
  then show ?thesis by (metis option.collapse)
qed

theorem run_pulls_and_boots_witness:
  "\<exists>s art. run_micro_vm sample_server (sample_remote sample_layers) sample_env (sample_args\<lparr>a_cmd := [''sh'']\<rparr>)
      \<lparr>w_fs = sample_kernel, w_log = []\<rparr> = (Inr (), \<lparr>w_fs = s, w_log =
        [Register (vm_request (sample_args\<lparr>a_cmd := [''sh'']\<rparr>) (abs_path (rootfs_dir [''d''] ''alpine:3'')) art),
         Start (start_of (sample_args\<lparr>a_cmd := [''sh'']\<rparr>))]\<rparr>)
    \<and> view s (rootfs_dir [''d''] ''alpine:3'' @ [''bin'', ''app'']) = Some (AFile ''v2'')
    \<and> view s (sentinel_file [''d''] ''alpine:3'') = Some (AFile (marshal_config (sample_proc\<lparr>ps_args := [''sh'']\<rparr>)))"
proof -
  let ?a = "sample_args\<lparr>a_cmd := [''sh'']\<rparr>" and ?w = "\<lparr>w_fs = sample_kernel, w_log = []\<rparr>"
  let ?sp = "spec_pull [''d''] ''alpine:3'' (manifest_text sample_layers) [layer_one, layer_two] image_text
    (marshal_config sample_proc) (view sample_kernel)"
  have a: "a_image ?a = ''alpine:3''" "a_host_uuid ?a = []" "a_cmd ?a = [''sh'']" "mounts_ok ?a"
    using sample_run_cache by (simp_all add: mounts_ok_def sample_args_def plain_args_def)
  have np: "not_pulled [''d''] ''alpine:3'' (view sample_kernel)" "view sample_kernel (rootfs_dir [''d''] ''alpine:3'') = None"
    by code_simp+
  obtain t where t: "?sp = Some t" "t (rootfs_dir [''d''] ''alpine:3'' @ [''bin'', ''app'']) = Some (AFile ''v2'')"
      "t (kernel_file [''d'']) = Some (AFile ''x'')"
    using sample_run_spec by blast
  show ?thesis
    using run_pulls_and_boots [of sample_env "[''d'']" ?a ?w sample_repo "sample_remote sample_layers" "manifest_text sample_layers"
      "[layer_one, layer_two]" image_text sample_proc t "''x''" sample_server] a np t sample_proc_ok sample_run_cache(1-3,6) sample_ready(1)
      sample_reference sample_serves sample_accepts
    by (auto simp: with_command_def sentinel_file_def rootfs_dir_def simp del: view_AFile)
qed

end
