(* ===== verification/Pull_Outcome.thy ===== *)
theory Pull_Outcome
  imports Run_Fresh
begin

text \<open>
  \<open>Pull\<close> against any registry: the tree and the verdict as a function of what arrives, for streams that
  stop in the middle of a layer or of a file, layers that are not served, a configuration that cannot
  be had or read.  It gives the meaning of the sentinel: it is there exactly after a success.
\<close>

section \<open>What a layer leaves\<close>

text \<open>One entry, with the content it delivers: the verdict is whether the extraction goes on.\<close>

definition spec_item :: "path \<Rightarrow> tar_header \<Rightarrow> stream \<Rightarrow> tree \<Rightarrow> (tree \<times> bool) option" where
  "spec_item D hdr r t =
     (if climbs 0 (split_chr slash (trim_left_chr slash (hName hdr))) then Some (t, False)
      else if file_entry hdr \<and> snd r \<noteq> None then map_option (\<lambda>t. (t, False)) (spec_entry D hdr (fst r, None) t)
      else map_option (\<lambda>t. (t, True)) (spec_entry D hdr r t))"

text \<open>Going on after a step that may have stopped.\<close>

definition and_then :: "(tree \<times> bool) option \<Rightarrow> (tree \<Rightarrow> (tree \<times> bool) option) \<Rightarrow> (tree \<times> bool) option" where
  "and_then x f = (case x of None \<Rightarrow> None | Some (t, ok) \<Rightarrow> if ok then f t else Some (t, False))"

fun spec_items :: "path \<Rightarrow> tar_item list \<Rightarrow> tree \<Rightarrow> (tree \<times> bool) option" where
  "spec_items D [] t = Some (t, True)"
| "spec_items D (TarError _ # items) t = Some (t, False)"
| "spec_items D (TarEntry hdr r # items) t = and_then (spec_item D hdr r t) (spec_items D items)"

fun spec_served :: "path \<Rightarrow> tar_item list option list \<Rightarrow> tree \<Rightarrow> (tree \<times> bool) option" where
  "spec_served D [] t = Some (t, True)"
| "spec_served D (None # ls) t = Some (t, False)"
| "spec_served D (Some l # ls) t = and_then (spec_items D l t) (spec_served D ls)"

text \<open>A computation on well-formed file systems does what a specification says.\<close>

definition realises :: "(fs, 'a) io \<Rightarrow> fs \<Rightarrow> tree \<times> bool \<Rightarrow> bool" where
  "realises m s r \<longleftrightarrow> (\<exists>x s'. m s = (x, s') \<and> ready s' \<and> view s' = fst r \<and> (isl x \<longleftrightarrow> \<not> snd r))"

lemma realisesI: "m s = (x, s') \<Longrightarrow> ready s' \<Longrightarrow> view s' = t \<Longrightarrow> (isl x \<longleftrightarrow> \<not> ok) \<Longrightarrow> realises m s (t, ok)"
  by (auto simp: realises_def)

lemma realises_wrap: "realises m s r \<Longrightarrow> realises (io_wrap w m) s r"
  by (auto simp: realises_def io_wrap_def split: sum.splits)

lemma realises_bind:
  assumes "realises m s r" and "\<not> snd r \<Longrightarrow> r' = (fst r, False)"
    and "\<And>x s'. snd r \<Longrightarrow> m s = (Inr x, s') \<Longrightarrow> ready s' \<Longrightarrow> view s' = fst r \<Longrightarrow> realises (f x) s' r'"
  shows "realises (io_bind m f) s r'"
proof -
  from assms(1) obtain x s' where x: "m s = (x, s')" "ready s'" "view s' = fst r" "isl x \<longleftrightarrow> \<not> snd r"
    by (auto simp: realises_def)
  show ?thesis
  proof (cases x)
    case (Inl e)
    with x assms(2) show ?thesis by (auto simp: realises_def io_bind_def)
  next
    case (Inr y)
    with x assms(3) [of y s'] show ?thesis by (simp add: realises_def io_bind_def)
  qed
qed

lemma item_refines:
  assumes D: "plains D" "D \<noteq> []" and r: "ready s" and spec: "spec_item D hdr b (view s) = Some q"
  shows "realises (apply_entry b hdr (abs_path D)) s q"
proof -
  let ?climbs = "climbs 0 (split_chr slash (trim_left_chr slash (hName hdr)))"
  consider (climbs) "?climbs" | (cut) e where "\<not> ?climbs" "file_entry hdr" "snd b = Some e"
    | (fine) "\<not> ?climbs" "\<not> (file_entry hdr \<and> snd b \<noteq> None)" by blast
  then show ?thesis
  proof cases
    case climbs
    then obtain e where "safe_join (abs_path D) (hName hdr) = Inl e"
      using safe_join_spec [OF D(1), of "hName hdr"] by (auto split: sum.splits)
    with climbs spec r show ?thesis
      by (auto simp: spec_item_def apply_entry_def io_throw_def intro!: realisesI)
  next
    case cut
    define p where "p = D @ entry_comps (hName hdr)"
    from cut spec obtain t where t: "spec_entry D hdr (fst b, None) (view s) = Some t" "q = (t, False)"
      by (auto simp: spec_item_def)
    have "hTypeflag hdr = TypeReg \<or> hTypeflag hdr = TypeRegA" "\<not> has_prefix (path_base (hName hdr)) ''.wh.''"
      using cut(2) by (simp_all add: file_entry_def)
    moreover from this have "path_base (hName hdr) \<noteq> ''.wh..wh..opq''" by (auto simp: has_prefix_def)
    ultimately have f: "spec_file p (fst b, None) (view s) = Some t" "entry_comps (hName hdr) \<noteq> []"
      using t(1) by (auto simp: spec_entry_def Let_def p_def split: if_splits)
    note g = spec_file_SomeD [OF f(1)]
    have "p \<noteq> []" using f(2) by (simp add: p_def)
    from file_entry_run [OF D(1) cut(2,1) p_def this r g(1,3), of b] cut(3)
    obtain s1 where "ready s1" "view s1 = spec_dirs (butlast p) (view s)" "node_at s1 p = node_at s p"
      and "ready (put_file p (fst b) (file_mode (hMode hdr)) s1)"
      and "apply_entry b hdr (abs_path D) s = (Inl e, put_file p (fst b) (file_mode (hMode hdr)) s1)"
      by auto
    then show ?thesis using view_put_file [of s1 p] g(3,4) t(2) by (auto intro!: realisesI)
  next
    case fine
    with spec obtain t where t: "spec_entry D hdr b (view s) = Some t" "q = (t, True)"
      by (auto simp: spec_item_def split: if_splits)
    obtain s' where "apply_entry b hdr (abs_path D) s = (Inr (), s')" "ready s'" "view s' = t"
      using entry_refines [OF D r t(1)] .
    with t(2) show ?thesis by (auto intro: realisesI)
  qed
qed

lemma realises_then:
  assumes "realises m s q" and "and_then (Some q) g = Some r"
    and "\<And>x s'. ready s' \<Longrightarrow> g (view s') = Some r \<Longrightarrow> realises (f x) s' r"
  shows "realises (io_bind m f) s r"
  by (rule realises_bind [OF assms(1)]) (use assms(2,3) in \<open>auto simp: and_then_def split: prod.splits if_splits\<close>)

lemma and_then_SomeD: "and_then x g = Some r \<Longrightarrow> \<exists>q. x = Some q \<and> and_then (Some q) g = Some r"
  by (cases x) (simp_all add: and_then_def)

lemma items_refine:
  assumes "plains D" and "D \<noteq> []"
  shows "ready s \<Longrightarrow> spec_items D items (view s) = Some r \<Longrightarrow> realises (extract_tar items (abs_path D)) s r"
proof (induction items arbitrary: s)
  case Nil
  then show ?case by (auto simp: io_return_def intro: realisesI)
next
  case (Cons item items)
  show ?case
  proof (cases item)
    case (TarError e)
    with Cons.prems show ?thesis by (auto simp: io_throw_def intro: realisesI)
  next
    case (TarEntry hdr b)
    with Cons.prems(2) obtain q where q: "spec_item D hdr b (view s) = Some q"
        "and_then (Some q) (spec_items D items) = Some r"
      by (auto dest: and_then_SomeD)
    show ?thesis
      unfolding TarEntry extract_tar.simps
      by (rule realises_then [OF realises_wrap [OF item_refines [OF assms Cons.prems(1) q(1)]] q(2)]) (rule Cons.IH)
  qed
qed

lemma layer_refines:
  assumes "plains D" and "D \<noteq> []" and "ready s"
    and "spec_served D (layer_items rm repo layer # ls) (view s) = Some r"
  shows "\<exists>q. realises (pull_and_extract_layer rm repo layer (abs_path D)) s q \<and> and_then (Some q) (spec_served D ls) = Some r"
proof (cases "layer_items rm repo layer")
  case None
  then obtain e where "pull_and_extract_layer rm repo layer (abs_path D) s = (Inl e, s)"
    by (auto simp: layer_items_def pull_and_extract_layer_def extract_layer_def io_defs split: sum.splits)
  with assms(3,4) None show ?thesis
    by (intro exI [of _ "(view s, False)"]) (auto simp: and_then_def intro: realisesI)
next
  case (Some l)
  then have run: "pull_and_extract_layer rm repo layer (abs_path D) =
      io_wrap (Wrapf ''extract: %w'' []) (extract_tar l (abs_path D))"
    by (auto simp: layer_items_def pull_and_extract_layer_def extract_layer_def io_defs split: sum.splits)
  from assms(4) Some obtain q where q: "spec_items D l (view s) = Some q" "and_then (Some q) (spec_served D ls) = Some r"
    by (auto dest: and_then_SomeD)
  have "realises (pull_and_extract_layer rm repo layer (abs_path D)) s q"
    unfolding run by (rule realises_wrap, rule items_refine [OF assms(1-3) q(1)])
  with q(2) show ?thesis by blast
qed

lemma served_refines:
  assumes "plains D" and "D \<noteq> []"
  shows "ready s \<Longrightarrow> spec_served D (map (layer_items rm repo) layers) (view s) = Some r \<Longrightarrow>
    realises (pull_layers rm repo (abs_path D) i layers) s r"
proof (induction layers arbitrary: s i)
  case Nil
  then show ?case by (auto simp: io_return_def intro: realisesI)
next
  case (Cons layer layers)
  obtain q where q: "realises (pull_and_extract_layer rm repo layer (abs_path D)) s q"
      "and_then (Some q) (spec_served D (map (layer_items rm repo) layers)) = Some r"
    using layer_refines [OF assms Cons.prems(1), of rm repo layer "map (layer_items rm repo) layers" r] Cons.prems(2) by auto
  show ?case
    unfolding pull_layers.simps by (rule realises_then [OF realises_wrap [OF q(1)] q(2)]) (rule Cons.IH)
qed

section \<open>What a pull leaves\<close>

text \<open>
  The process of the configuration, when it does not depend on the files of the image: a user given by
  name is looked up there and is not covered.
\<close>

definition spec_process :: "image_config \<Rightarrow> (error + process_spec) option" where
  "spec_process ic =
     (case process_from_image_config ic of
        (p, None) \<Rightarrow> Some (Inr p)
      | (_, Some e) \<Rightarrow> if ic_user ic = [] then Some (Inl e) else None)"

definition did :: "tree option \<Rightarrow> (tree \<times> bool) option" where
  "did = map_option (\<lambda>t. (t, True))"

definition spec_configured :: "path \<Rightarrow> string \<Rightarrow> error + string \<Rightarrow> tree \<Rightarrow> (tree \<times> bool) option" where
  "spec_configured D img cfg t =
     (case cfg of
        Inl _ \<Rightarrow> Some (t, False)
      | Inr cb \<Rightarrow>
          and_then (did (spec_write (root_dir D img @ [''config.json'']) cb t)) (\<lambda>t.
          case unmarshal_image cb of
            Inl _ \<Rightarrow> Some (t, False)
          | Inr ic \<Rightarrow> Option.bind (spec_process ic) (\<lambda>pr. case pr of
              Inl _ \<Rightarrow> Some (t, False)
            | Inr proc \<Rightarrow>
                and_then (did (spec_mkdirs (rootfs_dir D img @ [''.weft-microvm'']) t)) (\<lambda>t.
                did (spec_write (sentinel_file D img) (marshal_config proc) t)))))"

definition spec_outcome :: "path \<Rightarrow> string \<Rightarrow> remote \<Rightarrow> repo \<Rightarrow> tree \<Rightarrow> (tree \<times> bool) option" where
  "spec_outcome D img rm repo t =
     and_then (did (spec_mkdirs (rootfs_dir D img) t)) (\<lambda>t.
     case fetch_manifest rm repo img of
       Inl _ \<Rightarrow> Some (t, False)
     | Inr (mb, mf) \<Rightarrow>
         and_then (did (spec_write (root_dir D img @ [''manifest.json'']) mb t)) (\<lambda>t.
         and_then (spec_served (rootfs_dir D img) (map (layer_items rm repo) (mf_layers mf)) t) (\<lambda>t.
         spec_configured D img (fetch_all rm repo (mf_config mf)) t)))"

lemma did_mkdirs:
  assumes "ready s" and "plains p" and "did (spec_mkdirs p (view s)) = Some q"
  shows "realises (os_mkdir_all (abs_path p) mode) s q"
proof -
  from assms(3) obtain t where t: "spec_mkdirs p (view s) = Some t" "q = (t, True)" by (auto simp: did_def)
  from mkdirs_refines [OF assms(1,2) t(1), of mode] t(2) show ?thesis by (auto intro: realisesI)
qed

lemma did_write:
  assumes "ready s" and "plains p" and "did (spec_write p b (view s)) = Some q"
  shows "realises (os_write_file (abs_path p) b mode) s q"
proof -
  from assms(3) obtain t where t: "spec_write p b (view s) = Some t" "q = (t, True)" by (auto simp: did_def)
  from write_refines [OF assms(1,2) t(1), of mode] t(2) show ?thesis by (auto intro: realisesI)
qed

lemma realises_lift:
  assumes "ready s" and "\<And>e. r = Inl e \<Longrightarrow> q = (view s, False)" and "\<And>x. r = Inr x \<Longrightarrow> realises (f x) s q"
  shows "realises (io_bind (io_lift r) f) s q"
  using assms by (cases r) (auto simp: io_defs intro!: realisesI [OF refl])

lemma realises_wrap_lift:
  assumes "ready s" and "\<And>e. r = Inl e \<Longrightarrow> q = (view s, False)" and "\<And>x. r = Inr x \<Longrightarrow> realises (f x) s q"
  shows "realises (io_bind (io_wrap w (io_lift r)) f) s q"
  using assms by (cases r) (auto simp: io_defs intro!: realisesI [OF refl])

lemma process_refines:
  assumes "ready s" and "spec_process ic = Some pr" and "\<And>e. pr = Inl e \<Longrightarrow> q = (view s, False)"
    and "\<And>p. pr = Inr p \<Longrightarrow> realises (f p) s q"
  shows "realises (io_bind (process_from_image_config_with_rootfs ic rootfs) f) s q"
proof (cases "process_from_image_config ic")
  case (Pair p e)
  show ?thesis
  proof (cases e)
    case None
    with assms(2,4) Pair process_run [of ic p rootfs s] show ?thesis
      by (auto simp: spec_process_def realises_def io_bind_def)
  next
    case (Some x)
    with assms(2) Pair have "ic_user ic = []" "pr = Inl x" by (auto simp: spec_process_def split: if_splits)
    moreover from this have "process_from_image_config_with_rootfs ic rootfs s = (Inl x, s)"
      using Pair Some by (simp add: process_from_image_config_with_rootfs_def io_run)
    ultimately show ?thesis using assms(1,3) by (auto simp: realises_def io_bind_def)
  qed
qed

lemma configured_refines:
  assumes c: "cache_at env D img" and r: "ready s"
    and spec: "spec_configured D img (fetch_all rm repo cfg) (view s) = Some q"
  shows "realises (write_process rm repo (abs_path (root_dir D img)) (abs_path (rootfs_dir D img)) cfg) s q"
proof -
  note p = cache_plains [OF c]
  have pl: "plains (root_dir D img @ [''config.json''])" "plains (rootfs_dir D img @ [''.weft-microvm''])"
      "plains (sentinel_file D img)"
    using p by (simp_all add: plain_names sentinel_file_def)
  show ?thesis
    unfolding write_process_def Let_def cache_places(4,5,7) [OF c]
  proof (rule realises_wrap_lift [OF r], goal_cases)
    case (1 e)
    with spec show ?case by (simp add: spec_configured_def)
  next
    case (2 cb)
    with spec obtain q1 where q1: "did (spec_write (root_dir D img @ [''config.json'']) cb (view s)) = Some q1"
      and rest: "and_then (Some q1) (\<lambda>t. case unmarshal_image cb of
            Inl _ \<Rightarrow> Some (t, False)
          | Inr ic \<Rightarrow> Option.bind (spec_process ic) (\<lambda>pr. case pr of
              Inl _ \<Rightarrow> Some (t, False)
            | Inr proc \<Rightarrow>
                and_then (did (spec_mkdirs (rootfs_dir D img @ [''.weft-microvm'']) t)) (\<lambda>t.
                did (spec_write (sentinel_file D img) (marshal_config proc) t)))) = Some q"
      by (auto simp: spec_configured_def dest: and_then_SomeD)
    show ?case
    proof (rule realises_then [OF realises_wrap [OF did_write [OF r pl(1) q1]] rest], rule realises_wrap_lift, goal_cases)
      case (3 x s1 ic)
      then obtain pr where pr: "spec_process ic = Some pr" by (cases "spec_process ic") auto
      show ?case
      proof (rule process_refines [OF 3(1) pr], goal_cases)
        case (2 proc)
        with 3 pr obtain q2 where q2: "did (spec_mkdirs (rootfs_dir D img @ [''.weft-microvm'']) (view s1)) = Some q2"
            "and_then (Some q2) (\<lambda>t. did (spec_write (sentinel_file D img) (marshal_config proc) t)) = Some q"
          by (auto dest: and_then_SomeD)
        show ?case
          by (rule realises_then [OF realises_wrap [OF did_mkdirs [OF 3(1) pl(2) q2(1)]] q2(2)])
            (rule realises_wrap, rule did_write [OF _ pl(3)])
      qed (use 3 pr in simp)
    qed auto
  qed
qed

lemma fresh_outcome:
  assumes c: "cache_at env D img" and r: "ready s" and spec: "spec_outcome D img rm repo (view s) = Some q"
  shows "realises (pull_fresh rm repo img (abs_path (root_dir D img)) (abs_path (rootfs_dir D img))) s q"
proof -
  note p = cache_plains [OF c]
  have pl: "plains (root_dir D img @ [''manifest.json''])" "rootfs_dir D img \<noteq> []"
    using p by (simp_all add: plain_names rootfs_dir_def)
  from spec obtain q1 where q1: "did (spec_mkdirs (rootfs_dir D img) (view s)) = Some q1"
    and rest: "and_then (Some q1) (\<lambda>t. case fetch_manifest rm repo img of
       Inl _ \<Rightarrow> Some (t, False)
     | Inr (mb, mf) \<Rightarrow>
         and_then (did (spec_write (root_dir D img @ [''manifest.json'']) mb t)) (\<lambda>t.
         and_then (spec_served (rootfs_dir D img) (map (layer_items rm repo) (mf_layers mf)) t) (\<lambda>t.
         spec_configured D img (fetch_all rm repo (mf_config mf)) t))) = Some q"
    by (auto simp: spec_outcome_def dest: and_then_SomeD)
  show ?thesis
    unfolding pull_fresh_def cache_places(6) [OF c]
  proof (rule realises_then [OF realises_wrap [OF did_mkdirs [OF r p(2) q1]] rest], rule realises_lift, goal_cases)
    case (3 x s1 m)
    obtain mb mf where m: "m = (mb, mf)" by fastforce
    with 3 obtain q2 q3 where q2: "did (spec_write (root_dir D img @ [''manifest.json'']) mb (view s1)) = Some q2"
        "and_then (Some q2) (\<lambda>t.
         and_then (spec_served (rootfs_dir D img) (map (layer_items rm repo) (mf_layers mf)) t) (\<lambda>t.
         spec_configured D img (fetch_all rm repo (mf_config mf)) t)) = Some q"
      by (auto dest: and_then_SomeD)
    show ?case
      unfolding m prod.case
    proof (rule realises_then [OF realises_wrap [OF did_write [OF 3(1) pl(1) q2(1)]] q2(2)], goal_cases)
      case (1 y s2)
      then obtain q3 where q3: "spec_served (rootfs_dir D img) (map (layer_items rm repo) (mf_layers mf)) (view s2) = Some q3"
          "and_then (Some q3) (\<lambda>t. spec_configured D img (fetch_all rm repo (mf_config mf)) t) = Some q"
        by (auto dest: and_then_SomeD)
      show ?case
        by (rule realises_then [OF served_refines [OF p(2) pl(2) 1(1) q3(1)] q3(2)]) (rule configured_refines [OF c])
    qed
  qed auto
qed

lemma pull_verdict:
  assumes "cache_at env D img" and "ready s" and "new_repository (canonical_ref env img) = Inr repo"
    and "not_pulled D img (view s)" and "spec_outcome D img rm repo (view s) = Some (t, ok)"
  shows "\<exists>x s'. pull_image rm env img s = (x, s') \<and> ready s' \<and> view s' = t \<and> (isl x \<longleftrightarrow> \<not> ok)"
  using fresh_outcome [OF assms(1,2,5)] not_pulled_stat [OF assms(1,4)] assms(3)
  by (auto simp: pull_image_at [OF assms(1)] realises_def)

text \<open>
  C3. Pull against any registry: for a valid reference and an image that is not there yet, whatever the
  registry does, the operation ends in the tree the specification gives for what has arrived, and
  reports success exactly when the specification says that everything did.
\<close>

theorem pull_outcome:
  assumes "cache_at env D img" and "ready s" and "new_repository (canonical_ref env img) = Inr repo"
    and "not_pulled D img (view s)" and "spec_outcome D img rm repo (view s) = Some (t, ok)"
  shows "\<exists>x s'. pull_image rm env img s = (x, s') \<and> ready s' \<and> view s' = t \<and> (isl x \<longleftrightarrow> \<not> ok)"
  by (rule pull_verdict [OF assms])

section \<open>Changes that layers make\<close>

text \<open>
  A relation between the tree before and after: when it goes from step to step and every entry that fits
  is such a change, then so is every stream of entries that fit, and every sequence of layers, wherever
  they stop.
\<close>

definition all_fit :: "(tar_header \<Rightarrow> bool) \<Rightarrow> tar_item list \<Rightarrow> bool" where
  "all_fit fit items = list_all (\<lambda>it. case it of TarEntry hdr _ \<Rightarrow> fit hdr | _ \<Rightarrow> True) items"

locale tree_change =
  fixes change :: "tree \<Rightarrow> tree \<Rightarrow> bool"
    and R :: path
    and fit :: "tar_header \<Rightarrow> bool"
  assumes refl: "change t t"
    and trans: "change t u \<Longrightarrow> change u v \<Longrightarrow> change t v"
    and entry: "spec_entry R hdr b t = Some u \<Longrightarrow> fit hdr \<Longrightarrow> change t u"
begin

lemma item:
  assumes "spec_item R hdr b t = Some (t', ok)" and "fit hdr"
  shows "change t t'"
proof -
  have "t' = t \<or> (\<exists>b. spec_entry R hdr b t = Some t')"
    using assms(1) by (cases b) (auto simp: spec_item_def split: if_splits)
  then show ?thesis using refl entry assms(2) by blast
qed

lemma chain:
  assumes "and_then x f = Some (t', ok)" and "\<And>u b. x = Some (u, b) \<Longrightarrow> change t u"
    and "\<And>u. x = Some (u, True) \<Longrightarrow> f u = Some (t', ok) \<Longrightarrow> change u t'"
  shows "change t t'"
  using assms by (auto simp: and_then_def split: option.splits prod.splits if_splits intro: trans)

lemma items: "spec_items R its t = Some (t', ok) \<Longrightarrow> all_fit fit its \<Longrightarrow> change t t'"
proof (induction its arbitrary: t)
  case (Cons it its)
  show ?case
  proof (cases it)
    case (TarEntry hdr b)
    with Cons.prems show ?thesis
      by (auto simp: all_fit_def intro: chain item Cons.IH [unfolded all_fit_def])
  qed (use Cons.prems in \<open>simp add: refl\<close>)
qed (simp add: refl)

lemma served:
  "spec_served R ls t = Some (t', ok) \<Longrightarrow> \<forall>its. Some its \<in> set ls \<longrightarrow> all_fit fit its \<Longrightarrow> change t t'"
proof (induction ls arbitrary: t)
  case (Cons l ls)
  show ?case
  proof (cases l)
    case (Some its)
    with Cons.prems have r: "and_then (spec_items R its t) (spec_served R ls) = Some (t', ok)" "all_fit fit its"
      by auto
    show ?thesis
    proof (rule chain [OF r(1)])
      show "change t u" if "spec_items R its t = Some (u, b)" for u b using that r(2) by (rule items)
      show "change u t'" if "spec_served R ls u = Some (t', ok)" for u
        using Cons.IH [OF that] Cons.prems(2) by simp
    qed
  qed (use Cons.prems in \<open>simp add: refl\<close>)
qed (simp add: refl)

end

section \<open>What the sentinel means\<close>

text \<open>Layers with no entry at or below the directory of the guest configuration.\<close>

definition leaves_alone :: "tar_item list \<Rightarrow> bool" where
  "leaves_alone items = all_fit (\<lambda>hdr. \<not> prefix [''.weft-microvm''] (entry_comps (hName hdr))) items"

definition guest_file :: "path \<Rightarrow> path" where
  "guest_file R = R @ [''.weft-microvm'', ''config.json'']"

text \<open>A change that puts nothing in the place of the guest configuration, nor in its way.\<close>

definition harmless :: "path \<Rightarrow> tree \<Rightarrow> tree \<Rightarrow> bool" where
  "harmless R t t' \<longleftrightarrow>
     (\<forall>q. prefix q (guest_file R) \<longrightarrow> t' q = t q \<or> t' q = None \<or> t' q = Some ADir)
     \<and> (t (guest_file R) = None \<longrightarrow> t' (guest_file R) = None)"

lemma harmless_refl: "harmless R t t"
  by (simp add: harmless_def)

lemma harmless_trans: "harmless R t u \<Longrightarrow> harmless R u v \<Longrightarrow> harmless R t v"
  unfolding harmless_def by metis

lemma harmless_dirs: "\<not> prefix (guest_file R) p \<Longrightarrow> harmless R t (spec_dirs p t)"
  by (auto simp: harmless_def spec_dirs_def)

lemma harmless_less: "(\<And>q. t' q = t q \<or> t' q = None) \<Longrightarrow> harmless R t t'"
  by (auto simp: harmless_def) metis

lemma harmless_upd: "\<not> prefix p (guest_file R) \<Longrightarrow> harmless R t (t(p \<mapsto> x))"
  by (auto simp: harmless_def)

lemma apart:
  assumes "\<not> prefix [''.weft-microvm''] cs" and "cs \<noteq> []"
  shows "\<not> prefix (guest_file R) (R @ cs)" and "\<not> prefix (guest_file R) (butlast (R @ cs))"
    and "\<not> prefix (R @ cs) (guest_file R)"
proof -
  from assms obtain c cs' where cs: "cs = c # cs'" "c \<noteq> ''.weft-microvm''" by (cases cs) auto
  then show "\<not> prefix (guest_file R) (R @ cs)" "\<not> prefix (R @ cs) (guest_file R)"
    by (simp_all add: guest_file_def)
  with assms(2) show "\<not> prefix (guest_file R) (butlast (R @ cs))"
    using prefix_butlastD [of "R @ cs" "guest_file R"] by auto
qed

lemma harmless_entry:
  assumes e: "spec_entry R hdr r t = Some t'" and n: "\<not> prefix [''.weft-microvm''] (entry_comps (hName hdr))"
  shows "harmless R t t'"
proof (cases "entry_comps (hName hdr) = []")
  case True
  with e have "t' = spec_dirs R t" by (auto simp: spec_entry_def split: if_splits)
  then show ?thesis by (auto simp: guest_file_def dest: prefix_length_le intro!: harmless_dirs)
next
  case False
  note a = apart [OF n False, of R]
  have put: "harmless R t ((spec_dirs (butlast (R @ entry_comps (hName hdr))) t)(R @ entry_comps (hName hdr) \<mapsto> x))" for x
    by (rule harmless_trans [OF harmless_dirs [OF a(2)] harmless_upd [OF a(3)]])
  have less: "harmless R t (spec_prune p t)" "harmless R t (spec_empty p t)" for p
    by (rule harmless_less, simp add: spec_prune_def spec_empty_def)+
  show ?thesis
    using e False put less harmless_dirs [OF a(1)] harmless_refl
    by (auto simp: spec_entry_def Let_def spec_file_def spec_link_def split: if_splits typeflag.splits)
qed

interpretation harm: tree_change "harmless R" R "\<lambda>hdr. \<not> prefix [''.weft-microvm''] (entry_comps (hName hdr))" for R
  by unfold_locales (rule harmless_refl, erule (1) harmless_trans, erule (1) harmless_entry)

lemma not_pulled_harmless:
  "not_pulled D img t \<Longrightarrow> harmless (rootfs_dir D img) t t' \<Longrightarrow> not_pulled D img t'"
  unfolding not_pulled_def spec_clear_iff harmless_def guest_file_def sentinel_file_def by metis

lemma did_harmless:
  "did (spec_mkdirs (rootfs_dir D img) t) = Some (u, b) \<Longrightarrow> harmless (rootfs_dir D img) t u"
  "n \<noteq> ''rootfs'' \<Longrightarrow> did (spec_write (root_dir D img @ [n]) c t) = Some (u, b) \<Longrightarrow> harmless (rootfs_dir D img) t u"
proof -
  have "\<not> prefix (guest_file (rootfs_dir D img)) (rootfs_dir D img)"
    by (auto simp: guest_file_def dest: prefix_length_le)
  then show "did (spec_mkdirs (rootfs_dir D img) t) = Some (u, b) \<Longrightarrow> harmless (rootfs_dir D img) t u"
    by (auto simp: did_def spec_mkdirs_def intro: harmless_dirs split: if_splits)
  assume "n \<noteq> ''rootfs''"
  then have "\<not> prefix (root_dir D img @ [n]) (guest_file (rootfs_dir D img))"
    by (simp add: guest_file_def rootfs_dir_def)
  then show "did (spec_write (root_dir D img @ [n]) c t) = Some (u, b) \<Longrightarrow> harmless (rootfs_dir D img) t u"
    by (auto simp: did_def spec_write_def intro: harmless_upd split: if_splits)
qed

lemma configured_harmless:
  assumes "spec_configured D img cfg t = Some (t', False)"
  shows "harmless (rootfs_dir D img) t t'"
proof (cases cfg)
  case (Inl e)
  with assms show ?thesis by (simp add: spec_configured_def harmless_refl)
next
  case (Inr cb)
  show ?thesis
  proof (rule harm.chain [OF assms [unfolded spec_configured_def Inr sum.case] did_harmless(2)], goal_cases)
    case (3 u)
    show ?case
    proof (cases "unmarshal_image cb")
      case (Inl e)
      with 3(2) show ?thesis by (simp add: harmless_refl)
    next
      case (Inr ic)
      with 3(2) obtain pr where "spec_process ic = Some pr" by (auto simp: bind_eq_Some_conv)
      with 3(2) Inr show ?thesis
        by (cases pr) (auto simp: and_then_def did_def harmless_refl split: option.splits)
    qed
  qed auto
qed

lemma outcome_not_pulled:
  assumes spec: "spec_outcome D img rm repo t = Some (t', False)" and np: "not_pulled D img t"
    and layers: "\<And>mb mf l items. fetch_manifest rm repo img = Inr (mb, mf) \<Longrightarrow> l \<in> set (mf_layers mf) \<Longrightarrow>
      layer_items rm repo l = Some items \<Longrightarrow> leaves_alone items"
  shows "not_pulled D img t'"
proof (rule not_pulled_harmless [OF np], rule harm.chain [OF spec [unfolded spec_outcome_def] did_harmless(1)])
  fix u
  assume run: "(case fetch_manifest rm repo img of
       Inl _ \<Rightarrow> Some (u, False)
     | Inr (mb, mf) \<Rightarrow>
         and_then (did (spec_write (root_dir D img @ [''manifest.json'']) mb u)) (\<lambda>t.
         and_then (spec_served (rootfs_dir D img) (map (layer_items rm repo) (mf_layers mf)) t) (\<lambda>t.
         spec_configured D img (fetch_all rm repo (mf_config mf)) t))) = Some (t', False)"
  show "harmless (rootfs_dir D img) u t'"
  proof (cases "fetch_manifest rm repo img")
    case (Inl e)
    with run show ?thesis by (simp add: harmless_refl)
  next
    case (Inr r)
    obtain mb mf where r: "r = (mb, mf)" by fastforce
    have served: "harmless (rootfs_dir D img) v w"
      if "spec_served (rootfs_dir D img) (map (layer_items rm repo) (mf_layers mf)) v = Some (w, b)" for v w b
      by (rule harm.served [OF that]) (use layers Inr r in \<open>auto simp: leaves_alone_def\<close>)
    show ?thesis
      by (rule harm.chain [OF run [unfolded Inr r sum.case prod.case] did_harmless(2)])
        (auto intro: harm.chain served configured_harmless)
  qed
qed

text \<open>
  C18. The configuration for the guest means that the image is complete: for an image the specification
  covers and none of whose layers has an entry at or below \<open>.weft-microvm\<close>, after a pull that succeeds or stops
  anywhere it is there if and only if the pull reported success; after a failure, however much had been
  extracted, the image still counts as not pulled.  (A layer with such an entry can forge it, see
  \<open>layer_forges_sentinel\<close>.)
\<close>

theorem sentinel_means_complete:
  assumes c: "cache_at env D img" and "ready s" and "new_repository (canonical_ref env img) = Inr repo"
    and np: "not_pulled D img (view s)" and "spec_outcome D img rm repo (view s) = Some (t, ok)"
    and "\<And>mb mf l items. fetch_manifest rm repo img = Inr (mb, mf) \<Longrightarrow> l \<in> set (mf_layers mf) \<Longrightarrow>
      layer_items rm repo l = Some items \<Longrightarrow> leaves_alone items"
  shows "\<exists>x s'. pull_image rm env img s = (x, s')
    \<and> ((\<exists>nd. fst (os_stat (abs_path (sentinel_file D img)) s') = Inr nd) \<longleftrightarrow> \<not> isl x)
    \<and> (isl x \<longrightarrow> not_pulled D img (view s'))"
proof -
  obtain x s' where x: "pull_image rm env img s = (x, s')" "view s' = t" "isl x \<longleftrightarrow> \<not> ok"
    using fresh_outcome [OF c assms(2,5)] not_pulled_stat [OF c np] assms(3)
    by (auto simp: pull_image_at [OF c] realises_def)
  show ?thesis
  proof (cases ok)
    case True
    with x have "pull_image rm env img s = (Inr (), s')" by (cases x) auto
    then have "\<exists>nd. os_stat (abs_path (sentinel_file D img)) s' = (Inr nd, s')"
      using pull_success [OF c] write_then_stat by fastforce
    with x True show ?thesis by auto
  next
    case False
    then have "not_pulled D img t"
      using assms(5) by (intro outcome_not_pulled [OF _ np]) (auto intro: assms(6))
    with not_pulled_stat [OF c, of s'] x False show ?thesis by auto
  qed
qed

section \<open>A layer that stops in the middle\<close>

abbreviation cut_layers :: "string list" where
  "cut_layers \<equiv> [''one'', ''cut'']"

lemma cut_ascii: "list_all ascii cut_layers"
  by (simp add: ascii_def code_def)

lemma cut_served:
  "map (layer_items (sample_remote cut_layers) sample_repo) (map (\<lambda>mt. plain_desc mt mt) cut_layers) =
     [Some layer_one, Some layer_cut]"
  by (simp add: layer_items_def sample_remote_def sample_decoders_def plain_desc_def)

text \<open>Up to the layers, which decide the outcome here.\<close>

definition cut_tree :: "string \<Rightarrow> fs \<Rightarrow> (tree \<times> bool) option" where
  "cut_tree mb s =
     and_then (did (spec_mkdirs (rootfs_dir [''d''] ''alpine:3'') (view s))) (\<lambda>t.
     and_then (did (spec_write (root_dir [''d''] ''alpine:3'' @ [''manifest.json'']) mb t)) (\<lambda>t.
     spec_served (rootfs_dir [''d''] ''alpine:3'') [Some layer_one, Some layer_cut] t))"

lemma and_then_assoc: "and_then (and_then x f) g = and_then x (\<lambda>t. and_then (f t) g)"
  by (auto simp: and_then_def split: option.splits prod.splits)

lemma cut_outcome:
  assumes "\<And>mb. case cut_tree mb s of None \<Rightarrow> False | Some (t, ok) \<Rightarrow> \<not> ok \<and> P t"
  shows "\<exists>t. spec_outcome [''d''] ''alpine:3'' (sample_remote cut_layers) sample_repo (view s) = Some (t, False) \<and> P t"
proof -
  obtain t where t: "cut_tree (manifest_text cut_layers) s = Some (t, False)" "P t"
    using assms [of "manifest_text cut_layers"] by (auto split: option.splits)
  have "and_then (cut_tree (manifest_text cut_layers) s) g = Some (t, False)" for g
    by (simp only: t(1)) (simp add: and_then_def)
  then have "spec_outcome [''d''] ''alpine:3'' (sample_remote cut_layers) sample_repo (view s) = Some (t, False)"
    unfolding spec_outcome_def sample_manifest [OF cut_ascii] sum.case prod.case manifest.simps cut_served and_then_assoc
      cut_tree_def .
  with t(2) show ?thesis by blast
qed

lemma cut_deep:
  "\<exists>t. spec_outcome [''d''] ''alpine:3'' (sample_remote cut_layers) sample_repo (view sample_deep) = Some (t, False)
     \<and> t (rootfs_dir [''d''] ''alpine:3'' @ [''bin'', ''app'']) = Some (AFile ''v'')
     \<and> t (rootfs_dir [''d''] ''alpine:3'' @ [''etc'', ''motd'']) = Some (AFile ''hello'')"
  by (rule cut_outcome) code_simp

theorem pull_outcome_witness:
  "\<exists>e s'. pull_image (sample_remote cut_layers) sample_env ''alpine:3'' sample_deep = (Inl e, s')
     \<and> view s' (rootfs_dir [''d''] ''alpine:3'' @ [''bin'', ''app'']) = Some (AFile ''v'')
     \<and> view s' (rootfs_dir [''d''] ''alpine:3'' @ [''etc'', ''motd'']) = Some (AFile ''hello'')"
proof -
  obtain t where t: "spec_outcome [''d''] ''alpine:3'' (sample_remote cut_layers) sample_repo (view sample_deep) = Some (t, False)"
    "t (rootfs_dir [''d''] ''alpine:3'' @ [''bin'', ''app'']) = Some (AFile ''v'')"
    "t (rootfs_dir [''d''] ''alpine:3'' @ [''etc'', ''motd'']) = Some (AFile ''hello'')"
    using cut_deep by blast
  from pull_outcome [OF sample_cache sample_deep_ready sample_reference sample_not_pulled t(1)] t(2,3)
  show ?thesis by (auto simp: isl_def)
qed

theorem sentinel_means_complete_witness:
  "\<exists>x s'. pull_image (sample_remote cut_layers) sample_env ''alpine:3'' sample_deep = (x, s')
     \<and> ((\<exists>nd. fst (os_stat (abs_path (sentinel_file [''d''] ''alpine:3'')) s') = Inr nd) \<longleftrightarrow> \<not> isl x)
     \<and> (isl x \<longrightarrow> not_pulled [''d''] ''alpine:3'' (view s'))"
proof -
  obtain t where t: "spec_outcome [''d''] ''alpine:3'' (sample_remote cut_layers) sample_repo (view sample_deep) = Some (t, False)"
    using cut_deep by blast
  have alone: "leaves_alone layer_one" "leaves_alone layer_cut"
    by code_simp+
  show ?thesis
  proof (rule sentinel_means_complete [OF sample_cache sample_deep_ready sample_reference sample_not_pulled t])
    fix mb mf l items
    assume "fetch_manifest (sample_remote cut_layers) sample_repo ''alpine:3'' = Inr (mb, mf)" "l \<in> set (mf_layers mf)"
      "layer_items (sample_remote cut_layers) sample_repo l = Some items"
    with cut_served alone show "leaves_alone items"
      by (auto simp: sample_manifest [OF cut_ascii])
  qed
qed

section \<open>A layer that brings the guest configuration\<close>

definition forge_remote :: remote where
  "forge_remote = (sample_remote [''forge''])\<lparr>rm_fetch := (\<lambda>repo d. if d_digest d = ''cfg''
     then Inl (Extern ''not found'') else rm_fetch (sample_remote [''forge'']) repo d)\<rparr>"

lemma forge_spec:
  "case and_then (did (spec_mkdirs (rootfs_dir [''d''] ''alpine:3'') (view sample_deep))) (\<lambda>t.
       and_then (did (spec_write (root_dir [''d''] ''alpine:3'' @ [''manifest.json'']) mb t)) (\<lambda>t.
       spec_served (rootfs_dir [''d''] ''alpine:3'') [Some layer_forge] t)) of
     None \<Rightarrow> False | Some (t, ok) \<Rightarrow> ok \<and> t (sentinel_file [''d''] ''alpine:3'') = Some (AFile ''{}'')"
  by code_simp

text \<open>
  The condition on the layers is needed: a layer may bring a file of its own in the place of the guest
  configuration.  When the image's configuration then cannot be had, the pull fails, but the next one
  takes the image for complete and succeeds without doing anything.
\<close>

theorem layer_forges_sentinel:
  "\<exists>e s'. pull_image forge_remote sample_env ''alpine:3'' sample_deep = (Inl e, s')
     \<and> pull_image forge_remote sample_env ''alpine:3'' s' = (Inr (), s')"
proof -
  have a: "list_all ascii [''forge'']" by (simp add: ascii_def code_def)
  have mf: "fetch_manifest forge_remote sample_repo ''alpine:3'' = Inr (manifest_text [''forge''],
      \<lparr>mf_config = plain_desc [] ''cfg'', mf_layers = map (\<lambda>mt. plain_desc mt mt) [''forge'']\<rparr>)"
    using sample_manifest [OF a]
    by (simp add: fetch_manifest_def forge_remote_def sample_remote_def ref_tag_def sample_repo_def resolve_platform_def
        index_types_def plain_desc_def fetch_all_def)
  have ls: "map (layer_items forge_remote sample_repo) (map (\<lambda>mt. plain_desc mt mt) [''forge'']) = [Some layer_forge]"
    by (simp add: layer_items_def forge_remote_def sample_remote_def sample_decoders_def plain_desc_def)
  have cfg: "fetch_all forge_remote sample_repo (plain_desc [] ''cfg'') = Inl (Extern ''not found'')"
    by (simp add: fetch_all_def forge_remote_def plain_desc_def)
  obtain t where t: "and_then (did (spec_mkdirs (rootfs_dir [''d''] ''alpine:3'') (view sample_deep))) (\<lambda>t.
       and_then (did (spec_write (root_dir [''d''] ''alpine:3'' @ [''manifest.json'']) (manifest_text [''forge'']) t)) (\<lambda>t.
       spec_served (rootfs_dir [''d''] ''alpine:3'') [Some layer_forge] t)) = Some (t, True)"
    "t (sentinel_file [''d''] ''alpine:3'') = Some (AFile ''{}'')"
    using forge_spec [of "manifest_text [''forge'']"] by (auto split: option.splits)
  have "and_then (and_then (did (spec_mkdirs (rootfs_dir [''d''] ''alpine:3'') (view sample_deep))) (\<lambda>t.
       and_then (did (spec_write (root_dir [''d''] ''alpine:3'' @ [''manifest.json'']) (manifest_text [''forge'']) t)) (\<lambda>t.
       spec_served (rootfs_dir [''d''] ''alpine:3'') [Some layer_forge] t)))
       (spec_configured [''d''] ''alpine:3'' (Inl (Extern ''not found''))) = Some (t, False)"
    by (simp only: t(1)) (simp add: and_then_def spec_configured_def)
  then have "spec_outcome [''d''] ''alpine:3'' forge_remote sample_repo (view sample_deep) = Some (t, False)"
    unfolding spec_outcome_def mf sum.case prod.case manifest.simps ls cfg and_then_assoc .
  from pull_verdict [OF sample_cache sample_deep_ready sample_reference sample_not_pulled this]
  obtain e s' where s': "pull_image forge_remote sample_env ''alpine:3'' sample_deep = (Inl e, s')" "ready s'" "view s' = t"
    by (auto simp: isl_def)
  have "present s' (abs_path (sentinel_file [''d''] ''alpine:3''))"
    by (rule ready_present [OF s'(2) cache_rootfs(3,4) [OF sample_cache], of "AFile ''{}''"]) (simp_all add: s'(3) t(2))
  then obtain nd where "os_stat (abs_path (sentinel_file [''d''] ''alpine:3'')) s' = (Inr nd, s')"
    using stat_same [of _ s'] by (metis present_def prod.collapse sum.collapse(2))
  then have "pull_image forge_remote sample_env ''alpine:3'' s' = (Inr (), s')"
    by (simp add: pull_image_at [OF sample_cache] sample_reference)
  with s'(1) show ?thesis by blast
qed

end
