(* ===== verification/Run_Again.thy ===== *)
theory Run_Again
  imports Pull_Outcome
begin

text \<open>
  Operations after one another on the same cache: pulling one image leaves the others and the boot
  artefacts alone, a run made a second time does the same again without the registry, and a run after
  a pull that stopped half-way boots what that pull had extracted.
\<close>

section \<open>What a pull can change\<close>

text \<open>
  Only what is below the directory of the image, and the directories on the way to it; a root file
  system that is there stays a directory.
\<close>

definition image_change :: "path \<Rightarrow> string \<Rightarrow> tree \<Rightarrow> tree \<Rightarrow> bool" where
  "image_change D img t t' \<longleftrightarrow>
     (\<forall>q. \<not> strict_prefix (root_dir D img) q \<longrightarrow>
        t' q = t q \<or> prefix q (root_dir D img) \<and> t q = None \<and> t' q = Some ADir)
     \<and> (t (rootfs_dir D img) = Some ADir \<longrightarrow> t' (rootfs_dir D img) = Some ADir)"

lemma change_refl: "image_change D img t t"
  by (simp add: image_change_def)

lemma change_trans: "image_change D img t u \<Longrightarrow> image_change D img u v \<Longrightarrow> image_change D img t v"
  unfolding image_change_def by metis

lemma root_of_rootfs: "strict_prefix (root_dir D img) (rootfs_dir D img @ p)"
  by (simp add: rootfs_dir_def strict_prefix_def)

lemma change_dirs:
  assumes "prefix (rootfs_dir D img) p \<or> prefix p (rootfs_dir D img)"
  shows "image_change D img t (spec_dirs p t)"
proof -
  have "prefix q (root_dir D img)" if "prefix q p" "\<not> strict_prefix (root_dir D img) q" for q
  proof -
    have "prefix q (rootfs_dir D img) \<or> prefix (rootfs_dir D img) q"
      using assms that(1) by (meson prefix_order.trans prefix_same_cases)
    moreover have "prefix (root_dir D img) (rootfs_dir D img)" by (simp add: rootfs_dir_def)
    ultimately have "prefix q (root_dir D img) \<or> prefix (root_dir D img) q"
      by (meson prefix_order.trans prefix_same_cases)
    with that(2) show ?thesis by (auto simp: strict_prefix_def)
  qed
  then show ?thesis by (auto simp: image_change_def spec_dirs_def)
qed

lemma change_less:
  assumes "\<And>q. \<not> strict_prefix (rootfs_dir D img) q \<Longrightarrow> t' q = t q"
  shows "image_change D img t t'"
proof -
  have "\<not> strict_prefix (rootfs_dir D img) q" if "\<not> strict_prefix (root_dir D img) q" for q
    using that by (auto simp: rootfs_dir_def strict_prefix_def dest: append_prefixD)
  then show ?thesis using assms by (auto simp: image_change_def)
qed

lemma change_upd:
  assumes "strict_prefix (root_dir D img) p" and "p \<noteq> rootfs_dir D img"
  shows "image_change D img t (t(p \<mapsto> x))"
  using assms by (auto simp: image_change_def)

lemma change_entry:
  assumes "spec_entry (rootfs_dir D img) hdr b t = Some t'"
  shows "image_change D img t t'"
proof (cases "entry_comps (hName hdr) = []")
  case True
  with assms have "t' = spec_dirs (rootfs_dir D img) t" by (auto simp: spec_entry_def split: if_splits)
  then show ?thesis by (simp add: change_dirs)
next
  case False
  let ?F = "rootfs_dir D img" and ?cs = "entry_comps (hName hdr)"
  have par: "prefix ?F (butlast (?F @ ?cs))" using False by (simp add: butlast_append)
  have "strict_prefix ?F q" if "strict_prefix (butlast (?F @ ?cs)) q" for q
    using par that by (rule prefix_order.le_less_trans)
  then have empty: "image_change D img t (spec_empty (butlast (?F @ ?cs)) t)"
    by (intro change_less) (auto simp: spec_empty_def)
  have "strict_prefix ?F q" if "prefix (butlast (?F @ ?cs) @ [x]) q" for x q
    using par that by (meson prefix_order.le_less_trans prefix_order.less_le_trans prefix_snocD strict_prefix_snoc)
  then have prune: "image_change D img t (spec_prune (butlast (?F @ ?cs) @ [x]) t)" for x
    by (intro change_less) (auto simp: spec_prune_def)
  have put: "image_change D img t ((spec_dirs (butlast (?F @ ?cs)) t)(?F @ ?cs \<mapsto> x))" for x
    by (rule change_trans [OF change_dirs change_upd]) (use par False root_of_rootfs in auto)
  show ?thesis
    using assms False empty prune put change_dirs [of D img "?F @ ?cs" t] change_refl
    by (auto simp: spec_entry_def Let_def spec_file_def spec_link_def split: if_splits typeflag.splits)
qed

interpretation image: tree_change "image_change D img" "rootfs_dir D img" "\<lambda>_. True" for D img
  by unfold_locales (rule change_refl, erule (1) change_trans, erule change_entry)

lemma did_change:
  "did (spec_mkdirs p t) = Some (u, b) \<Longrightarrow> prefix (rootfs_dir D img) p \<or> prefix p (rootfs_dir D img) \<Longrightarrow> image_change D img t u"
  "did (spec_write p c t) = Some (u, b) \<Longrightarrow> strict_prefix (root_dir D img) p \<Longrightarrow> p \<noteq> rootfs_dir D img \<Longrightarrow> image_change D img t u"
  by (auto simp: did_def spec_mkdirs_def spec_write_def intro: change_dirs change_upd split: if_splits)

lemma configured_change:
  assumes "spec_configured D img cfg t = Some (t', ok)"
  shows "image_change D img t t'"
proof (cases cfg)
  case (Inl e)
  with assms show ?thesis by (simp add: spec_configured_def change_refl)
next
  case (Inr cb)
  have places: "strict_prefix (root_dir D img) (sentinel_file D img)" "sentinel_file D img \<noteq> rootfs_dir D img"
    by (simp_all add: sentinel_file_def root_of_rootfs)
  have last: "image_change D img u t'"
    if "and_then (did (spec_mkdirs (rootfs_dir D img @ [''.weft-microvm'']) u)) (\<lambda>t.
        did (spec_write (sentinel_file D img) out t)) = Some (t', ok)" for out u
    by (rule image.chain [OF that]) (auto intro: did_change did_change(2) [OF _ places])
  have first: "image_change D img t u" if "did (spec_write (root_dir D img @ [''config.json'']) cb t) = Some (u, b)" for u b
    by (rule did_change(2) [OF that]) (simp_all add: rootfs_dir_def strict_prefix_def)
  show ?thesis
  proof (rule image.chain [OF assms [unfolded spec_configured_def Inr sum.case]])
    fix u
    assume "(case unmarshal_image cb of
          Inl _ \<Rightarrow> Some (u, False)
        | Inr ic \<Rightarrow> Option.bind (spec_process ic) (\<lambda>pr. case pr of
            Inl _ \<Rightarrow> Some (u, False)
          | Inr proc \<Rightarrow>
              and_then (did (spec_mkdirs (rootfs_dir D img @ [''.weft-microvm'']) u)) (\<lambda>t.
              did (spec_write (sentinel_file D img) (marshal_config proc) t)))) = Some (t', ok)"
    then consider "u = t'"
      | ic proc where "and_then (did (spec_mkdirs (rootfs_dir D img @ [''.weft-microvm'']) u)) (\<lambda>t.
          did (spec_write (sentinel_file D img) (marshal_config proc) t)) = Some (t', ok)"
      by (cases "unmarshal_image cb"; cases "spec_process (projr (unmarshal_image cb))";
          cases "the (spec_process (projr (unmarshal_image cb)))") auto
    then show "image_change D img u t'" by cases (auto simp: change_refl intro: last)
  qed (erule first)
qed

lemma outcome_change:
  assumes "spec_outcome D img rm repo t = Some (t', ok)"
  shows "image_change D img t t'" and "t' (rootfs_dir D img) = Some ADir"
proof -
  let ?F = "rootfs_dir D img"
  obtain u where u: "spec_mkdirs ?F t = Some u"
      "(case fetch_manifest rm repo img of
         Inl _ \<Rightarrow> Some (u, False)
       | Inr (mb, mf) \<Rightarrow>
           and_then (did (spec_write (root_dir D img @ [''manifest.json'']) mb u)) (\<lambda>t.
           and_then (spec_served ?F (map (layer_items rm repo) (mf_layers mf)) t) (\<lambda>t.
           spec_configured D img (fetch_all rm repo (mf_config mf)) t))) = Some (t', ok)"
    using assms by (auto simp: spec_outcome_def did_def and_then_def split: option.splits)
  have "image_change D img t u" "u ?F = Some ADir"
    using u(1) change_dirs [of D img ?F t] by (auto simp: spec_mkdirs_def spec_clear_iff spec_dirs_def split: if_splits)
  moreover have "image_change D img u t'"
  proof (cases "fetch_manifest rm repo img")
    case (Inl e)
    with u(2) show ?thesis by (simp add: change_refl)
  next
    case (Inr r)
    obtain mb mf where r: "r = (mb, mf)" by fastforce
    have served: "image_change D img v v'"
      if "spec_served ?F (map (layer_items rm repo) (mf_layers mf)) v = Some (v', b)" for v v' b
      by (rule image.served [OF that]) (simp add: all_fit_def list_all_iff split: tar_item.split)
    have manifest: "strict_prefix (root_dir D img) (root_dir D img @ [''manifest.json''])"
        "root_dir D img @ [''manifest.json''] \<noteq> ?F"
      by (simp_all add: rootfs_dir_def strict_prefix_def)
    show ?thesis
      by (rule image.chain [OF u(2) [unfolded Inr r sum.case prod.case]])
        (auto intro: did_change(2) [OF _ manifest] image.chain served configured_change)
  qed
  ultimately show "image_change D img t t'" and "t' ?F = Some ADir"
    using change_trans by (blast, simp add: image_change_def)
qed

section \<open>One image beside another\<close>

text \<open>
  C10. Pulling an image touches nothing but its own directory, for images the specification covers (no
  hard links, no way through symbolic links, nothing in the place of a directory, whiteouts of ordinary
  names, a numeric user; layers that break these rules can reach outside): however the registry
  answers and wherever the pull stops, everything that was there outside the directory of the image is
  as it was, other images, those half pulled, and the boot artefacts included, and under the directory
  of another image nothing has been added either.
\<close>

theorem images_isolated:
  assumes "cache_at env D b" and "refsafe a \<noteq> refsafe b"
    and "ready s" and "new_repository (canonical_ref env b) = Inr repo" and "not_pulled D b (view s)"
    and "spec_outcome D b rm repo (view s) = Some (t, ok)"
  shows "\<exists>x s'. pull_image rm env b s = (x, s')
    \<and> (\<forall>q. \<not> strict_prefix (root_dir D b) q \<longrightarrow> view s q \<noteq> None \<longrightarrow> view s' q = view s q)
    \<and> (\<forall>q. prefix (root_dir D a) q \<longrightarrow> view s' q = view s q)"
proof -
  obtain x s' where x: "pull_image rm env b s = (x, s')" "view s' = t"
    using fresh_outcome [OF assms(1,3,6)] not_pulled_stat [OF assms(1,5)] assms(4)
    by (auto simp: pull_image_at [OF assms(1)] realises_def)
  have apart: "\<not> prefix (root_dir D b) q" "\<not> prefix q (root_dir D b)" if "prefix (root_dir D a) q" for q
    using that assms(2) by (auto simp: root_dir_def prefix_def append_eq_append_conv2 append_eq_Cons_conv)
  show ?thesis
    using outcome_change(1) [OF assms(6)] apart x
    by (auto simp: image_change_def strict_prefix_def simp del: view_None)
qed

section \<open>The same run again\<close>

text \<open>
  C24. A run of an image that is there can be repeated: the second run needs no registry, makes the same
  two calls with the same request, boot files included, and leaves the same tree, whether or not the
  command is overridden.
\<close>

theorem run_repeats:
  assumes c: "cache_at env D (a_image a)" and "env ''WEFT_KERNEL'' = []" and r: "ready (w_fs w)"
    and "view (w_fs w) (kernel_file D) = Some (AFile k)"
    and f: "view (w_fs w) (sentinel_file D (a_image a)) = Some (AFile (marshal_config p))" and p: "config_ok p"
    and ok: "a_host_uuid a = []" "config_ok (with_command (a_cmd a) p)" "mounts_ok a" "accepts sv (a_weft_socket a)"
  shows "\<exists>w1 w2 calls. run_micro_vm sv rm env a w = (Inr (), w1) \<and> run_micro_vm sv rm' env a w1 = (Inr (), w2)
    \<and> w_log w1 = w_log w @ calls \<and> w_log w2 = w_log w1 @ calls \<and> length calls = 2
    \<and> view (w_fs w2) = view (w_fs w1)"
proof -
  let ?F = "rootfs_dir D (a_image a)" and ?R = "rootfs_path env (refsafe (a_image a))"
  have e: "env ''XDG_DATA_HOME'' = abs_path D" "plains D" using c by (simp_all add: cache_at_def)
  note R = cache_rootfs(1) [OF c]
  have ensure: "ensure_image rm env ?R a s = apply_run_overrides (abs_path ?F) a s"
    if "ready s" "view s (sentinel_file D (a_image a)) = Some (AFile b)" for rm s b
    using ensure_present [OF sentinel_present [OF c that(1)]] that(2) R by simp
  obtain s1 where s1: "apply_run_overrides (abs_path ?F) a (w_fs w) = (Inr (), s1)" "ready s1"
      "view s1 = (view (w_fs w))(sentinel_file D (a_image a) \<mapsto> AFile (marshal_config (with_command (a_cmd a) p)))"
    using override_view [OF c r p f] by blast
  then have f1: "view s1 (sentinel_file D (a_image a)) = Some (AFile (marshal_config (with_command (a_cmd a) p)))"
    by simp
  obtain s2 where s2: "apply_run_overrides (abs_path ?F) a s1 = (Inr (), s2)" "same_names s1 s2"
      "view s2 = (view s1)(sentinel_file D (a_image a) \<mapsto> AFile (marshal_config (with_command (a_cmd a) (with_command (a_cmd a) p))))"
    using override_view [OF c s1(2) ok(2) f1] by blast
  have "view s1 (kernel_file D) = Some (AFile k)"
    using assms(4) by (simp add: s1(3) kernel_file_def sentinel_file_def rootfs_dir_def root_dir_def)
  then obtain art where art: "locate_boot_artefacts env s1 = (Inr art, s1)"
    using locate_kernel [of env D, OF e assms(2) s1(2)] by blast
  note art2 = locate_same [OF s2(2) art]
  let ?calls = "[Register (vm_request a ?R art), Start (start_of a)]"
  let ?w1 = "w\<lparr>w_fs := s1, w_log := w_log w @ ?calls\<rparr>"
  have "run_micro_vm sv rm env a w = (Inr (), ?w1)"
    by (rule run_from [OF _ art ok(3,4)]) (simp add: ok(1) ensure [OF r f] s1(1))
  moreover have "run_micro_vm sv rm' env a ?w1 = (Inr (), ?w1\<lparr>w_fs := s2, w_log := w_log ?w1 @ ?calls\<rparr>)"
    by (rule run_from [OF _ art2 ok(3,4)]) (simp add: ok(1) ensure [OF s1(2) f1] s2(1))
  moreover have "view s2 = view s1"
    using f1 by (simp add: s2(3) with_command_def fun_upd_idem)
  ultimately show ?thesis by simp
qed

section \<open>After a pull that stopped half-way\<close>

text \<open>
  C23. A pull that failed is not tried again: when the image is not there, its reference parses, and its
  pull stops, at whatever point the registry or a layer makes it stop, and all of it is covered by the specification, the run
  fails without a call; but the same run made again, one that does not override the command, succeeds,
  with any registry, and boots a machine on exactly what the failed pull had extracted.
\<close>

theorem failed_pull_boots_rest:
  assumes c: "cache_at env D (a_image a)" and "env ''WEFT_KERNEL'' = []" and "env ''WEFT_NO_AUTO_PULL'' \<noteq> ''1''"
    and "ready (w_fs w)" and "view (w_fs w) (kernel_file D) = Some (AFile k)"
    and "not_pulled D (a_image a) (view (w_fs w))" and "view (w_fs w) (rootfs_dir D (a_image a)) = None"
    and "new_repository (canonical_ref env (a_image a)) = Inr repo"
    and "spec_outcome D (a_image a) rm repo (view (w_fs w)) = Some (t, False)"
    and "a_host_uuid a = []" and "a_cmd a = []" and "mounts_ok a" and "accepts sv (a_weft_socket a)"
  shows "\<exists>e w1 w2 art. run_micro_vm sv rm env a w = (Inl (Wrapf ''auto-pull %s: %w'' [a_image a] e), w1)
    \<and> w_log w1 = w_log w
    \<and> run_micro_vm sv rm' env a w1 = (Inr (), w2)
    \<and> w_log w2 = w_log w @ [Register (vm_request a (abs_path (rootfs_dir D (a_image a))) art), Start (start_of a)]
    \<and> view (w_fs w2) = t"
proof -
  obtain e s1 where s1: "pull_image rm env (a_image a) (w_fs w) = (Inl e, s1)" "ready s1" "view s1 = t"
    using fresh_outcome [OF c assms(4,9)] not_pulled_stat [OF c assms(6)] assms(8)
    by (auto simp: pull_image_at [OF c] realises_def isl_def)
  have "\<not> strict_prefix (root_dir D (a_image a)) (kernel_file D)"
    by (simp add: root_dir_def kernel_file_def strict_prefix_def)
  then have "t (kernel_file D) = Some (AFile k)"
    using outcome_change(1) [OF assms(9)] assms(5) by (auto simp: image_change_def simp del: view_None)
  then have left: "view s1 (kernel_file D) = Some (AFile k)" "view s1 (rootfs_dir D (a_image a)) = Some ADir"
    using outcome_change(2) [OF assms(9)] s1(3) by simp_all
  show ?thesis
    using failed_run [OF c assms(3,10,4,6,7) s1(1), of sv]
      boots_what_is_left [OF c assms(2,10-13) s1(2) left, of rm' w] s1(3) by auto
qed

section \<open>Concrete operations\<close>

text \<open>A kernel and another image, from which a file has been extracted.\<close>

definition sample_neighbour :: fs where
  "sample_neighbour = sample_kernel\<lparr>fs_nodes := fs_nodes sample_kernel @
     [([''d'', ''weft-microvm'', ''images''], Dir 0x1ED), (root_dir [''d''] ''busybox'', Dir 0x1ED),
      (rootfs_dir [''d''] ''busybox'', Dir 0x1ED), (rootfs_dir [''d''] ''busybox'' @ [''init''], File 1)], fs_next := 2\<rparr>"

lemma sample_neighbour_facts:
  "ready sample_neighbour" "not_pulled [''d''] ''alpine:3'' (view sample_neighbour)"
  "view sample_neighbour (rootfs_dir [''d''] ''alpine:3'') = None"
  "view sample_neighbour (kernel_file [''d'']) = Some (AFile ''x'')"
  by (rule ready_check_ready, code_simp, code_simp, code_simp, code_simp)

lemma cut_neighbour:
  "\<exists>t. spec_outcome [''d''] ''alpine:3'' (sample_remote cut_layers) sample_repo (view sample_neighbour) = Some (t, False)
     \<and> t (rootfs_dir [''d''] ''alpine:3'' @ [''etc'', ''motd'']) = Some (AFile ''hello'')"
  by (rule cut_outcome) code_simp

theorem images_isolated_witness:
  "\<exists>x s'. pull_image (sample_remote cut_layers) sample_env ''alpine:3'' sample_neighbour = (x, s')
     \<and> view s' (rootfs_dir [''d''] ''busybox'' @ [''init'']) = Some (AFile ''x'')
     \<and> view s' (rootfs_dir [''d''] ''busybox'' @ [''etc'']) = None"
proof -
  obtain t where t: "spec_outcome [''d''] ''alpine:3'' (sample_remote cut_layers) sample_repo (view sample_neighbour) = Some (t, False)"
    using cut_neighbour by blast
  have "refsafe ''busybox'' \<noteq> refsafe ''alpine:3''"
    and v: "view sample_neighbour (rootfs_dir [''d''] ''busybox'' @ [''init'']) = Some (AFile ''x'')"
      "view sample_neighbour (rootfs_dir [''d''] ''busybox'' @ [''etc'']) = None"
    by code_simp+
  from images_isolated [OF sample_cache this(1) sample_neighbour_facts(1) sample_reference sample_neighbour_facts(2) t] v
  show ?thesis by (auto simp: rootfs_dir_def simp del: view_None)
qed

theorem run_repeats_witness:
  "\<exists>w1 w2 calls. run_micro_vm sample_server broken_remote sample_env (sample_args\<lparr>a_cmd := [''sh'']\<rparr>)
       \<lparr>w_fs = sample_image, w_log = []\<rparr> = (Inr (), w1)
     \<and> run_micro_vm sample_server broken_remote sample_env (sample_args\<lparr>a_cmd := [''sh'']\<rparr>) w1 = (Inr (), w2)
     \<and> w_log w2 = calls @ calls \<and> length calls = 2"
proof -
  let ?a = "sample_args\<lparr>a_cmd := [''sh'']\<rparr>" and ?w = "\<lparr>w_fs = sample_image, w_log = []\<rparr>"
  have a: "a_image ?a = ''alpine:3''" "a_host_uuid ?a = []" "a_cmd ?a = [''sh'']" "mounts_ok ?a"
    using sample_run_cache by (simp_all add: mounts_ok_def sample_args_def plain_args_def)
  have "config_ok (with_command [''sh''] sample_process)"
    using sample_process_ok by (simp add: config_ok_def with_command_def utf8_def utf8_fix_ascii code_def)
  then show ?thesis
    using run_repeats [of sample_env "[''d'']" ?a ?w, OF _ sample_run_cache(2)] a sample_run_cache(1,6)
      sample_ready(2) sample_kernels(2,3) sample_process_ok sample_accepts
    by fastforce
qed

theorem failed_pull_boots_rest_witness:
  "\<exists>e w1 w2. run_micro_vm sample_server (sample_remote cut_layers) sample_env sample_args
       \<lparr>w_fs = sample_neighbour, w_log = []\<rparr> = (Inl e, w1)
     \<and> run_micro_vm sample_server broken_remote sample_env sample_args w1 = (Inr (), w2)
     \<and> view (w_fs w2) (rootfs_dir [''d''] ''alpine:3'' @ [''etc'', ''motd'']) = Some (AFile ''hello'')"
proof -
  obtain t where t: "spec_outcome [''d''] ''alpine:3'' (sample_remote cut_layers) sample_repo (view sample_neighbour) = Some (t, False)"
      "t (rootfs_dir [''d''] ''alpine:3'' @ [''etc'', ''motd'']) = Some (AFile ''hello'')"
    using cut_neighbour by blast
  show ?thesis
    using failed_pull_boots_rest [of sample_env "[''d'']" sample_args "\<lparr>w_fs = sample_neighbour, w_log = []\<rparr>",
      OF sample_run_cache(1-3)] sample_run_cache(4-7) sample_neighbour_facts sample_reference t sample_accepts
    by fastforce
qed

end
