(* ===== verification/Pod_Json.thy ===== *)
theory Pod_Json
  imports Pod
begin

text \<open>
  The file that carries the pod specification to the guest: a second interpretation of the locale
  \<open>codec\<close>.  What the guest decodes is the specification with the keys of every environment sorted,
  which is the same environment.
\<close>

section \<open>Reading it back\<close>

definition pod_container_of :: "gval \<Rightarrow> pod_container" where
  "pod_container_of v =
     \<lparr>pc_id = vstr (vfield ''id'' v), pc_rootfs_tag = vstr (vfield ''rootfs_tag'' v),
      pc_command = vstrs (vfield ''command'' v), pc_env = vmap (vfield ''env'' v),
      pc_workdir = vstr (vfield ''workdir'' v), pc_user = vstr (vfield ''user'' v),
      pc_restart = vstr (vfield ''restart'' v)\<rparr>"

definition pod_share_of :: "gval \<Rightarrow> pod_share" where
  "pod_share_of v = \<lparr>ps_tag = vstr (vfield ''tag'' v), ps_mount_point = vstr (vfield ''mount_point'' v)\<rparr>"

definition pod_spec_of :: "gval \<Rightarrow> pod_spec" where
  "pod_spec_of v =
     \<lparr>sp_pod_id = vstr (vfield ''pod_id'' v), sp_containers = map pod_container_of (vlist (vfield ''containers'' v)),
      sp_shares = map pod_share_of (vlist (vfield ''shares'' v)), sp_network = network_of (vfield ''network'' v)\<rparr>"

definition unmarshal_pod_spec :: "string \<Rightarrow> pod_spec option" where
  "unmarshal_pod_spec b = map_option pod_spec_of (unmarshal pod_spec_shape b)"

section \<open>Specifications that survive\<close>

definition env_ok :: "(string \<times> string) list \<Rightarrow> bool" where
  "env_ok m = (distinct (map fst m) \<and> list_all (\<lambda>(k, x). utf8 k \<and> utf8 x) m)"

definition ctr_ok :: "pod_container \<Rightarrow> bool" where
  "ctr_ok c =
     (utf8 (pc_id c) \<and> utf8 (pc_rootfs_tag c) \<and> list_all utf8 (pc_command c) \<and> env_ok (pc_env c)
      \<and> utf8 (pc_workdir c) \<and> utf8 (pc_user c) \<and> utf8 (pc_restart c))"

definition pod_ok :: "pod_spec \<Rightarrow> bool" where
  "pod_ok sp =
     (utf8 (sp_pod_id sp) \<and> list_all ctr_ok (sp_containers sp)
      \<and> list_all (\<lambda>sh. utf8 (ps_tag sh) \<and> utf8 (ps_mount_point sh)) (sp_shares sp)
      \<and> (case sp_network sp of
           None \<Rightarrow> True
         | Some n \<Rightarrow> utf8 (nw_interface n) \<and> utf8 (nw_address n) \<and> utf8 (nw_gateway n) \<and> list_all utf8 (nw_dns n)
             \<and> utf8 (nw_hostname n)))"

text \<open>The same specification with sorted environments.\<close>

definition sorted_ctr :: "pod_container \<Rightarrow> pod_container" where
  "sorted_ctr c = c\<lparr>pc_env := sort_key fst (pc_env c)\<rparr>"

definition sorted_pod :: "pod_spec \<Rightarrow> pod_spec" where
  "sorted_pod sp = sp\<lparr>sp_containers := map sorted_ctr (sp_containers sp)\<rparr>"

definition pod_fits :: "pod_spec \<Rightarrow> bool" where
  "pod_fits sp = (pod_ok sp \<and> sorted_pod sp = sp)"

lemma sort_map_val:
  "sort_key fst (map (\<lambda>(k, x). (k, f x)) m) = map (\<lambda>(k, x). (k, f x)) (sort_key fst m)"
proof -
  have ins: "insort_key fst (case y of (k, x) \<Rightarrow> (k, f x)) (map (\<lambda>(k, x). (k, f x)) ys) =
      map (\<lambda>(k, x). (k, f x)) (insort_key fst y ys)" for y ys
    by (induction ys) (auto split: prod.splits)
  show ?thesis by (induction m) (simp_all flip: ins)
qed

lemma sort_key_Nil [simp]: "sort_key f xs = [] \<longleftrightarrow> xs = []"
  by (metis length_sort length_0_conv)

lemma sort_key_twice: "sort_key f (sort_key f xs) = sort_key f xs"
  by (simp add: sort_key_id_if_sorted)

lemma sorted_ctr_twice [simp]: "sorted_ctr (sorted_ctr c) = sorted_ctr c"
  by (simp add: sorted_ctr_def sort_key_twice)

lemma sorted_pod_fits:
  assumes "pod_ok sp"
  shows "pod_fits (sorted_pod sp)"
proof -
  have "env_ok (sort_key fst m)" if "env_ok m" for m
  proof -
    have "distinct (map fst (sort_key fst m))"
      using that by (simp add: env_ok_def distinct_map)
    with that show ?thesis by (simp add: env_ok_def list_all_iff)
  qed
  then have "ctr_ok (sorted_ctr c)" if "ctr_ok c" for c
    using that by (simp add: ctr_ok_def sorted_ctr_def)
  with assms show ?thesis
    by (simp add: pod_fits_def pod_ok_def sorted_pod_def list_all_iff comp_def)
qed

lemma enc_env_sorted: "enc str_map (map_val (sort_key fst m)) = enc str_map (map_val m)"
  by (simp add: map_val_def str_map_def sort_map_val sort_key_twice)

lemma map_val_empty [simp]: "is_empty (map_val m) \<longleftrightarrow> m = []"
  by (simp add: map_val_def)

lemma enc_sorted_ctr:
  "enc pod_container_shape (pod_container_val (sorted_ctr c)) = enc pod_container_shape (pod_container_val c)"
  using enc_env_sorted [of "pc_env c"]
  by (simp add: pod_container_shape_def pod_container_val_def sorted_ctr_def vfield_def del: enc.simps(1-9))

lemma marshal_sorted: "marshal_pod_spec (sorted_pod sp) = marshal_pod_spec sp"
  by (simp add: marshal_pod_spec_def marshal_def pod_spec_shape_def pod_spec_val_def sorted_pod_def vfield_def
      list_val_def comp_def enc_sorted_ctr del: enc.simps(1-6,8-9))

section \<open>The format\<close>

lemma vstrs_list [simp]: "vstrs VNil = []" "vlist VNil = []" "vlist (list_val f xs) = map f xs"
  by (simp_all add: vstrs_def list_val_def)

lemma vmap_val [simp]: "vmap (map_val m) = m"
  by (simp add: vmap_def map_val_def comp_def case_prod_unfold)

lemma network_of_val [simp]: "network_of (network_val n) = n"
  by (cases n) (simp_all add: network_of_def network_val_def vfield_def)

lemma container_of_val [simp]: "pod_container_of (pod_container_val c) = c"
  by (simp add: pod_container_of_def pod_container_val_def vfield_def)

lemma share_of_val [simp]: "pod_share_of (pod_share_val sh) = sh"
  by (simp add: pod_share_of_def pod_share_val_def vfield_def)

lemma pod_of_val: "pod_spec_of (pod_spec_val sp) = sp"
  by (simp add: pod_spec_of_def pod_spec_val_def vfield_def comp_def)

lemma pod_shape_ok: "shape_ok pod_spec_shape"
  by code_simp

lemma wt_map: "wt str_map (map_val m) \<longleftrightarrow> sorted (map fst m) \<and> env_ok m"
  by (auto simp: str_map_def map_val_def env_ok_def utf8_def list_all_iff comp_def case_prod_unfold)

lemma wt_list: "wt (SList sh) (list_val f xs) \<longleftrightarrow> list_all (\<lambda>x. wt sh (f x)) xs"
  by (simp add: list_val_def list_all_iff)

lemma empty_lists [simp]: "is_empty (list_val f xs) \<longleftrightarrow> xs = []" "is_empty (strs_val ys) \<longleftrightarrow> ys = []"
  by (simp_all add: list_val_def strs_val_def)

lemma wt_strings: "list_all (wt SStr) (map VStr xs) \<longleftrightarrow> list_all utf8 xs"
  by (simp add: list_all_iff utf8_def)

lemma wt_container:
  assumes "ctr_ok c" and "sorted (map fst (pc_env c))"
  shows "wt pod_container_shape (pod_container_val c)"
  using assms wt_map [of "pc_env c"]
  by (simp add: pod_container_shape_def pod_container_val_def vfield_def ctr_ok_def wt_strs utf8_def resources_shape_def
      str_list_def str_map_def map_val_def strs_val_def wt_strings)

lemma wt_share:
  "utf8 (ps_tag sh) \<and> utf8 (ps_mount_point sh) \<Longrightarrow> wt pod_share_shape (pod_share_val sh)"
  by (simp add: pod_share_shape_def pod_share_val_def vfield_def utf8_def)

lemma wt_network:
  "case n of None \<Rightarrow> True
     | Some n \<Rightarrow> utf8 (nw_interface n) \<and> utf8 (nw_address n) \<and> utf8 (nw_gateway n) \<and> list_all utf8 (nw_dns n)
         \<and> utf8 (nw_hostname n) \<Longrightarrow>
   wt (SPtr network_shape) (network_val n)"
  by (cases n)
     (simp_all add: network_shape_def network_val_def vfield_def utf8_def str_list_def strs_val_def wt_strings)

lemma empty_network: "is_empty (network_val n) \<longleftrightarrow> n = None"
  by (cases n) (simp_all add: network_val_def)

lemma empty_vals: "network_val None = VNil" "list_val f [] = VNil"
  by (simp_all add: network_val_def list_val_def)

lemma wt_pod:
  assumes "pod_fits sp"
  shows "wt pod_spec_shape (pod_spec_val sp)"
proof -
  have "sorted (map fst (pc_env c))" if "c \<in> set (sp_containers sp)" for c
  proof -
    have "map sorted_ctr (sp_containers sp) = map id (sp_containers sp)"
      using assms by (simp add: pod_fits_def sorted_pod_def) (metis pod_spec.select_convs(2) pod_spec.surjective pod_spec.update_convs(2))
    with that have "sorted_ctr c = c" by (metis id_apply map_eq_conv)
    then have "sort_key fst (pc_env c) = pc_env c"
      by (metis pod_container.ext_inject pod_container.surjective pod_container.update_convs(4) sorted_ctr_def)
    then show ?thesis by (metis sorted_sort_key)
  qed
  then have c: "wt (SList pod_container_shape) (list_val pod_container_val (sp_containers sp))"
    using assms wt_container unfolding wt_list by (simp add: pod_fits_def pod_ok_def list_all_iff)
  have s: "wt (SList pod_share_shape) (list_val pod_share_val (sp_shares sp))"
    using assms wt_share unfolding wt_list by (simp add: pod_fits_def pod_ok_def list_all_iff)
  have n: "wt (SPtr network_shape) (network_val (sp_network sp))"
    by (rule wt_network) (use assms in \<open>simp add: pod_fits_def pod_ok_def\<close>)
  show ?thesis
    using assms c s n
    by (simp add: pod_spec_shape_def pod_spec_val_def vfield_def utf8_def pod_fits_def pod_ok_def empty_network
        str_map_def empty_vals del: wt.simps(5,7))
qed

lemma pod_decode: "pod_fits sp \<Longrightarrow> unmarshal_pod_spec (marshal_pod_spec sp) = Some sp"
  using unmarshal_marshal [OF pod_shape_ok wt_pod]
  by (simp add: unmarshal_pod_spec_def marshal_pod_spec_def pod_of_val)

interpretation pod_json: codec marshal_pod_spec unmarshal_pod_spec pod_fits
  by unfold_locales (rule pod_decode)

lemma pod_text:
  assumes "pod_ok sp"
  shows "unmarshal_pod_spec (marshal_pod_spec sp) = Some (sorted_pod sp)"
  using pod_decode [OF sorted_pod_fits [OF assms]] by (simp add: marshal_sorted)

lemma sorted_env:
  assumes "env_ok (pc_env c)"
  shows "map_of (pc_env (sorted_ctr c)) = map_of (pc_env c)"
proof -
  have "distinct (map fst (sort_key fst (pc_env c)))" using assms by (simp add: env_ok_def distinct_map)
  with assms show ?thesis
    by (intro map_of_inject_set [THEN iffD2]) (simp_all add: sorted_ctr_def env_ok_def)
qed

text \<open>
  C21. The pod specification round-trips: what the guest decodes from the text is the specification,
  with every environment sorted by name, which is the same environment; so two specifications have the
  same text exactly when they agree up to that order.
\<close>

theorem pod_json_roundtrip:
  assumes "pod_ok sp" and "pod_ok sq"
  shows "unmarshal_pod_spec (marshal_pod_spec sp) = Some (sorted_pod sp)
    \<and> list_all (\<lambda>c. map_of (pc_env (sorted_ctr c)) = map_of (pc_env c)) (sp_containers sp)
    \<and> (marshal_pod_spec sp = marshal_pod_spec sq \<longleftrightarrow> sorted_pod sp = sorted_pod sq)"
proof -
  have "marshal_pod_spec sp = marshal_pod_spec sq \<longleftrightarrow> sorted_pod sp = sorted_pod sq"
    using pod_json.text_inject [OF sorted_pod_fits [OF assms(1)] sorted_pod_fits [OF assms(2)]]
    by (simp add: marshal_sorted)
  with assms(1) show ?thesis
    by (auto simp: pod_text list_all_iff pod_ok_def ctr_ok_def intro!: sorted_env)
qed

definition sample_pod :: pod_spec where
  "sample_pod =
     \<lparr>sp_pod_id = ''p1'', sp_containers =
        [\<lparr>pc_id = ''web'', pc_rootfs_tag = ''rootfs0'', pc_command = [''/bin/app''],
          pc_env = [(''PATH'', ''/bin''), (''HOME'', ''/'')], pc_workdir = ''/'', pc_user = [], pc_restart = ''always''\<rparr>],
      sp_shares = [\<lparr>ps_tag = ''rootfs0'', ps_mount_point = ''/run/weft/rootfs/web''\<rparr>], sp_network = None\<rparr>"

theorem pod_json_roundtrip_witness:
  "unmarshal_pod_spec (marshal_pod_spec sample_pod) = Some (sorted_pod sample_pod)
   \<and> pc_env (hd (sp_containers (sorted_pod sample_pod))) = [(''HOME'', ''/''), (''PATH'', ''/bin'')]"
proof -
  have "pod_ok sample_pod"
    by (simp add: pod_ok_def ctr_ok_def env_ok_def sample_pod_def utf8_def utf8_fix_ascii code_def)
  moreover have "pc_env (hd (sp_containers (sorted_pod sample_pod))) = [(''HOME'', ''/''), (''PATH'', ''/bin'')]"
    by code_simp
  ultimately show ?thesis using pod_json_roundtrip [of sample_pod sample_pod] by simp
qed

end
