(* ===== verification/Pod_Correct.thy ===== *)
theory Pod_Correct
  imports Pod_Json Run_Correct
begin

text \<open>
  Pod mode: which manifests are accepted, what a container takes from its image and what from the
  manifest, that the shares the machine gets are the ones its specification names, where the
  specification is written, and that a run with everything in place succeeds.
\<close>

section \<open>The manifest\<close>

definition manifest_ok :: "pod_manifest \<Rightarrow> bool" where
  "manifest_ok m =
     (pm_pod_id m \<noteq> [] \<and> pm_containers m \<noteq> [] \<and> list_all (\<lambda>c. mc_id c \<noteq> [] \<and> mc_image c \<noteq> []) (pm_containers m))"

lemma check_containers_iff:
  "check_containers path i cs = Inr () \<longleftrightarrow> list_all (\<lambda>c. mc_id c \<noteq> [] \<and> mc_image c \<noteq> []) cs"
  by (induction path i cs rule: check_containers.induct) auto

lemma read_same: "os_read_file p s = (r, s') \<Longrightarrow> s' = s"
  by (auto simp: os_read_file_def split: sum.splits place.splits node.splits if_splits)

lemma manifest_run:
  "load_manifest path s =
     (case os_read_file path s of
        (Inl e, _) \<Rightarrow> (Inl (Wrapf ''read pod manifest %s: %w'' [path] e), s)
      | (Inr b, _) \<Rightarrow>
          (case unmarshal_pod_manifest b of
             Inl e \<Rightarrow> (Inl (Wrapf ''decode pod manifest %s: %w'' [path] e), s)
           | Inr m \<Rightarrow>
               (if pm_pod_id m = [] then Inl (Errorf ''pod manifest %s: pod_id is required'' [path])
                else if pm_containers m = []
                then Inl (Errorf ''pod manifest %s: at least one container is required'' [path])
                else case check_containers path 0 (pm_containers m) of Inl e \<Rightarrow> Inl e | Inr _ \<Rightarrow> Inr m, s)))"
  by (auto simp: load_manifest_def io_defs split: prod.split sum.split dest: read_same)

text \<open>
  A manifest is accepted exactly when it can be read and decoded, names a pod and at least one
  container, and each container has an id and an image; loading it changes nothing.
\<close>

theorem load_manifest_checks:
  "case load_manifest path s of
     (Inr m, s') \<Rightarrow> s' = s \<and> manifest_ok m \<and> (\<exists>b. os_read_file path s = (Inr b, s) \<and> unmarshal_pod_manifest b = Inr m)
   | (Inl e, s') \<Rightarrow> s' = s \<and>
       \<not> (\<exists>b m. os_read_file path s = (Inr b, s) \<and> unmarshal_pod_manifest b = Inr m \<and> manifest_ok m)"
proof -
  have unit: "x = Inr () \<or> (\<exists>e. x = Inl e)" for x :: "error + unit" by (cases x) auto
  obtain r where r: "os_read_file path s = (r, s)" using read_same by (metis surj_pair)
  show ?thesis
  proof (cases r)
    case (Inr b)
    show ?thesis
    proof (cases "unmarshal_pod_manifest b")
      case ok: (Inr m)
      show ?thesis
        using unit [of "check_containers path 0 (pm_containers m)"] check_containers_iff [of path 0 "pm_containers m"]
        by (auto simp: manifest_run r Inr ok manifest_ok_def)
    qed (simp add: manifest_run r Inr)
  qed (simp add: manifest_run r)
qed

section \<open>A container\<close>

lemma update_fold: "map_of (fold (\<lambda>(k, v). AList.update k v) xs m) = map_of m ++ map_of (rev xs)"
  by (induction xs arbitrary: m) (auto simp: update_conv fun_eq_iff map_add_def split: option.splits)

lemma distinct_fold: "distinct (map fst m) \<Longrightarrow> distinct (map fst (fold (\<lambda>(k, v). AList.update k v) xs m))"
  by (induction xs arbitrary: m) (auto simp: distinct_update)

text \<open>The variables of an image's environment; entries without an equals sign are not.\<close>

definition env_entries :: "string list \<Rightarrow> (string \<times> string) list" where
  "env_entries env = List.map_filter (cut_chr CHR ''='') env"

lemma env_to_map_entries: "env_to_map env = fold (\<lambda>(k, v). AList.update k v) (env_entries env) []"
proof -
  have "fold (\<lambda>e m. case cut_chr CHR ''='' e of Some (k, v) \<Rightarrow> AList.update k v m | None \<Rightarrow> m) env m =
      fold (\<lambda>(k, v). AList.update k v) (env_entries env) m" for m
    by (induction env arbitrary: m) (auto simp: env_entries_def List.map_filter_simps split: option.split)
  then show ?thesis by (simp add: env_to_map_def)
qed

text \<open>The container made of a manifest entry and the process of its image.\<close>

definition merged :: "manifest_ctr \<Rightarrow> string \<Rightarrow> process_spec \<Rightarrow> pod_container" where
  "merged c tag p =
     \<lparr>pc_id = mc_id c, pc_rootfs_tag = tag, pc_command = (if mc_command c = [] then ps_args p else mc_command c),
      pc_env = fold (\<lambda>(k, v). AList.update k v) (env_entries (ps_env p) @ mc_env c) [],
      pc_workdir = (if mc_workdir c = [] then ps_cwd p else mc_workdir c),
      pc_user = (if mc_user c = [] \<and> (ps_uid p \<noteq> 0 \<or> ps_gid p \<noteq> 0)
        then dec_of_nat (unat (ps_uid p)) @ '':'' @ dec_of_nat (unat (ps_gid p)) else mc_user c),
      pc_restart = mc_restart c\<rparr>"

lemma container_run:
  assumes "os_read_file (path_join [rootfs, ''.weft-microvm'', ''config.json'']) s = (Inr b, s)"
    and "unmarshal_config b = Some p"
  shows "container_from_image c tag rootfs s =
    (if mc_command c = [] \<and> ps_args p = []
     then Inl (Errorf ''no command: image has no entrypoint/cmd and manifest set none'' []) else Inr (merged c tag p), s)"
  using assms by (simp add: container_from_image_def Let_def io_defs merged_def env_to_map_entries)

lemma numeric_user: "parse_image_user (dec_of_nat (unat u) @ CHR '':'' # dec_of_nat (unat g)) = Inr (u, g)"
  by (simp add: parse_image_user_def dec_of_nat_char_free is_digit_def parse_uint32_fmt [unfolded fmt_u32_def])

text \<open>
  C28. What the manifest says wins over what the image says, and the image fills in the rest: the
  command, the directory and the user are the manifest's unless it gives none; a variable has the
  manifest's value if it names it and else the last one of the image; every variable is set once; and
  the one error is that neither gives a command.
\<close>

theorem container_precedence:
  assumes "os_read_file (path_join [rootfs, ''.weft-microvm'', ''config.json'']) s = (Inr b, s)"
    and "unmarshal_config b = Some p"
  shows "case container_from_image c tag rootfs s of
     (Inl e, s') \<Rightarrow> s' = s \<and> mc_command c = [] \<and> ps_args p = []
   | (Inr r, s') \<Rightarrow> s' = s \<and> pc_command r \<noteq> [] \<and> pc_command r = (if mc_command c \<noteq> [] then mc_command c else ps_args p)
       \<and> pc_workdir r = (if mc_workdir c \<noteq> [] then mc_workdir c else ps_cwd p)
       \<and> (if mc_user c \<noteq> [] then pc_user r = mc_user c
          else if ps_uid p = 0 \<and> ps_gid p = 0 then pc_user r = []
          else parse_image_user (pc_user r) = Inr (ps_uid p, ps_gid p))
       \<and> map_of (pc_env r) = map_of (rev (env_entries (ps_env p))) ++ map_of (rev (mc_env c))
       \<and> distinct (map fst (pc_env r))"
  using distinct_fold [of "[]" "env_entries (ps_env p) @ mc_env c"]
  by (simp add: container_run [OF assms] merged_def update_fold numeric_user)

section \<open>The loop over the containers\<close>

definition pod_tag :: "nat \<Rightarrow> string" where
  "pod_tag i = ''rootfs'' @ dec_of_nat i"

definition guest_share :: "nat \<Rightarrow> manifest_ctr \<Rightarrow> pod_share" where
  "guest_share i c = \<lparr>ps_tag = pod_tag i, ps_mount_point = ''/run/weft/rootfs/'' @ mc_id c\<rparr>"

definition host_share :: "environ \<Rightarrow> nat \<Rightarrow> manifest_ctr \<Rightarrow> share" where
  "host_share env i c =
     \<lparr>sh_tag = pod_tag i, sh_path = rootfs_path env (refsafe (mc_image c)), sh_read_only = False, sh_clone = True\<rparr>"

lemma pod_tag_inject [simp]: "pod_tag i = pod_tag j \<longleftrightarrow> i = j"
  by (simp add: pod_tag_def)

lemma container_fields:
  assumes "container_from_image c tag rootfs s = (Inr ctr, s')"
  shows "pc_id ctr = mc_id c" and "pc_rootfs_tag ctr = tag" and "pc_command ctr \<noteq> []"
  using assms by (auto simp: container_from_image_def Let_def io_defs split: prod.splits sum.splits option.splits if_splits)

text \<open>The container the loop makes of the \<open>j\<close>-th entry of the manifest, with the files as they are then.\<close>

definition from_image :: "environ \<Rightarrow> nat \<Rightarrow> manifest_ctr \<Rightarrow> pod_container \<Rightarrow> bool" where
  "from_image env j c x \<longleftrightarrow>
     (\<exists>s. fst (container_from_image c (pod_tag j) (rootfs_path env (refsafe (mc_image c))) s) = Inr x)"

lemma add_containers_shape:
  assumes "add_containers rm env i cs (spec, shares) s = (Inr (spec', shares'), s')"
  shows "\<exists>ctrs. spec' = spec\<lparr>sp_containers := sp_containers spec @ ctrs,
        sp_shares := sp_shares spec @ map (\<lambda>(j, c). guest_share j c) (enumerate i cs)\<rparr>
    \<and> shares' = shares @ map (\<lambda>(j, c). host_share env j c) (enumerate i cs)
    \<and> map (\<lambda>x. (pc_rootfs_tag x, pc_id x)) ctrs = map (\<lambda>(j, c). (pod_tag j, mc_id c)) (enumerate i cs)
    \<and> list_all2 (\<lambda>(j, c) x. from_image env j c x) (enumerate i cs) ctrs"
  using assms
proof (induction cs arbitrary: i spec shares s)
  case Nil
  then show ?case by (auto simp: io_return_def)
next
  case (Cons c cs)
  let ?R = "rootfs_path env (refsafe (mc_image c))"
  let ?spec = "\<lambda>ctr. spec\<lparr>sp_containers := sp_containers spec @ [ctr], sp_shares := sp_shares spec @ [guest_share i c]\<rparr>"
  from Cons.prems obtain ctr s1 s2 where
    ctr: "container_from_image c (pod_tag i) ?R s1 = (Inr ctr, s2)" and
    rest: "add_containers rm env (Suc i) cs (?spec ctr, shares @ [host_share env i c]) s2 = (Inr (spec', shares'), s')"
    by (auto simp: Let_def pod_tag_def guest_share_def host_share_def elim!: io_bind_InrE dest!: io_wrap_InrD)
  from Cons.IH [OF rest] obtain ctrs where
    "spec' = (?spec ctr)\<lparr>sp_containers := sp_containers (?spec ctr) @ ctrs,
        sp_shares := sp_shares (?spec ctr) @ map (\<lambda>(j, c). guest_share j c) (enumerate (Suc i) cs)\<rparr>"
    "shares' = (shares @ [host_share env i c]) @ map (\<lambda>(j, c). host_share env j c) (enumerate (Suc i) cs)"
    "map (\<lambda>x. (pc_rootfs_tag x, pc_id x)) ctrs = map (\<lambda>(j, c). (pod_tag j, mc_id c)) (enumerate (Suc i) cs)"
    "list_all2 (\<lambda>(j, c) x. from_image env j c x) (enumerate (Suc i) cs) ctrs" by blast
  moreover have "from_image env i c ctr" using ctr by (auto simp: from_image_def intro: exI [of _ s1])
  ultimately show ?case
    using container_fields [OF ctr] by (intro exI [of _ "ctr # ctrs"]) simp
qed

lemma validate_containers_iff:
  "validate_containers i seen cs = Inr () \<longleftrightarrow>
     list_all (\<lambda>c. pc_id c \<noteq> [] \<and> pc_rootfs_tag c \<noteq> []) cs \<and> distinct (map pc_id cs)
     \<and> set seen \<inter> set (map pc_id cs) = {}"
  by (induction i seen cs rule: validate_containers.induct) auto

text \<open>
  The guest's check accepts a specification exactly when it names a pod, has a container, every
  container has an id and a share for its root file system, and no two containers have the same id.
\<close>

theorem validate_accepts:
  "validate sp = Inr () \<longleftrightarrow>
     sp_pod_id sp \<noteq> [] \<and> sp_containers sp \<noteq> []
     \<and> list_all (\<lambda>c. pc_id c \<noteq> [] \<and> pc_rootfs_tag c \<noteq> []) (sp_containers sp) \<and> distinct (map pc_id (sp_containers sp))"
  by (simp add: validate_def validate_containers_iff)

section \<open>What a pod run sends\<close>

lemma on_fs_InrD: "on_fs m w = (Inr x, w') \<Longrightarrow> \<exists>s. m (w_fs w) = (Inr x, s) \<and> w' = w\<lparr>w_fs := s\<rparr>"
  by (auto simp: on_fs_run prod_eq_iff)

lemma calls_InrD:
  "register_and_start sv socket r q w = (Inr (), w') \<Longrightarrow> w' = w\<lparr>w_log := w_log w @ [Register r, Start q]\<rparr>"
  by (auto simp: register_and_start_def dial_weft_def call_def io_defs split: option.splits)

text \<open>The directory of a pod's specification, which is also the first share, and the file in it.\<close>

definition pod_home :: "environ \<Rightarrow> pod_manifest \<Rightarrow> string" where
  "pod_home env man = path_join [data_dir env, ''pods'', pm_pod_id man]"

definition holds :: "fs \<Rightarrow> string \<Rightarrow> string \<Rightarrow> bool" where
  "holds s p b = (case walk s True p of Inr (At _ (File i)) \<Rightarrow> i_data (fs_inodes s i) = b | _ \<Rightarrow> False)"

lemma write_pod_holds:
  assumes "write_pod_json env (pm_pod_id man) spec s = (Inr cfg, s')"
  shows "cfg = pod_home env man" and "holds s' (path_join [pod_home env man, ''pod.json'']) (marshal_pod_spec spec)"
proof -
  from assms have "cfg = pod_home env man" and
    "\<exists>s1. os_write_file (path_join [pod_home env man, ''pod.json'']) (marshal_pod_spec spec) 0x1A4 s1 = (Inr (), s')"
    by (auto simp: write_pod_json_def Let_def pod_home_def io_return_def elim!: io_bind_InrE dest!: io_wrap_InrD)
  then show "cfg = pod_home env man" "holds s' (path_join [pod_home env man, ''pod.json'']) (marshal_pod_spec spec)"
    using write_file_walk by (fastforce simp: holds_def)+
qed

lemma locate_pod_same: "snd (locate_pod_boot env s) = s"
  by (simp add: locate_pod_boot_def Let_def io_defs exists_present)

text \<open>The specification of a manifest, and the request for its machine.\<close>

definition spec_of :: "environ \<Rightarrow> pod_manifest \<Rightarrow> pod_spec \<Rightarrow> bool" where
  "spec_of env man spec \<longleftrightarrow>
     sp_pod_id spec = pm_pod_id man \<and> sp_network spec = pm_network man
     \<and> sp_shares spec = map (\<lambda>(j, c). guest_share j c) (enumerate 0 (pm_containers man))
     \<and> list_all2 (\<lambda>(j, c) x. from_image env j c x) (enumerate 0 (pm_containers man)) (sp_containers spec)"

definition pod_machine :: "environ \<Rightarrow> args \<Rightarrow> pod_manifest \<Rightarrow> string \<times> string \<Rightarrow> register_request" where
  "pod_machine env a man boot =
     \<lparr>rq_name = ''weft-microvm-pod-'' @ pm_pod_id man, rq_project = a_project a, rq_host_uuid = [], rq_image = [],
      rq_cpu = 0, rq_mem_mb = 0,
      rq_shares = \<lparr>sh_tag = config_tag, sh_path = pod_home env man, sh_read_only = True, sh_clone = False\<rparr>
        # map (\<lambda>(j, c). host_share env j c) (enumerate 0 (pm_containers man)),
      rq_cmdline = ''weft.config=virtiofs:weftcfg console=hvc0'', rq_kernel = fst boot, rq_initrd = snd boot,
      rq_boot_iso = []\<rparr>"

text \<open>
  C22. A pod run that succeeds has sent what its manifest says: one registration, of the machine named
  after the pod with the kernel and initramfs that are found, and one start of it.  The first share is
  read-only, is the one the command line names, and is the pod's directory, where \<open>pod.json\<close> now holds
  the specification: the manifest's id and network, and the containers in order as their images give
  them, each with its share.  The other shares are private copies of the containers' root file
  systems, in order; all tags are different and so are all ids.
\<close>

theorem pod_request:
  assumes "run_pod sv rm env a w = (Inr (), w')"
  shows "\<exists>man boot spec. fst (load_manifest (a_pod a) (w_fs w)) = Inr man
    \<and> fst (locate_pod_boot env (w_fs w')) = Inr boot
    \<and> w_log w' = w_log w @ [Register (pod_machine env a man boot),
        Start \<lparr>st_name = ''weft-microvm-pod-'' @ pm_pod_id man, st_project = [], st_host_uuid = []\<rparr>]
    \<and> spec_of env man spec
    \<and> holds (w_fs w') (path_join [pod_home env man, ''pod.json'']) (marshal_pod_spec spec)
    \<and> distinct (map sh_tag (rq_shares (pod_machine env a man boot))) \<and> distinct (map mc_id (pm_containers man))"
proof -
  from assms obtain man s1 spec shares s2 cfg s3 boot s4 w4 where
    man: "load_manifest (a_pod a) (w_fs w) = (Inr man, s1)" and
    loop: "add_containers rm env 0 (pm_containers man)
       (\<lparr>sp_pod_id = pm_pod_id man, sp_containers = [], sp_shares = [], sp_network = pm_network man\<rparr>, []) s1 =
       (Inr (spec, shares), s2)" and
    valid: "validate spec = Inr ()" and
    json: "write_pod_json env (pm_pod_id man) spec s2 = (Inr cfg, s3)" and
    boot: "locate_pod_boot env s3 = (Inr boot, s4)" and
    calls: "register_and_start sv (a_weft_socket a)
      \<lparr>rq_name = ''weft-microvm-pod-'' @ pm_pod_id man, rq_project = a_project a, rq_host_uuid = [], rq_image = [],
       rq_cpu = 0, rq_mem_mb = 0,
       rq_shares = \<lparr>sh_tag = config_tag, sh_path = cfg, sh_read_only = True, sh_clone = False\<rparr> # shares,
       rq_cmdline = ''weft.config=virtiofs:'' @ config_tag @ '' console=hvc0'', rq_kernel = fst boot,
       rq_initrd = snd boot, rq_boot_iso = []\<rparr>
      \<lparr>st_name = ''weft-microvm-pod-'' @ pm_pod_id man, st_project = [], st_host_uuid = []\<rparr> w4 = (Inr (), w')"
      "w_log w4 = w_log w" "w_fs w4 = s4"
    by (auto simp: run_pod_def Let_def io_lift_run elim!: io_bind_InrE dest!: on_fs_InrD io_wrap_InrD split: prod.splits)
  from add_containers_shape [OF loop] obtain ctrs where
    ctrs: "sp_containers spec = ctrs" "shares = map (\<lambda>(j, c). host_share env j c) (enumerate 0 (pm_containers man))"
      "map (\<lambda>x. (pc_rootfs_tag x, pc_id x)) ctrs = map (\<lambda>(j, c). (pod_tag j, mc_id c)) (enumerate 0 (pm_containers man))"
    and spec: "spec_of env man spec"
    by (auto simp: spec_of_def)
  from arg_cong [OF ctrs(3), of "map snd"] have "map pc_id ctrs = map mc_id (pm_containers man)"
    by (simp only: map_map comp_def case_prod_unfold snd_conv) (simp flip: map_map [unfolded comp_def])
  then have ids: "distinct (map mc_id (pm_containers man))"
    using valid ctrs(1) by (simp add: validate_def validate_containers_iff split: if_splits)
  have "map sh_tag (map (\<lambda>(i, c). host_share env i c) (enumerate 0 cs)) = map pod_tag [0 ..< length cs]" for cs
    by (simp add: comp_def case_prod_unfold host_share_def flip: map_map [unfolded comp_def, of pod_tag fst])
  then have "distinct (map sh_tag shares)" "config_tag \<notin> set (map sh_tag shares)"
    by (auto simp: ctrs(2) distinct_map inj_on_def config_tag_def pod_tag_def simp del: map_map)
  then have tags: "distinct (map sh_tag (rq_shares (pod_machine env a man boot)))"
    by (simp add: pod_machine_def ctrs(2))
  have "s4 = s3" using locate_pod_same [of env s3] boot by simp
  moreover have "w_log w' = w_log w @ [Register (pod_machine env a man boot),
      Start \<lparr>st_name = ''weft-microvm-pod-'' @ pm_pod_id man, st_project = [], st_host_uuid = []\<rparr>]" "w_fs w' = s4"
    using calls_InrD [OF calls(1)] calls(2,3) write_pod_holds(1) [OF json]
    by (simp_all add: pod_machine_def ctrs(2) config_tag_def)
  ultimately show ?thesis
    using man boot spec write_pod_holds(2) [OF json] tags ids by auto
qed

section \<open>Where the specification goes\<close>

definition pod_dir :: "path \<Rightarrow> string \<Rightarrow> path" where
  "pod_dir D pid = D @ [''weft-microvm'', ''pods'', pid]"

text \<open>Room for a file: directories on the way, and nothing or a file in its place.\<close>

definition pod_place :: "path \<Rightarrow> fs \<Rightarrow> bool" where
  "pod_place dir s =
     (clear_to s dir \<and> (case view s (dir @ [''pod.json'']) of None \<Rightarrow> True | Some (AFile _) \<Rightarrow> True | _ \<Rightarrow> False))"

lemma write_pod_run:
  assumes "path_join [data_dir env, ''pods'', pid] = abs_path dir" and "plains dir" and "ready s" and "pod_place dir s"
  shows "\<exists>s'. write_pod_json env pid spec s = (Inr (abs_path dir), s') \<and> ready s'
    \<and> view s' = (spec_dirs dir (view s))(dir @ [''pod.json''] \<mapsto> AFile (marshal_pod_spec spec))"
proof -
  have pl: "plain ''pod.json''" by (simp add: plain_def)
  have clear: "clear_to s dir" using assms(4) by (simp add: pod_place_def)
  obtain s1 where s1: "os_mkdir_all (abs_path dir) 0x1ED s = (Inr (), s1)" "ready s1" "view s1 = spec_dirs dir (view s)"
    using mkdirs_refines [OF assms(3,2), of _ "0x1ED"] clear by (auto simp: spec_mkdirs_def)
  have dirs: "view s1 q = Some ADir" if "prefix q dir" for q
    using clear that unfolding clear_to_iff s1(3) spec_dirs_def by (auto simp flip: view_ADir)
  then have "spec_clear (view s1) dir"
    by (simp add: clear_to_iff)
  moreover have "view s1 (dir @ [''pod.json'']) = view s (dir @ [''pod.json''])"
    by (simp add: s1(3) spec_dirs_def)
  ultimately have "spec_write (dir @ [''pod.json'']) (marshal_pod_spec spec) (view s1) =
      Some ((view s1)(dir @ [''pod.json''] \<mapsto> AFile (marshal_pod_spec spec)))"
    using assms(4) dirs [of dir] by (auto simp: spec_write_def pod_place_def simp del: view_None view_ADir split: option.splits)
  then obtain s2 where "os_write_file (abs_path (dir @ [''pod.json''])) (marshal_pod_spec spec) 0x1A4 s1 = (Inr (), s2)"
      "ready s2" "view s2 = (spec_dirs dir (view s))(dir @ [''pod.json''] \<mapsto> AFile (marshal_pod_spec spec))"
    using write_refines [OF s1(2), of "dir @ [''pod.json'']" _ _ "0x1A4"] assms(2) pl s1(3) by fastforce
  then show ?thesis
    by (simp add: write_pod_json_def Let_def assms(1) path_join_plain [OF assms(2) pl] io_defs s1(1))
qed

lemma pod_dir_path:
  assumes "env ''XDG_DATA_HOME'' = abs_path D" and "plains D" and "plain pid"
  shows "path_join [data_dir env, ''pods'', pid] = abs_path (pod_dir D pid)" and "plains (pod_dir D pid)"
  using path_join_Cons3 [of "D @ [''weft-microvm'']" "''pods''" pid] assms(2,3)
  by (simp_all add: data_dir_abs [of env D, OF assms(1,2)] pod_dir_def plain_def)

lemma path_join_climb:
  assumes "plains ds" and "ds \<noteq> []" and "plain x" and "plains q"
  shows "path_join [abs_path ds, x, rel_path (''..'' # q)] = abs_path (ds @ q)"
proof -
  let ?cs = "ds @ [x] @ ''..'' # q"
  have j: "join_str ''/'' [abs_path ds, x, rel_path (''..'' # q)] = slash # join_str ''/'' ?cs"
    using assms(2) join_str_append [of ds "[x] @ ''..'' # q" "''/''"]
    by (simp add: abs_path_def rel_path_def)
  have "split_chr slash (slash # join_str ''/'' ?cs) = [] # ?cs"
    using split_join_chr [of ?cs slash] assms by (auto simp: list_all_iff plain_def)
  moreover have "clean_comps True ([] # ?cs) = ds @ q"
    using assms by (simp add: clean_comps_def path_simps foldl_plain clean_step.simps plain_def)
  ultimately show ?thesis
    using j by (simp add: path_join_def path_clean_def is_rooted_def Let_def abs_path_def)
qed

text \<open>
  C39. The pod id is not checked as a name: an id that climbs, such as \<open>../images/x/rootfs/etc\<close>, makes
  the program create and write \<open>pod.json\<close> outside the directory of the pods, at the place the rest of
  the id names below the data directory.
\<close>

theorem pod_id_escapes:
  assumes "env ''XDG_DATA_HOME'' = abs_path D" and "plains D" and "plains q" and "ready s"
    and "pod_place (D @ ''weft-microvm'' # q) s"
  shows "\<exists>s'. write_pod_json env (rel_path (''..'' # q)) spec s = (Inr (abs_path (D @ ''weft-microvm'' # q)), s')
    \<and> view s' ((D @ ''weft-microvm'' # q) @ [''pod.json'']) = Some (AFile (marshal_pod_spec spec))"
proof -
  have "path_join [data_dir env, ''pods'', rel_path (''..'' # q)] = abs_path ((D @ [''weft-microvm'']) @ q)"
    unfolding data_dir_abs [of env D, OF assms(1,2)]
    by (rule path_join_climb) (use assms(2,3) in \<open>simp_all add: plain_def\<close>)
  moreover have "plains ((D @ [''weft-microvm'']) @ q)" using assms(2,3) by (simp add: plain_def)
  ultimately show ?thesis
    using write_pod_run [of env "rel_path (''..'' # q)" "(D @ [''weft-microvm'']) @ q" s spec] assms(4,5) by auto
qed

section \<open>A pod that runs\<close>

text \<open>The image of a container is in the cache, and a command is known.\<close>

definition image_ready :: "path \<Rightarrow> environ \<Rightarrow> fs \<Rightarrow> manifest_ctr \<Rightarrow> bool" where
  "image_ready D env s c \<longleftrightarrow> cache_at env D (mc_image c) \<and>
     (\<exists>p. view s (sentinel_file D (mc_image c)) = Some (AFile (marshal_config p)) \<and> config_ok p
        \<and> (mc_command c \<noteq> [] \<or> ps_args p \<noteq> []))"

lemma container_ready:
  assumes "ready s" and "image_ready D env s c"
  shows "\<exists>ctr. container_from_image c tag (rootfs_path env (refsafe (mc_image c))) s = (Inr ctr, s)"
proof -
  from assms(2) obtain p where c: "cache_at env D (mc_image c)" and p: "config_ok p" "mc_command c \<noteq> [] \<or> ps_args p \<noteq> []"
      "view s (sentinel_file D (mc_image c)) = Some (AFile (marshal_config p))"
    by (auto simp: image_ready_def)
  note R = cache_rootfs [OF c]
  have "os_read_file (path_join [rootfs_path env (refsafe (mc_image c)), ''.weft-microvm'', ''config.json'']) s =
      (Inr (marshal_config p), s)"
    unfolding R(1,2) by (rule ready_read [OF assms(1) R(3,4) p(3)])
  from container_run [OF this config_decode [OF p(1)]] p(2) show ?thesis by auto
qed

lemma add_containers_ready:
  assumes "ready s" and "list_all (image_ready D env s) cs"
  shows "\<exists>x. add_containers rm env i cs (spec, shares) s = (Inr x, s)"
  using assms(2)
proof (induction cs arbitrary: i spec shares)
  case (Cons c cs)
  then have c: "image_ready D env s c" by simp
  then have "present s (rootfs_path env (refsafe (mc_image c)))"
    using sentinel_present [OF _ assms(1)] by (auto simp: image_ready_def simp del: view_None)
  then obtain nd where "os_stat (rootfs_path env (refsafe (mc_image c))) s = (Inr nd, s)"
    using stat_same by (metis isl_def obj_sumE present_def prod.collapse)
  moreover obtain ctr where "container_from_image c (''rootfs'' @ dec_of_nat i) (rootfs_path env (refsafe (mc_image c))) s = (Inr ctr, s)"
    using container_ready [OF assms(1) c] by blast
  ultimately show ?case
    using Cons.IH Cons.prems by (simp add: Let_def io_bind_def io_try_def io_wrap_def io_return_def)
qed (simp add: io_return_def)

definition initrd_file :: "path \<Rightarrow> path" where
  "initrd_file D = D @ [''weft-microvm'', ''pod-initrd'']"

lemma locate_pod:
  assumes "env ''XDG_DATA_HOME'' = abs_path D" and "plains D" and "env ''WEFT_KERNEL'' = []" and "env ''WEFT_POD_INITRD'' = []"
    and "ready s" and "view s (kernel_file D) = Some (AFile k)" and "view s (initrd_file D) = Some (AFile i)"
  shows "locate_pod_boot env s = (Inr (abs_path (kernel_file D), abs_path (initrd_file D)), s)"
proof -
  have data: "path_join [data_dir env, n] = abs_path (D @ [''weft-microvm'', n])" if "plain n" for n
    using path_join_plain [of "D @ [''weft-microvm'']" n] assms(2) that
    by (simp add: data_dir_abs [of env D, OF assms(1,2)] plain_def)
  have p: "plains (kernel_file D)" "plains (initrd_file D)"
    using assms(2) by (simp_all add: kernel_file_def initrd_file_def plain_def)
  have "present s (abs_path (kernel_file D))" "present s (abs_path (initrd_file D))"
    using ready_present [OF assms(5) p(1) _ assms(6)] ready_present [OF assms(5) p(2) _ assms(7)]
    by (auto simp: kernel_file_def initrd_file_def)
  then show ?thesis
    using data [of "''kernel''"] data [of "''pod-initrd''"] assms(3,4)
    by (simp add: locate_pod_boot_def Let_def io_defs exists_present kernel_file_def initrd_file_def plain_def)
qed

lemma pod_run_ready:
  assumes "env ''XDG_DATA_HOME'' = abs_path D" and "plains D" and "env ''WEFT_KERNEL'' = []" and "env ''WEFT_POD_INITRD'' = []"
    and "ready (w_fs w)" and "view (w_fs w) (kernel_file D) = Some (AFile k)"
    and "view (w_fs w) (initrd_file D) = Some (AFile i)"
    and "load_manifest (a_pod a) (w_fs w) = (Inr man, w_fs w)" and "manifest_ok man" and "plain (pm_pod_id man)"
    and "distinct (map mc_id (pm_containers man))" and "list_all (image_ready D env (w_fs w)) (pm_containers man)"
    and "pod_place (pod_dir D (pm_pod_id man)) (w_fs w)" and "accepts sv (a_weft_socket a)"
  shows "\<exists>w' spec. run_pod sv rm env a w = (Inr (), w')
    \<and> sp_pod_id spec = pm_pod_id man \<and> map pc_id (sp_containers spec) = map mc_id (pm_containers man)
    \<and> sp_shares spec = map (\<lambda>(i, c). guest_share i c) (enumerate 0 (pm_containers man))
    \<and> view (w_fs w') = (spec_dirs (pod_dir D (pm_pod_id man)) (view (w_fs w)))
        (pod_dir D (pm_pod_id man) @ [''pod.json''] \<mapsto> AFile (marshal_pod_spec spec))"
proof -
  let ?s = "w_fs w" and ?dir = "pod_dir D (pm_pod_id man)" and ?cs = "pm_containers man"
  let ?init = "\<lparr>sp_pod_id = pm_pod_id man, sp_containers = [], sp_shares = [], sp_network = pm_network man\<rparr>"
  obtain spec shares where loop: "add_containers rm env 0 ?cs (?init, []) ?s = (Inr (spec, shares), ?s)"
    using add_containers_ready [OF assms(5,12)] by (metis surj_pair)
  from add_containers_shape [OF loop] obtain ctrs where spec: "sp_pod_id spec = pm_pod_id man" "sp_containers spec = ctrs"
      "sp_shares spec = map (\<lambda>(j, c). guest_share j c) (enumerate 0 ?cs)"
      and pairs: "map (\<lambda>x. (pc_rootfs_tag x, pc_id x)) ctrs = map (\<lambda>(j, c). (pod_tag j, mc_id c)) (enumerate 0 ?cs)"
    by auto
  from arg_cong [OF pairs, of "map snd"] have ids: "map pc_id ctrs = map mc_id ?cs"
    by (simp only: map_map comp_def case_prod_unfold snd_conv) (simp flip: map_map [unfolded comp_def])
  from arg_cong [OF pairs, of "map fst"] have tags: "map pc_rootfs_tag ctrs = map pod_tag [0 ..< length ?cs]"
    by (simp only: map_map comp_def case_prod_unfold fst_conv) (simp flip: map_map [unfolded comp_def, of pod_tag fst])
  have "\<forall>t \<in> set (map pc_id ctrs). t \<noteq> []" "\<forall>t \<in> set (map pc_rootfs_tag ctrs). t \<noteq> []"
    unfolding ids tags using assms(9) by (simp_all add: manifest_ok_def list_all_iff pod_tag_def)
  then have "list_all (\<lambda>c. pc_id c \<noteq> [] \<and> pc_rootfs_tag c \<noteq> []) ctrs" by (simp add: list_all_iff)
  moreover have "ctrs \<noteq> []" using ids assms(9) by (auto simp: manifest_ok_def)
  ultimately have valid: "validate spec = Inr ()"
    using assms(9,11) ids by (simp add: validate_def validate_containers_iff spec manifest_ok_def)
  note dir = pod_dir_path [of env D "pm_pod_id man", OF assms(1,2,10)]
  obtain s2 where s2: "write_pod_json env (pm_pod_id man) spec ?s = (Inr (abs_path ?dir), s2)" "ready s2"
      "view s2 = (spec_dirs ?dir (view ?s))(?dir @ [''pod.json''] \<mapsto> AFile (marshal_pod_spec spec))"
    using write_pod_run [of env "pm_pod_id man", OF dir assms(5,13)] by blast
  have "view s2 (kernel_file D) = Some (AFile k)" "view s2 (initrd_file D) = Some (AFile i)"
    using assms(6,7) by (simp_all add: s2(3) spec_dirs_def kernel_file_def initrd_file_def pod_dir_def del: view_None)
  note boot = locate_pod [of env D, OF assms(1-4) s2(2) this]
  obtain r q where "run_pod sv rm env a w = register_and_start sv (a_weft_socket a) r q (w\<lparr>w_fs := s2\<rparr>)"
    by (simp add: run_pod_def io_bind_def io_wrap_def io_lift_def Let_def on_fs_run assms(8) loop valid s2(1) boot)
  then show ?thesis
    using spec ids s2(3) by (auto simp: calls_accepted [OF assms(14)])
qed

text \<open>
  C6. A pod with everything in place runs: with its images in the cache, distinct ids, a kernel and an
  initramfs in the data directory and a daemon that accepts, the run succeeds, and all it has changed
  on disk is the pod's directory with the text of a specification with the manifest's containers, in
  order, each with its share.
\<close>

theorem pod_runs:
  assumes "env ''XDG_DATA_HOME'' = abs_path D" and "plains D" and "env ''WEFT_KERNEL'' = []" and "env ''WEFT_POD_INITRD'' = []"
    and "ready (w_fs w)" and "view (w_fs w) (kernel_file D) = Some (AFile k)"
    and "view (w_fs w) (initrd_file D) = Some (AFile i)"
    and "load_manifest (a_pod a) (w_fs w) = (Inr man, w_fs w)" and "manifest_ok man" and "plain (pm_pod_id man)"
    and "distinct (map mc_id (pm_containers man))" and "list_all (image_ready D env (w_fs w)) (pm_containers man)"
    and "pod_place (pod_dir D (pm_pod_id man)) (w_fs w)" and "accepts sv (a_weft_socket a)"
  shows "\<exists>w' spec. run_pod sv rm env a w = (Inr (), w')
    \<and> sp_pod_id spec = pm_pod_id man \<and> map pc_id (sp_containers spec) = map mc_id (pm_containers man)
    \<and> sp_shares spec = map (\<lambda>(i, c). guest_share i c) (enumerate 0 (pm_containers man))
    \<and> view (w_fs w') = (spec_dirs (pod_dir D (pm_pod_id man)) (view (w_fs w)))
        (pod_dir D (pm_pod_id man) @ [''pod.json''] \<mapsto> AFile (marshal_pod_spec spec))"
  by (rule pod_run_ready [OF assms])

section \<open>A concrete pod\<close>

definition sample_manifest_ctr :: manifest_ctr where
  "sample_manifest_ctr =
     \<lparr>mc_id = ''web'', mc_image = ''alpine:3'', mc_command = [], mc_env = [(''K'', ''w'')], mc_workdir = [], mc_user = [],
      mc_restart = ''always''\<rparr>"

definition sample_pod_manifest :: pod_manifest where
  "sample_pod_manifest = \<lparr>pm_pod_id = ''p1'', pm_containers = [sample_manifest_ctr], pm_network = None\<rparr>"

definition sample_manifest_val :: gval where
  "sample_manifest_val = VStruct
     [(''pod_id'', VStr ''p1''),
      (''containers'', VList [VStruct
         [(''id'', VStr ''web''), (''image'', VStr ''alpine:3''), (''command'', VNil), (''env'', VMap [(''K'', VStr ''w'')]),
          (''workdir'', VStr []), (''user'', VStr []), (''restart'', VStr ''always'')]]),
      (''network'', VNil)]"

definition pod_text_inode :: "nat \<Rightarrow> inode" where
  "pod_text_inode i =
     \<lparr>i_data = (if i = 3 then marshal pod_manifest_shape sample_manifest_val else marshal_config sample_process),
      i_mode = 0x1A4, i_mtime = 1\<rparr>"

definition sample_pod_fs :: fs where
  "sample_pod_fs =
     \<lparr>fs_nodes = fs_nodes sample_image @ [([''d'', ''weft-microvm'', ''pod-initrd''], File 2), ([''m.json''], File 3)],
      fs_inodes = pod_text_inode,
      fs_next = 4, fs_cwd = [], fs_super = True, fs_umask = 0x12, fs_now = 7\<rparr>"

definition sample_pod_args :: args where
  "sample_pod_args = (plain_args [] [])\<lparr>a_pod := ''/m.json'', a_project := ''team''\<rparr>"

lemma sample_pod_ready: "ready sample_pod_fs"
  by (rule ready_check_ready) code_simp

lemma sample_pod_views:
  "view sample_pod_fs (kernel_file [''d'']) = Some (AFile (marshal_config sample_process))"
  "view sample_pod_fs (initrd_file [''d'']) = Some (AFile (marshal_config sample_process))"
  "view sample_pod_fs (sentinel_file [''d''] ''alpine:3'') = Some (AFile (marshal_config sample_process))"
  "view sample_pod_fs [''m.json''] = Some (AFile (marshal pod_manifest_shape sample_manifest_val))"
  by (simp_all add: view_AFile sample_pod_fs_def sample_image_def sample_kernel_def pod_text_inode_def node_at_def
      kernel_file_def initrd_file_def sentinel_file_def rootfs_dir_def root_dir_def)

lemma sample_manifest_decodes:
  "unmarshal_pod_manifest (marshal pod_manifest_shape sample_manifest_val) = Inr sample_pod_manifest"
proof -
  have "shape_ok pod_manifest_shape" by code_simp
  moreover have "wt pod_manifest_shape sample_manifest_val"
    by (simp add: pod_manifest_shape_def manifest_ctr_shape_def sample_manifest_val_def vfield_def str_list_def str_map_def
        network_shape_def utf8_fix_ascii code_def)
  moreover have "pod_manifest_of sample_manifest_val = sample_pod_manifest"
    by (simp add: pod_manifest_of_def manifest_ctr_of_def sample_manifest_val_def sample_pod_manifest_def
        sample_manifest_ctr_def vfield_def vmap_def network_of_def)
  ultimately show ?thesis
    by (simp add: unmarshal_pod_manifest_def decoded_def unmarshal_marshal)
qed

lemma sample_loads:
  "load_manifest (a_pod sample_pod_args) sample_pod_fs = (Inr sample_pod_manifest, sample_pod_fs)"
proof -
  have "abs_path [''m.json''] = ''/m.json''" "plains [''m.json'']" by code_simp+
  then have "os_read_file ''/m.json'' sample_pod_fs =
      (Inr (marshal pod_manifest_shape sample_manifest_val), sample_pod_fs)"
    using ready_read [OF sample_pod_ready _ _ sample_pod_views(4)] by simp
  then show ?thesis
    by (simp add: sample_pod_args_def manifest_run sample_manifest_decodes)
       (simp add: sample_pod_manifest_def sample_manifest_ctr_def)
qed

lemma sample_pod_setup:
  "sample_env ''XDG_DATA_HOME'' = abs_path [''d'']" "plains [''d'']" "sample_env ''WEFT_KERNEL'' = []"
  "sample_env ''WEFT_POD_INITRD'' = []" "manifest_ok sample_pod_manifest" "plain (pm_pod_id sample_pod_manifest)"
  "distinct (map mc_id (pm_containers sample_pod_manifest))"
  "pod_place (pod_dir [''d''] (pm_pod_id sample_pod_manifest)) sample_pod_fs"
  "pod_place [''d'', ''weft-microvm'', ''x''] sample_pod_fs"
  by code_simp+

lemma sample_images: "list_all (image_ready [''d''] sample_env sample_pod_fs) (pm_containers sample_pod_manifest)"
  using sample_pod_views(3) sample_process_ok sample_run_cache(1,6)
  by (auto simp: image_ready_def sample_pod_manifest_def sample_manifest_ctr_def sample_process_def)

lemma sample_pod_run:
  "\<exists>w' spec. run_pod sample_server rm sample_env sample_pod_args \<lparr>w_fs = sample_pod_fs, w_log = []\<rparr> = (Inr (), w')
    \<and> view (w_fs w') (pod_dir [''d''] ''p1'' @ [''pod.json'']) = Some (AFile (marshal_pod_spec spec))"
  using pod_run_ready [of sample_env "[''d'']" "\<lparr>w_fs = sample_pod_fs, w_log = []\<rparr>", OF sample_pod_setup(1-4)]
    sample_pod_ready sample_pod_views(1,2) sample_loads sample_pod_setup(5-8) sample_images sample_accepts
  by (fastforce simp: sample_pod_manifest_def)

theorem pod_runs_witness:
  "\<exists>w' spec. run_pod sample_server (sample_remote []) sample_env sample_pod_args \<lparr>w_fs = sample_pod_fs, w_log = []\<rparr> = (Inr (), w')
    \<and> map pc_id (sp_containers spec) = [''web'']
    \<and> view (w_fs w') (pod_dir [''d''] ''p1'' @ [''pod.json'']) = Some (AFile (marshal_pod_spec spec))"
  using pod_runs [of sample_env "[''d'']" "\<lparr>w_fs = sample_pod_fs, w_log = []\<rparr>", OF sample_pod_setup(1-4)]
    sample_pod_ready sample_pod_views(1,2) sample_loads sample_pod_setup(5-8) sample_images sample_accepts
  by (fastforce simp: sample_pod_manifest_def sample_manifest_ctr_def)

theorem pod_request_witness:
  "\<exists>w' spec boot. run_pod sample_server (sample_remote []) sample_env sample_pod_args \<lparr>w_fs = sample_pod_fs, w_log = []\<rparr> = (Inr (), w')
    \<and> w_log w' = [Register (pod_machine sample_env sample_pod_args sample_pod_manifest boot),
        Start \<lparr>st_name = ''weft-microvm-pod-p1'', st_project = [], st_host_uuid = []\<rparr>]
    \<and> holds (w_fs w') ''/d/weft-microvm/pods/p1/pod.json'' (marshal_pod_spec spec)
    \<and> map ps_mount_point (sp_shares spec) = [''/run/weft/rootfs/web'']"
proof -
  obtain w' where w': "run_pod sample_server (sample_remote []) sample_env sample_pod_args
      \<lparr>w_fs = sample_pod_fs, w_log = []\<rparr> = (Inr (), w')" using sample_pod_run by blast
  have "path_join [pod_home sample_env sample_pod_manifest, ''pod.json''] = ''/d/weft-microvm/pods/p1/pod.json''"
    by code_simp
  with pod_request [OF w'] w' show ?thesis
    by (fastforce simp: sample_loads spec_of_def guest_share_def sample_pod_manifest_def sample_manifest_ctr_def)
qed

theorem container_precedence_witness:
  "case container_from_image sample_manifest_ctr ''rootfs0'' (abs_path (rootfs_dir [''d''] ''alpine:3'')) sample_pod_fs of
     (Inl e, s') \<Rightarrow> False
   | (Inr r, s') \<Rightarrow> pc_command r = [''sh'', ''-c'', ''a<b''] \<and> map_of (pc_env r) ''K'' = Some ''w''
       \<and> parse_image_user (pc_user r) = Inr (1000, 0xFFFFFFFF)"
proof -
  have c: "cache_at sample_env [''d''] ''alpine:3''" using sample_run_cache(1,6) by simp
  have "os_read_file (path_join [abs_path (rootfs_dir [''d''] ''alpine:3''), ''.weft-microvm'', ''config.json'']) sample_pod_fs =
      (Inr (marshal_config sample_process), sample_pod_fs)"
    unfolding cache_rootfs(2) [OF c] by (rule ready_read [OF sample_pod_ready cache_rootfs(3,4) [OF c] sample_pod_views(3)])
  from container_precedence [OF this config_decode [OF sample_process_ok], of sample_manifest_ctr "''rootfs0''"]
  show ?thesis
    by (auto simp: sample_manifest_ctr_def sample_process_def split: prod.splits sum.splits)
qed

theorem pod_id_escapes_witness:
  "\<exists>s'. write_pod_json sample_env ''../x'' sample_pod sample_pod_fs = (Inr ''/d/weft-microvm/x'', s')
    \<and> view s' [''d'', ''weft-microvm'', ''x'', ''pod.json''] = Some (AFile (marshal_pod_spec sample_pod))"
proof -
  have "rel_path (''..'' # [''x'']) = ''../x''" "abs_path ([''d''] @ ''weft-microvm'' # [''x'']) = ''/d/weft-microvm/x''"
      "plains [''x'']" by code_simp+
  then show ?thesis
    using pod_id_escapes [of sample_env "[''d'']" "[''x'']" sample_pod_fs sample_pod, OF sample_pod_setup(1,2) _ sample_pod_ready]
      sample_pod_setup(9) by simp
qed

end
