(* ===== verification/Spec2Isabelle.thy ===== *)
theory Spec2Isabelle
  imports Extract_Loop Pull_Safe Layer_Order Hard_Link Cpio_Read Initbuild Pull_Refine Image_Ref_Correct Artifacts Store_Race Run_Again Pod_Correct
begin

text \<open>
  A model of \<open>weft-microvm\<close>, the program that pulls OCI images, unpacks them into root file systems and
  has a daemon boot them as micro virtual machines, and what is proved about it.

  \<^bold>\<open>The program.\<close>  \<open>Pull\<close> (\<open>pull.go\<close>) turns an image reference into a repository of a registry, fetches
  the manifest of this platform, and extracts its layers (\<open>extract.go\<close>) into a directory of the cache
  (\<open>cache.go\<close>); it then derives the process to run from the image's configuration (\<open>configspec.go\<close>) and
  leaves it in the root file system as \<open>.weft-microvm/config.json\<close>.  \<open>Run\<close> (\<open>run.go\<close>) makes sure the image
  is there, applies an override of the command, looks for a kernel or a boot image, builds a request and
  makes two calls to the daemon, \<open>RegisterMicroVM\<close> and \<open>StartVM\<close>.  \<open>Prepare\<close> (\<open>prepare.go\<close>) does the same
  up to the request for a caller inside the daemon.  \<open>RunPod\<close> (\<open>pod.go\<close>) does it for several containers,
  described by a manifest, and writes a specification for the guest.  \<open>PullKernel\<close> and \<open>PullPodInitrd\<close>
  fetch the files that are booted; \<open>initbuild\<close> and \<open>cpio\<close> build an initramfs locally.

  \<^bold>\<open>The world.\<close>  Go's \<open>(T, error)\<close> results with side effects are functions from a state to a result and a
  state (\<open>Prelude\<close>, type \<open>io\<close>); an error keeps its format string, its arguments and what it wraps.  The
  file system is explicit (\<open>Posix\<close>): paths, inodes with contents, modes and times, symbolic links
  followed at most 40 times as the kernel does, permission bits, the umask, and one definition per
  call of the \<open>os\<close> package the program makes.  Paths and byte strings are modelled in \<open>Go_Path\<close> and
  \<open>Go_Strings\<close>.  \<open>Posix_Frame\<close> says what each call leaves alone, \<open>Posix_Way\<close> what making
  a directory adds whatever the permissions, \<open>Posix_Open\<close> and \<open>Posix_Write\<close> what the calls do on paths
  without symbolic links.  \<open>ready\<close> is the well-formed case most end-to-end properties are about: the
  superuser, every node in a directory, every file with one name; \<open>view\<close> abstracts such a file system to
  a tree of contents.

  \<^bold>\<open>The theories.\<close>
  \<^item> \<open>Extract\<close>: \<open>safeJoin\<close>, \<open>applyEntry\<close>, \<open>extractTar\<close>, \<open>ExtractLayer\<close>.  \<open>Extract_Correct\<close> shows what the name
    check accepts, that a stream that passes a check of its names (nothing through symbolic links, whiteouts of
    ordinary names) changes nothing outside the destination, and that others do; \<open>Extract_Refine\<close> that the code computes a specification on
    trees, entry by entry, and \<open>Layer_Order\<close> when that is the specification of the layer format, which has
    the whiteouts of a layer first; \<open>Hard_Link\<close> what happens where two names share one file, which those trees leave
    out; \<open>Extract_Loop\<close> that the loop returns on every reader that comes to an end.
  \<^item> \<open>Cpio\<close>, \<open>Cpio_Read\<close>, \<open>Initbuild\<close>: the \<open>newc\<close> writer over any \<open>io.Writer\<close> (locale \<open>byte_sink\<close>, interpreted
    for a buffer, a limited writer and the compressed file), a reader for the format and the round trip
    between them, and the packing of an initramfs.
  \<^item> \<open>Cache\<close>, \<open>Image_Ref\<close>, \<open>Image_Ref_Correct\<close>: directories of the cache; short names of Docker Hub, the
    mirror and the grammar of references, against a table of the forms a reference has.
  \<^item> \<open>Config_Spec\<close>, \<open>Config_Users\<close>: the process of an image, with users and groups looked up in the image's
    own databases (locale \<open>line_db\<close>, interpreted for \<open>passwd\<close> and \<open>group\<close>).
  \<^item> \<open>Json\<close>, \<open>Json_Roundtrip\<close>, \<open>Json_Struct\<close>: the text format, and \<open>encoding/json\<close> on the types of the
    program; \<open>Config_File\<close>, \<open>Oci\<close> and \<open>Pod_Json\<close> use it (locale \<open>codec\<close>, interpreted for the guest's
    configuration and for the pod specification).
  \<^item> \<open>Pull\<close>, \<open>Pull_Correct\<close>, \<open>Pull_Refine\<close>: the pull over a registry that is a parameter, what success and
    failure leave, and that it computes the composition of its parts.  \<open>Sample_Registry\<close> is a concrete one.
    \<open>Pull_Safe\<close> carries the confinement of extraction through the whole pull, and shows the layer that
    redirects the guest's configuration; \<open>Pull_Outcome\<close> gives the tree and the verdict for every behaviour
    of the registry, and with it the meaning of the guest's configuration as the sign of a complete image
    (locale \<open>tree_change\<close>: a relation that every entry keeps, every stream and every sequence of layers keep,
    wherever they stop; interpreted there and in \<open>Run_Again\<close>).
  \<^item> \<open>Artifacts\<close>: the kernel and the pod initramfs; the locale \<open>artifact\<close> is their contract, and the atomicity
    of the replacement is proved once inside it.  \<open>Store_Steps\<close> is the same code one system call at a time,
    with a proof that a process left alone ends where the code ends; \<open>Store_Race\<close> lets any number of them
    take turns and be killed: a bound on the turns each one needs, an invariant on all reachable states
    when their artefacts differ, and the schedule that tears the file when they are the same.
  \<^item> \<open>Boot\<close>, \<open>Run\<close>, \<open>Request\<close>, \<open>Prepare\<close>, \<open>Run_Correct\<close>: which files are booted, the request and what the guest
    reads from its command line, whole runs, and what earlier runs and failed pulls leave to later ones.
    \<open>Run_Fresh\<close> is the way from an empty cache to a running machine; \<open>Run_Again\<close> is about operations after one
    another: an image pulled beside others, a run repeated, a run after a pull that stopped half-way.
  \<^item> \<open>Pod\<close>, \<open>Pod_Correct\<close>: pod mode, from the manifest to the request and the specification on disk.
  \<^item> \<open>Session\<close>: the protocol of the calls as a state machine.  The phases are an instance of
    \<open>order\<close> along which the steps rise.  The locale \<open>vm_client\<close> is the contract of an operation that prepares
    and then calls, and the dispatcher \<open>Run\<close> interprets it; \<open>paired_client\<close> adds what the two calls say, gives
    the former as a sublocale, and is interpreted by both modes.

  \<^bold>\<open>Bounds and fuel.\<close>  Integers of the code are words where they can wrap: the 32-bit fields and the 64-bit
  position of the \<open>cpio\<close> writer, ids, modes, CPU and memory figures.  Round trips of the writer assume an
  archive below \<open>2^63\<close> bytes, and state what happens to files of \<open>2^32\<close> bytes and more.  The readers of the
  archive and of JSON recurse on fuel that starts at the length of the text; every step consumes at least
  one character, and the round trips show that it suffices on everything that was written.  The loop of
  \<open>extractTar\<close> is a partial function with a proof that it returns; all else is total.  A run of
  \<open>store_step\<close> is given as many steps as \<open>remaining\<close> allows, which every step takes down.

  \<^bold>\<open>Parameters.\<close>  Code that is not part of the program is an argument of the model: the registry (the
  answer to a tag, and to a descriptor as a reader that may fail), the gzip and tar decoders, the gzip
  encoder, the environment, and the daemon (whether it can be dialled, and its answer to each call given
  the calls before).

  \<^bold>\<open>Not modelled.\<close>  Log and progress lines; the transport (HTTP, gRPC, deadlines, credentials), which only
  shows in what the parameters answer; errors of closing a file; failures of the file system such as a
  full disk; processes working on the file system at the same time, except for the boot artefacts; fields
  of the OCI documents the program does not look at, except for whether they make a document unreadable;
  the difference between an empty list and an absent one in a configuration that is read and written
  again (the model writes \<open>null\<close>); device nodes and extended attributes, which the program skips.
\<close>

end
